(* ===== verification/Prelude.thy ===== *)
theory Prelude
  imports Main "HOL-Library.AList" "HOL-Library.Sublist" "HOL-Library.List_Lexorder"
    "HOL-Library.Code_Target_Nat" "HOL-Library.Code_Target_Int"
begin

text \<open>
  The shared vocabulary of the development: Python strings, bytes, dictionaries and results,
  with the generic lemmas every component uses.

  A Python \<open>str\<close> is a list of code points (\<open>pystr\<close>), so that the Unicode-sensitive
  code (zero-width characters, full-width letters) is modelled at the width the program sees;
  \<open>str ''abc''\<close> is a literal. A \<open>dict\<close> is an association list in insertion order:
  \<^const>\<open>map_of\<close> reads it and \<^const>\<open>AList.update\<close> writes it (in place for a key
  that is present, at the end otherwise, as CPython does). A function that may raise returns a
  sum, \<open>Inl\<close> the exception.
\<close>

named_theorems result_simps \<open>unfolding of the result combinators\<close>

named_theorems frame_simps \<open>what an operation leaves unchanged\<close>

section \<open>Strings\<close>

type_synonym pystr = "nat list"

type_synonym bytes = "nat list"

definition str :: "string \<Rightarrow> pystr" where
  "str s = map of_char s"

lemma str_Nil [simp]: "str [] = []"
  by (simp add: str_def)

lemma str_append: "str (a @ b) = str a @ str b"
  by (simp add: str_def)

lemma inj_of_char_nat: "inj (of_char :: char \<Rightarrow> nat)"
  by (rule injI) simp

lemma str_inject [simp]: "str a = str b \<longleftrightarrow> a = b"
  by (simp add: str_def inj_map_eq_map [OF inj_of_char_nat])

lemma str_eq_Nil [simp]: "str a = [] \<longleftrightarrow> a = []" and Nil_eq_str [simp]: "[] = str a \<longleftrightarrow> a = []"
  by (auto simp: str_def)

lemma str_less_256: "c \<in> set (str a) \<Longrightarrow> c < 256"
  by (auto simp: str_def)

text \<open>Every white-space code point of CPython's \<open>str.isspace\<close>.\<close>

definition py_isspace :: "nat \<Rightarrow> bool" where
  "py_isspace c \<longleftrightarrow> 9 \<le> c \<and> c \<le> 13 \<or> 28 \<le> c \<and> c \<le> 32 \<or> c = 133 \<or> c = 160 \<or> c = 5760
     \<or> 8192 \<le> c \<and> c \<le> 8202 \<or> c = 8232 \<or> c = 8233 \<or> c = 8239 \<or> c = 8287 \<or> c = 12288"

text \<open>The white space of \<open>bytes.strip()\<close>.\<close>

definition byte_isspace :: "nat \<Rightarrow> bool" where
  "byte_isspace c \<longleftrightarrow> 9 \<le> c \<and> c \<le> 13 \<or> c = 32"

definition strip_by :: "('a \<Rightarrow> bool) \<Rightarrow> 'a list \<Rightarrow> 'a list" where
  "strip_by p s = rev (dropWhile p (rev (dropWhile p s)))"

definition py_strip :: "pystr \<Rightarrow> pystr" where
  "py_strip = strip_by py_isspace"

definition bytes_strip :: "bytes \<Rightarrow> bytes" where
  "bytes_strip = strip_by byte_isspace"

lemma strip_by_Nil [simp]: "strip_by p [] = []"
  by (simp add: strip_by_def)

lemma strip_by_eq_Nil: "strip_by p s = [] \<longleftrightarrow> (\<forall>c \<in> set s. p c)"
proof
  assume "strip_by p s = []"
  then have "\<forall>c \<in> set (dropWhile p s). p c"
    by (simp add: strip_by_def)
  then have "dropWhile p s = []"
    by (metis dropWhile_eq_Nil_conv hd_dropWhile list.set_sel(1))
  then show "\<forall>c \<in> set s. p c"
    by simp
next
  assume "\<forall>c \<in> set s. p c"
  then have "dropWhile p s = []"
    by simp
  then show "strip_by p s = []"
    by (simp add: strip_by_def del: dropWhile_eq_Nil_conv)
qed

lemma set_strip_by: "set (strip_by p s) \<subseteq> set s"
proof
  fix x
  assume "x \<in> set (strip_by p s)"
  then have "x \<in> set (dropWhile p s)"
    unfolding strip_by_def by (auto dest: set_dropWhileD)
  then show "x \<in> set s"
    by (rule set_dropWhileD)
qed

lemma strip_by_id: "\<forall>c \<in> set s. \<not> p c \<Longrightarrow> strip_by p s = s"
proof -
  assume free: "\<forall>c \<in> set s. \<not> p c"
  have drop: "dropWhile p t = t" if "\<forall>c \<in> set t. \<not> p c" for t
    using that by (cases t) auto
  show ?thesis
    using free by (simp add: strip_by_def drop)
qed

text \<open>\<open>s.partition(c)\<close>: what is before the first \<open>c\<close>, whether there is one, what follows.\<close>

definition py_partition :: "nat \<Rightarrow> pystr \<Rightarrow> pystr \<times> bool \<times> pystr" where
  "py_partition c s =
     (takeWhile (\<lambda>x. x \<noteq> c) s, c \<in> set s, tl (dropWhile (\<lambda>x. x \<noteq> c) s))"

text \<open>\<open>s.split(c)\<close> for a one-character separator: always at least one piece.\<close>

fun py_split :: "nat \<Rightarrow> pystr \<Rightarrow> pystr list" where
  "py_split c [] = [[]]"
| "py_split c (x # xs) =
     (if x = c then [] # py_split c xs
      else case py_split c xs of [] \<Rightarrow> [[x]] | p # ps \<Rightarrow> (x # p) # ps)"

text \<open>\<open>sep.join(pieces)\<close>.\<close>

fun py_join :: "pystr \<Rightarrow> pystr list \<Rightarrow> pystr" where
  "py_join sep [] = []"
| "py_join sep [p] = p"
| "py_join sep (p # q # ps) = p @ sep @ py_join sep (q # ps)"

lemma py_split_nonempty [simp]: "py_split c s \<noteq> []"
  by (induction s) (auto split: list.splits)

lemma py_join_Cons: "ps \<noteq> [] \<Longrightarrow> py_join sep (p # ps) = p @ sep @ py_join sep ps"
  by (cases ps) auto

lemma py_join_Cons_Cons [simp]: "py_join sep ((x # p) # ps) = x # py_join sep (p # ps)"
  by (cases ps) auto

lemma py_split_join: "py_join [c] (py_split c s) = s"
proof (induction s)
  case Nil
  then show ?case by simp
next
  case (Cons x xs)
  then show ?case
    by (auto simp: py_join_Cons split: list.splits)
qed

lemma py_split_pieces: "p \<in> set (py_split c s) \<Longrightarrow> c \<notin> set p"
  by (induction s arbitrary: p) (fastforce split: if_splits list.splits)+

lemma py_split_no_sep: "c \<notin> set s \<Longrightarrow> py_split c s = [s]"
  by (induction s) auto

lemma py_split_append:
  "py_split c (a @ b) =
     butlast (py_split c a) @ (last (py_split c a) @ hd (py_split c b)) # tl (py_split c b)"
proof (induction a)
  case Nil
  then show ?case by (simp add: list.expand)
next
  case (Cons x a)
  show ?case
  proof (cases "x = c")
    case True
    then show ?thesis using Cons by simp
  next
    case False
    then show ?thesis using Cons by (cases "py_split c a") (auto split: list.splits)
  qed
qed

text \<open>
  \<open>str.lower\<close> on Latin-1, the range of an HTTP header. Every comparison of the program is
  with an ASCII word, and no other code point but U+212A and U+0130 lowers to ASCII letters.
\<close>

definition lower_cp :: "nat \<Rightarrow> nat" where
  "lower_cp c = (if 65 \<le> c \<and> c \<le> 90 \<or> 192 \<le> c \<and> c \<le> 222 \<and> c \<noteq> 215 then c + 32 else c)"

definition py_lower :: "pystr \<Rightarrow> pystr" where
  "py_lower = map lower_cp"

lemma lower_cp_idem [simp]: "lower_cp (lower_cp c) = lower_cp c"
  by (auto simp: lower_cp_def)

lemma py_lower_idem [simp]: "py_lower (py_lower s) = py_lower s"
  by (simp add: py_lower_def)

text \<open>\<open>str.isdigit\<close> on Latin-1 counts the superscripts 1, 2 and 3, which \<open>int\<close> refuses.\<close>

definition py_isdigit_cp :: "nat \<Rightarrow> bool" where
  "py_isdigit_cp c \<longleftrightarrow> 48 \<le> c \<and> c \<le> 57 \<or> c = 178 \<or> c = 179 \<or> c = 185"

definition py_isdigit :: "pystr \<Rightarrow> bool" where
  "py_isdigit s \<longleftrightarrow> s \<noteq> [] \<and> (\<forall>c \<in> set s. py_isdigit_cp c)"

fun digits_value :: "nat \<Rightarrow> pystr \<Rightarrow> nat" where
  "digits_value acc [] = acc"
| "digits_value acc (c # cs) = digits_value (10 * acc + (c - 48)) cs"

text \<open>\<open>int(s)\<close> for a non-empty run that passed \<open>isdigit\<close>; \<open>None\<close> is a \<open>ValueError\<close>.\<close>

definition int_of_digits :: "pystr \<Rightarrow> int option" where
  "int_of_digits s =
     (if s \<noteq> [] \<and> (\<forall>c \<in> set s. 48 \<le> c \<and> c \<le> 57) \<and> length s \<le> 4300
      then Some (int (digits_value 0 s)) else None)"

text \<open>The decimal digits of a number, as \<open>str(n)\<close> prints them.\<close>

fun nat_digits :: "nat \<Rightarrow> pystr" where
  "nat_digits n = (if n < 10 then [48 + n] else nat_digits (n div 10) @ [48 + n mod 10])"

declare nat_digits.simps [simp del]

definition int_digits :: "int \<Rightarrow> pystr" where
  "int_digits i = (if i < 0 then 45 # nat_digits (nat (- i)) else nat_digits (nat i))"

lemma nat_digits_nonempty [simp]: "nat_digits n \<noteq> []"
  by (subst nat_digits.simps) simp

lemma set_nat_digits: "c \<in> set (nat_digits n) \<Longrightarrow> 48 \<le> c \<and> c \<le> 57"
proof (induction n rule: nat_digits.induct)
  case (1 n)
  show ?case
  proof (cases "n < 10")
    case True
    with 1 show ?thesis by (simp add: nat_digits.simps [of n])
  next
    case False
    with 1 show ?thesis by (auto simp: nat_digits.simps [of n])
  qed
qed

lemma digits_value_append: "digits_value acc (s @ t) = digits_value (digits_value acc s) t"
  by (induction s arbitrary: acc) auto

lemma digits_value_nat_digits [simp]: "digits_value 0 (nat_digits n) = n"
proof (induction n rule: nat_digits.induct)
  case (1 n)
  show ?case
  proof (cases "n < 10")
    case True
    then show ?thesis by (simp add: nat_digits.simps [of n])
  next
    case False
    with 1 show ?thesis by (simp add: nat_digits.simps [of n] digits_value_append)
  qed
qed

lemma nat_digits_inject [simp]: "nat_digits m = nat_digits n \<longleftrightarrow> m = n"
  by (metis digits_value_nat_digits)

section \<open>Results\<close>

text \<open>Sequencing of computations that may raise.\<close>

fun and_then :: "'e + 'a \<Rightarrow> ('a \<Rightarrow> 'e + 'b) \<Rightarrow> 'e + 'b" where
  "and_then (Inl e) f = Inl e"
| "and_then (Inr x) f = f x"

text \<open>A comprehension \<open>[f(x) for x in xs]\<close> whose body may raise: the first error stops it.\<close>

fun map_result :: "('a \<Rightarrow> 'e + 'b) \<Rightarrow> 'a list \<Rightarrow> 'e + 'b list" where
  "map_result f [] = Inr []"
| "map_result f (x # xs) =
     (case f x of Inl e \<Rightarrow> Inl e
      | Inr y \<Rightarrow> (case map_result f xs of Inl e \<Rightarrow> Inl e | Inr ys \<Rightarrow> Inr (y # ys)))"

lemma and_then_Inr [result_simps]: "and_then r f = Inr y \<longleftrightarrow> (\<exists>x. r = Inr x \<and> f x = Inr y)"
  by (cases r) auto

lemma map_result_Inr:
  "map_result f xs = Inr ys \<longleftrightarrow> list_all2 (\<lambda>x y. f x = Inr y) xs ys"
proof (induction xs arbitrary: ys)
  case Nil
  then show ?case by auto
next
  case (Cons x xs)
  show ?case
  proof (cases "f x")
    case (Inl e)
    then show ?thesis by (simp add: list_all2_Cons1)
  next
    case (Inr y)
    then have "map_result f (x # xs) = Inr ys \<longleftrightarrow> (\<exists>zs. map_result f xs = Inr zs \<and> ys = y # zs)"
      by (auto split: sum.splits)
    with Inr show ?thesis
      unfolding Cons.IH by (auto simp: list_all2_Cons1)
  qed
qed

lemma map_result_length: "map_result f xs = Inr ys \<Longrightarrow> length ys = length xs"
  by (simp add: map_result_Inr list_all2_lengthD)

lemma map_result_Inl:
  "map_result f xs = Inl e \<Longrightarrow> \<exists>x \<in> set xs. f x = Inl e"
  by (induction xs) (auto split: sum.splits)

lemma map_result_all: "(\<And>x. x \<in> set xs \<Longrightarrow> f x = Inr (g x)) \<Longrightarrow> map_result f xs = Inr (map g xs)"
  by (induction xs) auto

section \<open>Dictionaries\<close>

text \<open>A dict comprehension or literal: later pairs overwrite earlier ones in place.\<close>

definition dict_of :: "('k \<times> 'v) list \<Rightarrow> ('k \<times> 'v) list" where
  "dict_of ps = fold (\<lambda>(k, v) d. AList.update k v d) ps []"

text \<open>\<open>{**d, **e}\<close>.\<close>

definition dict_merge :: "('k \<times> 'v) list \<Rightarrow> ('k \<times> 'v) list \<Rightarrow> ('k \<times> 'v) list" where
  "dict_merge d e = fold (\<lambda>(k, v) d. AList.update k v d) e d"

lemma map_of_update [simp]: "map_of (AList.update k v d) = (map_of d)(k \<mapsto> v)"
  by (rule update_conv')

lemma map_of_fold_update:
  "map_of (fold (\<lambda>(k, v) d. AList.update k v d) e d) = map_of d ++ map_of (rev e)"
  by (induction e arbitrary: d) (auto simp: map_add_upd_left fun_eq_iff map_add_def
      split: option.splits)

lemma map_of_dict_merge: "map_of (dict_merge d e) = map_of d ++ map_of (rev e)"
  by (simp add: dict_merge_def map_of_fold_update)

lemma map_of_dict_of: "map_of (dict_of ps) = map_of (rev ps)"
  by (simp add: dict_of_def map_of_fold_update)

lemma map_of_filter_key: "map_of (filter (\<lambda>(k, v). P k) ps) k = (if P k then map_of ps k else None)"
  by (induction ps) auto

lemma distinct_fold_update:
  "distinct (map fst d) \<Longrightarrow> distinct (map fst (fold (\<lambda>(k, v) d. AList.update k v d) e d))"
  by (induction e arbitrary: d) (auto simp: distinct_update)

lemma distinct_dict_of [simp]: "distinct (map fst (dict_of ps))"
  by (simp add: dict_of_def distinct_fold_update)

lemma keys_dict_of: "fst ` set (dict_of ps) = fst ` set ps"
proof -
  have "dom (map_of (dict_of ps)) = dom (map_of (rev ps))"
    by (simp add: map_of_dict_of)
  then show ?thesis by (simp add: dom_map_of_conv_image_fst)
qed

lemma update_fresh: "k \<notin> fst ` set d \<Longrightarrow> AList.update k v d = d @ [(k, v)]"
  by (induction d) auto

lemma dict_of_distinct: "distinct (map fst ps) \<Longrightarrow> dict_of ps = ps"
proof -
  have gen: "distinct (map fst (d @ ps)) \<Longrightarrow>
      fold (\<lambda>(k, v) d. AList.update k v d) ps d = d @ ps" for d :: "('a \<times> 'b) list"
  proof (induction ps arbitrary: d)
    case Nil
    then show ?case by simp
  next
    case (Cons p ps)
    obtain k v where p: "p = (k, v)" by (cases p)
    from Cons.prems p have "k \<notin> fst ` set d" by auto
    then have "AList.update k v d = d @ [(k, v)]"
      by (rule update_fresh)
    with Cons p show ?case by auto
  qed
  show "distinct (map fst ps) \<Longrightarrow> dict_of ps = ps"
    using gen [of "[]"] by (simp add: dict_of_def)
qed

text \<open>The loop \<open>for k, v in table.items(): if k matches: matched = v\<close>: the last match wins.\<close>

fun last_match :: "('k \<Rightarrow> bool) \<Rightarrow> 'v option \<Rightarrow> ('k \<times> 'v) list \<Rightarrow> 'v option" where
  "last_match p m [] = m"
| "last_match p m ((k, v) # kvs) = last_match p (if p k then Some v else m) kvs"

lemma last_match_eq:
  "last_match (\<lambda>k'. k' = k) m kvs = (case map_of (rev kvs) k of None \<Rightarrow> m | Some v \<Rightarrow> Some v)"
  by (induction kvs arbitrary: m rule: list.induct)
     (auto simp: map_add_def split: option.splits)

lemma map_of_rev_distinct: "distinct (map fst kvs) \<Longrightarrow> map_of (rev kvs) = map_of kvs"
  by (rule map_of_eqI) (auto simp: map_of_is_SomeI map_of_eq_Some_iff rev_map [symmetric] | simp)+

lemma last_match_distinct:
  "distinct (map fst kvs) \<Longrightarrow> last_match (\<lambda>k'. k' = k) None kvs = map_of kvs k"
  by (simp add: last_match_eq map_of_rev_distinct split: option.splits)

end
