(* ===== verification/PyFloat.thy ===== *)
theory PyFloat
  imports Prelude "HOL-Library.Log_Nat" Complex_Main
begin

text \<open>
  Python's \<open>float\<close>: a finite double is the rational it denotes, and every arithmetic
  operation is the exact one followed by rounding to 53 significant bits, ties to even
  (\<open>rnd64\<close>). The exponent is unbounded: no value of the program comes near the overflow
  or the subnormal range. \<open>py_round2 x\<close> is \<open>round(x, 2)\<close> and \<open>fmt2 x\<close> is
  \<open>f"{x:.2f}"\<close>, both of which CPython computes from the exact value of \<open>x\<close>.

  The lemmas show that \<open>rnd64\<close> is monotone with a relative error of at most \<open>2 ^ -53\<close>, and
  that arithmetic on dollar amounts is exact when it is rounded back to cents.
\<close>

section \<open>Rounding\<close>

definition round_half_even :: "rat \<Rightarrow> int" where
  "round_half_even x =
     (let f = \<lfloor>x\<rfloor>; d = x - of_int f
      in if d < 1 / 2 then f else if 1 / 2 < d then f + 1 else if even f then f else f + 1)"

text \<open>The exponent of the leading bit of a positive rational.\<close>

definition ilog2 :: "rat \<Rightarrow> int" where
  "ilog2 x =
     (let (p, q) = quotient_of x; k = bitlen p - bitlen q
      in if x < 2 powi k then k - 1 else k)"

definition rnd64 :: "rat \<Rightarrow> rat" where
  "rnd64 x =
     (if x = 0 then 0
      else let e = ilog2 \<bar>x\<bar> - 52 in of_int (round_half_even (x / 2 powi e)) * 2 powi e)"

definition fadd :: "rat \<Rightarrow> rat \<Rightarrow> rat" where
  "fadd x y = rnd64 (x + y)"

definition fsub :: "rat \<Rightarrow> rat \<Rightarrow> rat" where
  "fsub x y = rnd64 (x - y)"

definition py_round2 :: "rat \<Rightarrow> rat" where
  "py_round2 x = rnd64 (of_int (round_half_even (100 * x)) / 100)"

text \<open>The literal \<open>c / 100\<close>, as \<open>float("...")\<close> reads it.\<close>

definition cents :: "int \<Rightarrow> rat" where
  "cents c = rnd64 (of_int c / 100)"

lemma round_half_even_le: "round_half_even x \<le> \<lfloor>x\<rfloor> + 1"
  by (simp add: round_half_even_def Let_def)

lemma round_half_even_error: "\<bar>of_int (round_half_even x) - x\<bar> \<le> 1 / 2"
proof -
  have "of_int \<lfloor>x\<rfloor> \<le> x" "x < of_int \<lfloor>x\<rfloor> + 1"
    by linarith+
  then show ?thesis
    by (auto simp: round_half_even_def Let_def abs_if) linarith+
qed

lemma round_half_even_of_int [simp]: "round_half_even (of_int i) = i"
  by (simp add: round_half_even_def)

lemma round_half_even_unique:
  assumes "\<bar>of_int n - x\<bar> < 1 / 2"
  shows "round_half_even x = n"
proof -
  have "\<bar>of_int (round_half_even x) - x\<bar> \<le> 1 / 2"
    by (rule round_half_even_error)
  then have "\<bar>of_int (round_half_even x) - of_int n\<bar> < (1 :: rat)"
    using assms by linarith
  then have "\<bar>round_half_even x - n\<bar> < 1"
    by (metis (no_types) of_int_1 of_int_abs of_int_diff of_int_less_iff)
  then show ?thesis by simp
qed

lemma round_half_even_mono:
  assumes "x \<le> y"
  shows "round_half_even x \<le> round_half_even y"
proof (cases "\<lfloor>x\<rfloor> = \<lfloor>y\<rfloor>")
  case True
  with assms show ?thesis
    by (auto simp: round_half_even_def Let_def)
next
  case False
  with floor_mono [OF assms] have "\<lfloor>x\<rfloor> + 1 \<le> \<lfloor>y\<rfloor>" by simp
  moreover have "\<lfloor>y\<rfloor> \<le> round_half_even y"
    by (simp add: round_half_even_def Let_def)
  ultimately show ?thesis
    using round_half_even_le [of x] by linarith
qed

lemma round_half_even_uminus: "round_half_even (- x) = - round_half_even x"
proof (cases "x = of_int \<lfloor>x\<rfloor>")
  case True
  then have "- x = of_int (- \<lfloor>x\<rfloor>)" by simp
  then have "round_half_even (- x) = - \<lfloor>x\<rfloor>"
    by (metis round_half_even_of_int)
  moreover have "round_half_even x = \<lfloor>x\<rfloor>"
    using True by (metis round_half_even_of_int)
  ultimately show ?thesis by simp
next
  case False
  have lo: "of_int \<lfloor>x\<rfloor> < x"
    using False by (metis of_int_floor_le order_le_imp_less_or_eq)
  have hi: "x < of_int \<lfloor>x\<rfloor> + 1" by linarith
  have "\<lfloor>- x\<rfloor> = - \<lfloor>x\<rfloor> - 1"
    using lo hi by (intro floor_unique) auto
  then show ?thesis
    by (auto simp: round_half_even_def Let_def)
qed

lemma ilog2_bounds:
  assumes "0 < x"
  shows "2 powi ilog2 x \<le> x" and "x < 2 powi (ilog2 x + 1)"
proof -
  obtain p q where pq: "quotient_of x = (p, q)" by (cases "quotient_of x")
  have q0: "0 < q" using pq by (rule quotient_of_denom_pos)
  have x: "x = of_int p / of_int q" using pq by (rule quotient_of_div)
  with assms q0 have p0: "0 < p" by (simp add: zero_less_divide_iff)
  let ?k = "bitlen p - bitlen q"
  have bits: "1 \<le> bitlen n" "2 powi (bitlen n - 1) \<le> (of_int n :: rat)"
    "(of_int n :: rat) < 2 powi bitlen n" if "0 < n" for n
  proof -
    have b: "(2 :: int) ^ nat (bitlen n - 1) \<le> n" "n < 2 ^ nat (bitlen n)"
      using bitlen_bounds [OF that] by auto
    show one: "1 \<le> bitlen n" using that by (simp add: bitlen_def floorlog_def)
    have "(of_int (2 ^ nat (bitlen n - 1)) :: rat) \<le> of_int n"
      using b(1) by (simp only: of_int_le_iff)
    then show "2 powi (bitlen n - 1) \<le> (of_int n :: rat)"
      using one by (simp add: power_int_def)
    have "(of_int n :: rat) < of_int (2 ^ nat (bitlen n))"
      using b(2) by (simp only: of_int_less_iff)
    then show "(of_int n :: rat) < 2 powi bitlen n"
      using one by (simp add: power_int_def)
  qed
  have hi: "x < 2 powi (?k + 1)"
  proof -
    have "x * 2 powi (bitlen q - 1) \<le> x * of_int q"
      using bits(2) [OF q0] assms by simp
    also have "\<dots> = of_int p" using x q0 by simp
    also have "\<dots> < 2 powi bitlen p" by (rule bits(3) [OF p0])
    also have "\<dots> = 2 powi (?k + 1) * 2 powi (bitlen q - 1)"
      by (simp flip: power_int_add)
    finally show ?thesis by simp
  qed
  have lo: "2 powi (?k - 1) \<le> x"
  proof -
    have "(2 :: rat) powi (?k - 1) * of_int q \<le> 2 powi (?k - 1) * 2 powi bitlen q"
      using bits(3) [OF q0] by simp
    also have "\<dots> = (2 :: rat) powi (bitlen p - 1)"
      by (simp flip: power_int_add)
    also have "\<dots> \<le> of_int p" by (rule bits(2) [OF p0])
    also have "\<dots> = x * of_int q" using x q0 by simp
    finally show ?thesis using q0 by simp
  qed
  show "2 powi ilog2 x \<le> x" "x < 2 powi (ilog2 x + 1)"
    using lo hi by (auto simp: ilog2_def pq Let_def)
qed

lemma powi_2_mono: "m \<le> n \<Longrightarrow> (2 :: rat) powi m \<le> 2 powi n"
  by (simp add: power_int_increasing)

lemma powi_2_less_imp: "(2 :: rat) powi m < 2 powi n \<Longrightarrow> m < n"
  using powi_2_mono [of n m] by linarith

lemma ilog2_mono:
  assumes "0 < x" and "x \<le> y"
  shows "ilog2 x \<le> ilog2 y"
proof -
  have "2 powi ilog2 x \<le> x" by (rule ilog2_bounds(1) [OF assms(1)])
  also have "\<dots> \<le> y" by (rule assms(2))
  also have "\<dots> < 2 powi (ilog2 y + 1)"
    using assms by (intro ilog2_bounds(2)) linarith
  finally show ?thesis
    using powi_2_less_imp by fastforce
qed

lemma rnd64_0 [simp]: "rnd64 0 = 0"
  by (simp add: rnd64_def)

lemma rnd64_uminus: "rnd64 (- x) = - rnd64 x"
  by (simp add: rnd64_def Let_def round_half_even_uminus flip: minus_divide_left)

lemma rnd64_error_pos:
  assumes "0 < x"
  shows "\<bar>rnd64 x - x\<bar> \<le> x / 2 ^ 53"
proof -
  let ?e = "ilog2 x - 52"
  have x: "x = x / 2 powi ?e * 2 powi ?e" by simp
  have "rnd64 x = of_int (round_half_even (x / 2 powi ?e)) * 2 powi ?e"
    using assms by (simp add: rnd64_def Let_def)
  then have "rnd64 x - x = (of_int (round_half_even (x / 2 powi ?e)) - x / 2 powi ?e) * 2 powi ?e"
    using x by (metis left_diff_distrib)
  then have "\<bar>rnd64 x - x\<bar>
      = \<bar>of_int (round_half_even (x / 2 powi ?e)) - x / 2 powi ?e\<bar> * 2 powi ?e"
    by (simp add: abs_mult)
  also have "\<dots> \<le> 1 / 2 * 2 powi ?e"
    by (intro mult_right_mono round_half_even_error) simp
  also have "\<dots> = 2 powi ilog2 x / 2 ^ 53"
    by (simp add: power_int_diff)
  also have "\<dots> \<le> x / 2 ^ 53"
    using ilog2_bounds(1) [OF assms] by (simp add: divide_right_mono)
  finally show ?thesis .
qed

lemma rnd64_error: "\<bar>rnd64 x - x\<bar> \<le> \<bar>x\<bar> / 2 ^ 53"
proof (cases x "0 :: rat" rule: linorder_cases)
  case less
  then have "\<bar>rnd64 (- x) - (- x)\<bar> \<le> (- x) / 2 ^ 53"
    by (intro rnd64_error_pos) simp
  with less show ?thesis
    by (simp add: rnd64_uminus abs_minus_commute)
next
  case equal
  then show ?thesis by simp
next
  case greater
  with rnd64_error_pos [OF greater] show ?thesis by simp
qed

lemma rnd64_pow_multiple:
  assumes "0 < x" and "ilog2 x - 52 \<le> m"
  shows "x \<le> 2 powi m \<Longrightarrow> rnd64 x \<le> 2 powi m" and "2 powi m \<le> x \<Longrightarrow> 2 powi m \<le> rnd64 x"
proof -
  let ?e = "ilog2 x - 52"
  define n :: int where "n = 2 ^ nat (m - ?e)"
  have n: "(of_int n :: rat) = 2 powi m / 2 powi ?e"
  proof -
    have "(of_int n :: rat) = 2 powi (m - ?e)"
      using assms(2) by (simp add: n_def power_int_def)
    also have "\<dots> = 2 powi m / 2 powi ?e"
      by (rule power_int_diff) simp
    finally show ?thesis .
  qed
  have r: "rnd64 x = of_int (round_half_even (x / 2 powi ?e)) * 2 powi ?e"
    using assms(1) by (simp add: rnd64_def Let_def)
  show "rnd64 x \<le> 2 powi m" if "x \<le> 2 powi m"
  proof -
    have "x / 2 powi ?e \<le> of_int n"
      using that by (simp add: n divide_right_mono)
    then have "round_half_even (x / 2 powi ?e) \<le> n"
      using round_half_even_mono by fastforce
    then have "(of_int (round_half_even (x / 2 powi ?e)) :: rat) \<le> 2 powi m / 2 powi ?e"
      by (simp flip: n)
    then show ?thesis by (simp add: r pos_le_divide_eq)
  qed
  show "2 powi m \<le> rnd64 x" if "2 powi m \<le> x"
  proof -
    have "of_int n \<le> x / 2 powi ?e"
      using that by (simp add: n divide_right_mono)
    then have "n \<le> round_half_even (x / 2 powi ?e)"
      using round_half_even_mono by fastforce
    then have "2 powi m / 2 powi ?e \<le> (of_int (round_half_even (x / 2 powi ?e)) :: rat)"
      by (simp flip: n)
    then show ?thesis by (simp add: r pos_divide_le_eq)
  qed
qed

lemma rnd64_mono_pos:
  assumes "0 < x" and "x \<le> y"
  shows "rnd64 x \<le> rnd64 y"
proof -
  have y: "0 < y" using assms by linarith
  have le: "ilog2 x \<le> ilog2 y" by (rule ilog2_mono [OF assms])
  show ?thesis
  proof (cases "ilog2 x = ilog2 y")
    case True
    let ?e = "ilog2 y - 52"
    have "x / 2 powi ?e \<le> y / 2 powi ?e"
      using assms(2) by (simp add: divide_right_mono)
    then have "round_half_even (x / 2 powi ?e) \<le> round_half_even (y / 2 powi ?e)"
      by (rule round_half_even_mono)
    with True assms(1) y show ?thesis
      by (simp add: rnd64_def Let_def)
  next
    case False
    with le have less: "ilog2 x + 1 \<le> ilog2 y" by simp
    have "x \<le> 2 powi ilog2 y"
      using ilog2_bounds(2) [OF assms(1)] powi_2_mono [OF less] by linarith
    then have "rnd64 x \<le> 2 powi ilog2 y"
      using less by (intro rnd64_pow_multiple(1) [OF assms(1)]) auto
    also have "\<dots> \<le> rnd64 y"
      by (rule rnd64_pow_multiple(2) [OF y]) (use ilog2_bounds(1) [OF y] in auto)
    finally show ?thesis .
  qed
qed

lemma rnd64_nonneg: "0 \<le> x \<Longrightarrow> 0 \<le> rnd64 x"
proof (cases "x = 0")
  case False
  assume "0 \<le> x"
  with False have x: "0 < x" by simp
  have "x / 2 ^ 53 \<le> x"
    using x by (simp add: divide_le_eq)
  then show ?thesis
    using rnd64_error_pos [OF x] by linarith
qed simp

theorem rnd64_mono: "x \<le> y \<Longrightarrow> rnd64 x \<le> rnd64 y"
proof -
  assume le: "x \<le> y"
  consider "0 < x" | "x \<le> 0" "0 \<le> y" | "y < 0" by linarith
  then show ?thesis
  proof cases
    case 1
    then show ?thesis using le by (rule rnd64_mono_pos)
  next
    case 2
    have "0 \<le> rnd64 (- x)" using 2 by (intro rnd64_nonneg) simp
    moreover have "0 \<le> rnd64 y" using 2 by (intro rnd64_nonneg)
    ultimately show ?thesis by (simp add: rnd64_uminus)
  next
    case 3
    then have "rnd64 (- y) \<le> rnd64 (- x)"
      using le by (intro rnd64_mono_pos) auto
    then show ?thesis by (simp add: rnd64_uminus)
  qed
qed

lemma fsub_mono_left: "x \<le> y \<Longrightarrow> fsub x w \<le> fsub y w"
  by (simp add: fsub_def rnd64_mono)

lemma fsub_le_self: "0 \<le> w \<Longrightarrow> rnd64 x = x \<Longrightarrow> fsub x w \<le> x"
  using rnd64_mono [of "x - w" x] by (simp add: fsub_def)

section \<open>Dollar amounts\<close>

lemma cents_0 [simp]: "cents 0 = 0"
  by (simp add: cents_def)

lemma cents_mono: "a \<le> b \<Longrightarrow> cents a \<le> cents b"
  unfolding cents_def by (intro rnd64_mono) (simp add: divide_right_mono)

lemma cents_nonneg: "0 \<le> a \<Longrightarrow> 0 \<le> cents a"
  using cents_mono [of 0 a] by simp

text \<open>Amounts up to a billion dollars are far enough apart for 53 bits.\<close>

definition cents_bound :: int where
  "cents_bound = 10 ^ 11"

lemma cents_close:
  assumes "0 \<le> a" and "a \<le> cents_bound"
  shows "\<bar>cents a - of_int a / 100\<bar> \<le> 1 / 4000"
proof -
  have "(of_int a :: rat) \<le> of_int (10 ^ 11)"
    using assms(2) by (simp only: cents_bound_def of_int_le_iff)
  then have a: "(of_int a :: rat) \<le> 100000000000" by simp
  have "\<bar>cents a - of_int a / 100\<bar> \<le> \<bar>of_int a / 100\<bar> / 2 ^ 53"
    unfolding cents_def by (rule rnd64_error)
  also have "\<dots> = of_int a / (100 * 2 ^ 53)"
    using assms(1) by simp
  also have "\<dots> \<le> 1 / 4000"
    using a by (simp add: divide_le_eq)
  finally show ?thesis .
qed

lemma cents_less_iff:
  assumes "0 \<le> a" "a \<le> cents_bound" "0 \<le> b" "b \<le> cents_bound"
  shows "cents a < cents b \<longleftrightarrow> a < b"
proof
  assume "cents a < cents b"
  then show "a < b" using cents_mono [of b a] by linarith
next
  assume "a < b"
  then have "of_int (a + 1) \<le> (of_int b :: rat)"
    by (simp only: of_int_le_iff)
  then have "(of_int a :: rat) / 100 + 1 / 100 \<le> of_int b / 100"
    by (simp add: field_simps)
  with cents_close [OF assms(1,2)] cents_close [OF assms(3,4)]
  show "cents a < cents b" by linarith
qed

lemma cents_inject:
  assumes "0 \<le> a" "a \<le> cents_bound" "0 \<le> b" "b \<le> cents_bound"
  shows "cents a = cents b \<longleftrightarrow> a = b"
  using cents_less_iff [OF assms] cents_less_iff [OF assms(3,4,1,2)]
  by (metis less_irrefl linorder_less_linear)

lemma round_cents:
  assumes "0 \<le> a" "a \<le> cents_bound"
  shows "round_half_even (100 * cents a) = a"
  by (rule round_half_even_unique) (use cents_close [OF assms] in linarith)

lemma py_round2_cents:
  assumes "0 \<le> a" "a \<le> cents_bound"
  shows "py_round2 (cents a) = cents a"
  by (simp add: py_round2_def round_cents [OF assms]) (simp add: cents_def)

text \<open>\<open>round(balance - amount, 2)\<close> is exact on cents.\<close>

theorem py_round2_fsub_cents:
  assumes "0 \<le> a" "a \<le> b" "b \<le> cents_bound"
  shows "py_round2 (fsub (cents b) (cents a)) = cents (b - a)"
proof -
  let ?d = "cents b - cents a"
  have ca: "\<bar>cents a - of_int a / 100\<bar> \<le> 1 / 4000"
    by (rule cents_close) (use assms in auto)
  have cb: "\<bar>cents b - of_int b / 100\<bar> \<le> 1 / 4000"
    by (rule cents_close) (use assms in auto)
  have "(of_int b :: rat) \<le> of_int (10 ^ 11)"
    using assms(3) by (simp only: cents_bound_def of_int_le_iff)
  then have b: "(of_int b :: rat) \<le> 100000000000" by simp
  have d0: "0 \<le> ?d" using cents_mono [OF assms(2)] by simp
  have "?d \<le> cents b" using cents_nonneg [OF assms(1)] by simp
  then have d1: "?d \<le> 1000000001" using cb b by linarith
  have "\<bar>fsub (cents b) (cents a) - ?d\<bar> \<le> \<bar>?d\<bar> / 2 ^ 53"
    unfolding fsub_def by (rule rnd64_error)
  also have "\<dots> \<le> 1 / 4000"
    using d0 d1 by (simp add: divide_le_eq)
  finally have "\<bar>fsub (cents b) (cents a) - ?d\<bar> \<le> 1 / 4000" .
  then have "\<bar>of_int (b - a) - 100 * fsub (cents b) (cents a)\<bar> < 1 / 2"
    using ca cb by (simp only: of_int_diff)
  then have "round_half_even (100 * fsub (cents b) (cents a)) = b - a"
    by (rule round_half_even_unique)
  then show ?thesis
    by (simp add: py_round2_def cents_def)
qed

section \<open>JSON numbers\<close>

text \<open>A float of a JSON document: finite, or one of the literals \<open>Infinity\<close>, \<open>NaN\<close>.\<close>

datatype pyfloat = Fin rat | PosInf | NegInf | NaN

end
