(* ===== verification/PyJson.thy ===== *)
theory PyJson
  imports PyFloat
begin

text \<open>
  JSON values as \<open>json.loads\<close> builds them, with the tests Python code makes on them
  (\<open>isinstance\<close>, truthiness, \<open>dict.get\<close>), the serialiser \<open>json.dumps\<close> and the
  parser \<open>json.loads\<close> with its \<open>object_pairs_hook\<close>.

  An object is the list of its members in order. \<open>dumps_with\<close> takes \<open>ensure_ascii\<close>, the
  two separators and the text of a finite float (\<open>fr\<close>, the shortest repr) as arguments. The parser is the
  standard library's recursive descent, with fuel for its recursion: every call consumes at
  least one character, so fuel beyond the length of the text is never exhausted
  (\<open>parse_fuel\<close>). Its round trip with \<open>dumps\<close> is in \<open>PyJson_Roundtrip\<close>.
\<close>

section \<open>Values\<close>

datatype json =
    JNull
  | JBool bool
  | JInt int
  | JFloat pyfloat
  | JStr pystr
  | JArr "json list"
  | JObj "(pystr \<times> json) list"

fun is_dict :: "json \<Rightarrow> bool" where
  "is_dict (JObj kvs) = True"
| "is_dict _ = False"

fun is_list :: "json \<Rightarrow> bool" where
  "is_list (JArr xs) = True"
| "is_list _ = False"

fun as_str :: "json \<Rightarrow> pystr option" where
  "as_str (JStr s) = Some s"
| "as_str _ = None"

text \<open>\<open>isinstance(v, int)\<close> holds of \<open>True\<close> and \<open>False\<close>, whose values are 1 and 0.\<close>

fun as_int :: "json \<Rightarrow> int option" where
  "as_int (JInt i) = Some i"
| "as_int (JBool b) = Some (if b then 1 else 0)"
| "as_int _ = None"

fun is_bool :: "json \<Rightarrow> bool" where
  "is_bool (JBool b) = True"
| "is_bool _ = False"

fun truthy :: "json \<Rightarrow> bool" where
  "truthy JNull = False"
| "truthy (JBool b) = b"
| "truthy (JInt i) = (i \<noteq> 0)"
| "truthy (JFloat f) = (f \<noteq> Fin 0)"
| "truthy (JStr s) = (s \<noteq> [])"
| "truthy (JArr xs) = (xs \<noteq> [])"
| "truthy (JObj kvs) = (kvs \<noteq> [])"

type_synonym jobject = "(pystr \<times> json) list"

text \<open>\<open>d.get(key)\<close> and \<open>d.get(key, default)\<close>.\<close>

definition jget_or :: "json \<Rightarrow> pystr \<Rightarrow> jobject \<Rightarrow> json" where
  "jget_or v k d = (case map_of d k of None \<Rightarrow> v | Some x \<Rightarrow> x)"

abbreviation jget :: "pystr \<Rightarrow> jobject \<Rightarrow> json" where
  "jget \<equiv> jget_or JNull"

definition has_key :: "pystr \<Rightarrow> jobject \<Rightarrow> bool" where
  "has_key k d \<longleftrightarrow> map_of d k \<noteq> None"

lemma has_key_simps [simp]:
  "has_key k []  \<longleftrightarrow> False"
  "has_key k ((k', v) # d) \<longleftrightarrow> k = k' \<or> has_key k d"
  by (auto simp: has_key_def)

lemma jget_or_simps [simp]:
  "jget_or v k [] = v"
  "jget_or v k ((k', x) # d) = (if k = k' then x else jget_or v k d)"
  by (auto simp: jget_or_def)

lemma jget_not_has_key: "\<not> has_key k d \<Longrightarrow> jget_or v k d = v"
  by (simp add: jget_or_def has_key_def)

text \<open>Every string leaf of a value, in order, the keys of objects left out.\<close>

primrec leaves :: "json \<Rightarrow> pystr list" where
  "leaves JNull = []"
| "leaves (JBool b) = []"
| "leaves (JInt i) = []"
| "leaves (JFloat f) = []"
| "leaves (JStr s) = [s]"
| "leaves (JArr xs) = concat (map leaves xs)"
| "leaves (JObj kvs) = concat (map snd (map (map_prod id leaves) kvs))"

section \<open>Serialising\<close>

definition hex_digit :: "nat \<Rightarrow> nat" where
  "hex_digit n = (if n < 10 then 48 + n else 87 + n)"

definition hex4 :: "nat \<Rightarrow> pystr" where
  "hex4 n = [hex_digit (n div 4096 mod 16), hex_digit (n div 256 mod 16),
     hex_digit (n div 16 mod 16), hex_digit (n mod 16)]"

definition u_escape :: "nat \<Rightarrow> pystr" where
  "u_escape n = 92 # 117 # hex4 n"

text \<open>One character of a string under \<open>ensure_ascii=True\<close>, the default.\<close>

definition escape_cp :: "nat \<Rightarrow> pystr" where
  "escape_cp c =
     (if c = 34 \<or> c = 92 then [92, c]
      else if c = 10 then [92, 110] else if c = 13 then [92, 114] else if c = 9 then [92, 116]
      else if c = 8 then [92, 98] else if c = 12 then [92, 102]
      else if 32 \<le> c \<and> c \<le> 126 then [c]
      else if c < 65536 then u_escape c
      else u_escape (55296 + (c - 65536) div 1024) @ u_escape (56320 + (c - 65536) mod 1024))"

text \<open>The same under \<open>ensure_ascii=False\<close>.\<close>

definition escape_raw :: "nat \<Rightarrow> pystr" where
  "escape_raw c =
     (if c = 34 \<or> c = 92 then [92, c]
      else if c = 10 then [92, 110] else if c = 13 then [92, 114] else if c = 9 then [92, 116]
      else if c = 8 then [92, 98] else if c = 12 then [92, 102]
      else if c < 32 then u_escape c
      else [c])"

definition escape_char :: "bool \<Rightarrow> nat \<Rightarrow> pystr" where
  "escape_char ascii c = (if ascii then escape_cp c else escape_raw c)"

definition quote_with :: "bool \<Rightarrow> pystr \<Rightarrow> pystr" where
  "quote_with ascii s = 34 # concat (map (escape_char ascii) s) @ [34]"

abbreviation quote :: "pystr \<Rightarrow> pystr" where
  "quote \<equiv> quote_with True"

fun float_text :: "(rat \<Rightarrow> pystr) \<Rightarrow> pyfloat \<Rightarrow> pystr" where
  "float_text fr (Fin x) = fr x"
| "float_text fr PosInf = str ''Infinity''"
| "float_text fr NegInf = str ''-Infinity''"
| "float_text fr NaN = str ''NaN''"

primrec dumps_with :: "bool \<Rightarrow> pystr \<Rightarrow> pystr \<Rightarrow> (rat \<Rightarrow> pystr) \<Rightarrow> json \<Rightarrow> pystr" where
  "dumps_with ascii isep ksep fr JNull = str ''null''"
| "dumps_with ascii isep ksep fr (JBool b) = (if b then str ''true'' else str ''false'')"
| "dumps_with ascii isep ksep fr (JInt i) = int_digits i"
| "dumps_with ascii isep ksep fr (JFloat f) = float_text fr f"
| "dumps_with ascii isep ksep fr (JStr s) = quote_with ascii s"
| "dumps_with ascii isep ksep fr (JArr xs) = 91 # py_join isep (map (dumps_with ascii isep ksep fr) xs) @ [93]"
| "dumps_with ascii isep ksep fr (JObj kvs) =
     123 # py_join isep
       (map (\<lambda>(k, t). quote_with ascii k @ ksep @ t) (map (map_prod id (dumps_with ascii isep ksep fr)) kvs)) @ [125]"

abbreviation dumps :: "pystr \<Rightarrow> pystr \<Rightarrow> (rat \<Rightarrow> pystr) \<Rightarrow> json \<Rightarrow> pystr" where
  "dumps \<equiv> dumps_with True"

text \<open>The default separators and the compact ones.\<close>

abbreviation dumps_default :: "(rat \<Rightarrow> pystr) \<Rightarrow> json \<Rightarrow> pystr" where
  "dumps_default \<equiv> dumps [44, 32] [58, 32]"

abbreviation dumps_compact :: "(rat \<Rightarrow> pystr) \<Rightarrow> json \<Rightarrow> pystr" where
  "dumps_compact \<equiv> dumps [44] [58]"

text \<open>Printable ASCII: what one line of a log may hold.\<close>

definition printable_ascii :: "pystr \<Rightarrow> bool" where
  "printable_ascii s \<longleftrightarrow> (\<forall>c \<in> set s. 32 \<le> c \<and> c \<le> 126)"

lemma printable_ascii_simps [simp]:
  "printable_ascii []"
  "printable_ascii (c # s) \<longleftrightarrow> 32 \<le> c \<and> c \<le> 126 \<and> printable_ascii s"
  "printable_ascii (s @ t) \<longleftrightarrow> printable_ascii s \<and> printable_ascii t"
  by (auto simp: printable_ascii_def)

lemma printable_hex_digit: "n < 16 \<Longrightarrow> 32 \<le> hex_digit n \<and> hex_digit n \<le> 126"
  by (simp add: hex_digit_def)

lemma printable_u_escape [simp]: "printable_ascii (u_escape n)"
  by (simp add: u_escape_def hex4_def printable_hex_digit)

lemma printable_escape_cp [simp]: "printable_ascii (escape_cp c)"
  by (simp add: escape_cp_def)

lemma printable_concat: "(\<And>x. x \<in> set xs \<Longrightarrow> printable_ascii x) \<Longrightarrow> printable_ascii (concat xs)"
  by (induction xs) auto

lemma printable_quote [simp]: "printable_ascii (quote s)"
  by (auto simp: quote_with_def escape_char_def intro!: printable_concat)

lemma printable_join:
  "printable_ascii sep \<Longrightarrow> (\<And>x. x \<in> set xs \<Longrightarrow> printable_ascii x) \<Longrightarrow> printable_ascii (py_join sep xs)"
  by (induction sep xs rule: py_join.induct) auto

lemma printable_int_digits [simp]: "printable_ascii (int_digits i)"
  using set_nat_digits by (fastforce simp: int_digits_def printable_ascii_def)

lemma printable_float_text:
  "(\<And>x. printable_ascii (fr x)) \<Longrightarrow> printable_ascii (float_text fr f)"
  by (cases f) (auto simp: str_def)

theorem printable_dumps:
  assumes "printable_ascii isep" "printable_ascii ksep" "\<And>x. printable_ascii (fr x)"
  shows "printable_ascii (dumps isep ksep fr j)"
proof (induction j)
  case (JObj kvs)
  then show ?case
    using assms by (fastforce intro!: printable_join)
qed (use assms in \<open>auto simp: str_def printable_float_text intro!: printable_join\<close>)

section \<open>Parsing\<close>

datatype json_error =
    ExpectingValue
  | ExpectingPropertyName
  | ExpectingColon
  | ExpectingComma
  | TrailingCommaObject
  | TrailingCommaArray
  | UnterminatedString
  | ControlCharacter
  | InvalidEscape
  | InvalidUnicodeEscape
  | UnexpectedBom
  | ExtraData
  | TooManyDigits  \<comment> \<open>a plain \<open>ValueError\<close>: more than 4300 digits\<close>
  | BadEncoding  \<comment> \<open>a \<open>UnicodeDecodeError\<close> from the bytes\<close>
  | DuplicateKey pystr  \<comment> \<open>raised by the gateway's \<open>object_pairs_hook\<close>\<close>
  | OutOfFuel  \<comment> \<open>never reached, see \<open>parse_fuel\<close>\<close>

text \<open>The errors that are \<open>json.JSONDecodeError\<close>; the others are not.\<close>

fun is_decode_error :: "json_error \<Rightarrow> bool" where
  "is_decode_error TooManyDigits = False"
| "is_decode_error BadEncoding = False"
| "is_decode_error (DuplicateKey k) = False"
| "is_decode_error OutOfFuel = False"
| "is_decode_error _ = True"

text \<open>\<open>exc.msg\<close> of a \<open>JSONDecodeError\<close>.\<close>

fun decode_error_msg :: "json_error \<Rightarrow> pystr" where
  "decode_error_msg ExpectingValue = str ''Expecting value''"
| "decode_error_msg ExpectingPropertyName = str ''Expecting property name enclosed in double quotes''"
| "decode_error_msg ExpectingColon = str (''Expecting '' @ [CHR 0x27] @ '':'' @ [CHR 0x27] @ '' delimiter'')"
| "decode_error_msg ExpectingComma = str (''Expecting '' @ [CHR 0x27] @ '','' @ [CHR 0x27] @ '' delimiter'')"
| "decode_error_msg TrailingCommaObject = str ''Illegal trailing comma before end of object''"
| "decode_error_msg TrailingCommaArray = str ''Illegal trailing comma before end of array''"
| "decode_error_msg UnterminatedString = str ''Unterminated string starting at''"
| "decode_error_msg ControlCharacter = str ''Invalid control character at''"
| "decode_error_msg InvalidEscape = str (''Invalid '' @ [CHR 0x5C] @ ''escape'')"
| "decode_error_msg InvalidUnicodeEscape = str (''Invalid '' @ [CHR 0x5C] @ ''uXXXX escape'')"
| "decode_error_msg UnexpectedBom = str ''Unexpected UTF-8 BOM (decode using utf-8-sig)''"
| "decode_error_msg ExtraData = str ''Extra data''"
| "decode_error_msg _ = []"

definition json_ws :: "nat \<Rightarrow> bool" where
  "json_ws c \<longleftrightarrow> c = 32 \<or> c = 9 \<or> c = 10 \<or> c = 13"

abbreviation skip_ws :: "pystr \<Rightarrow> pystr" where
  "skip_ws \<equiv> dropWhile json_ws"

definition is_digit :: "nat \<Rightarrow> bool" where
  "is_digit c \<longleftrightarrow> 48 \<le> c \<and> c \<le> 57"

definition hex_value :: "nat \<Rightarrow> nat option" where
  "hex_value c =
     (if is_digit c then Some (c - 48)
      else if 97 \<le> c \<and> c \<le> 102 then Some (c - 87)
      else if 65 \<le> c \<and> c \<le> 70 then Some (c - 55) else None)"

definition hex4_value :: "nat \<Rightarrow> nat \<Rightarrow> nat \<Rightarrow> nat \<Rightarrow> nat option" where
  "hex4_value a b c d =
     (case (hex_value a, hex_value b, hex_value c, hex_value d) of
        (Some w, Some x, Some y, Some z) \<Rightarrow> Some (4096 * w + 256 * x + 16 * y + z)
      | _ \<Rightarrow> None)"

definition simple_escape :: "nat \<Rightarrow> nat option" where
  "simple_escape c =
     (if c = 34 \<or> c = 92 \<or> c = 47 then Some c
      else if c = 98 then Some 8 else if c = 102 then Some 12 else if c = 110 then Some 10
      else if c = 114 then Some 13 else if c = 116 then Some 9 else None)"

definition scan_hex4 :: "pystr \<Rightarrow> (nat \<times> pystr) option" where
  "scan_hex4 s =
     (case s of
        a # b # c # d # rest \<Rightarrow> map_option (\<lambda>u. (u, rest)) (hex4_value a b c d)
      | _ \<Rightarrow> None)"

text \<open>What follows \<open>\u\<close>: a code unit, and its partner where it is a high surrogate.\<close>

definition scan_unicode :: "pystr \<Rightarrow> json_error + (nat \<times> pystr)" where
  "scan_unicode s =
     (case scan_hex4 s of
        None \<Rightarrow> Inl InvalidUnicodeEscape
      | Some (u, rest) \<Rightarrow>
          if 55296 \<le> u \<and> u \<le> 56319 \<and> prefix [92, 117] rest then
            (case scan_hex4 (drop 2 rest) of
               None \<Rightarrow> Inl InvalidUnicodeEscape
             | Some (w, rest') \<Rightarrow>
                 if 56320 \<le> w \<and> w \<le> 57343
                 then Inr (65536 + (u - 55296) * 1024 + (w - 56320), rest')
                 else Inr (u, rest))
          else Inr (u, rest))"

definition scan_escape :: "pystr \<Rightarrow> json_error + (nat \<times> pystr)" where
  "scan_escape s =
     (case s of
        [] \<Rightarrow> Inl UnterminatedString
      | e # es \<Rightarrow>
          if e = 117 then scan_unicode es
          else (case simple_escape e of None \<Rightarrow> Inl InvalidEscape | Some d \<Rightarrow> Inr (d, es)))"

definition cons_fst :: "nat \<Rightarrow> json_error + (pystr \<times> pystr) \<Rightarrow> json_error + (pystr \<times> pystr)" where
  "cons_fst c r = and_then r (\<lambda>(s, t). Inr (c # s, t))"

lemma scan_hex4_shorter: "scan_hex4 s = Some (u, r) \<Longrightarrow> length r < length s"
  by (auto simp: scan_hex4_def split: list.splits)

lemma scan_unicode_shorter: "scan_unicode s = Inr (u, r) \<Longrightarrow> length r < length s"
  by (fastforce simp: scan_unicode_def split: option.splits if_splits prod.splits
      dest!: scan_hex4_shorter)

lemma scan_escape_shorter: "scan_escape s = Inr (u, r) \<Longrightarrow> length r < length s"
  by (auto simp: scan_escape_def split: list.splits if_splits option.splits
      dest!: scan_unicode_shorter)

text \<open>The rest of a string after its opening quote: its contents and what follows it.\<close>

function scan_string :: "pystr \<Rightarrow> json_error + (pystr \<times> pystr)" where
  "scan_string [] = Inl UnterminatedString"
| "scan_string (c # cs) =
     (if c = 34 then Inr ([], cs)
      else if c = 92 then
        (case scan_escape cs of Inl e \<Rightarrow> Inl e | Inr (d, r) \<Rightarrow> cons_fst d (scan_string r))
      else if c < 32 then Inl ControlCharacter
      else cons_fst c (scan_string cs))"
  by pat_completeness auto
termination
  by (relation "measure length") (auto dest: scan_escape_shorter)

declare scan_string.simps [simp del]

definition starts_digit :: "pystr \<Rightarrow> bool" where
  "starts_digit s \<longleftrightarrow> (case s of [] \<Rightarrow> False | c # _ \<Rightarrow> is_digit c)"

text \<open>The optional fraction and exponent of a number.\<close>

definition scan_fraction :: "pystr \<Rightarrow> pystr option \<times> pystr" where
  "scan_fraction s =
     (case s of
        c # t \<Rightarrow> if c = 46 \<and> starts_digit t then (Some (takeWhile is_digit t), dropWhile is_digit t)
                 else (None, s)
      | [] \<Rightarrow> (None, s))"

definition scan_exponent :: "pystr \<Rightarrow> int option \<times> pystr" where
  "scan_exponent s =
     (case s of
        c # t \<Rightarrow>
          if c = 101 \<or> c = 69 then
            (let (neg, t') = (case t of g # u \<Rightarrow> if g = 45 then (True, u) else if g = 43 then (False, u)
                                                 else (False, t)
                                      | [] \<Rightarrow> (False, t));
                 v = int (digits_value 0 (takeWhile is_digit t'))
             in if starts_digit t' then (Some (if neg then - v else v), dropWhile is_digit t')
                else (None, s))
          else (None, s)
      | [] \<Rightarrow> (None, s))"

text \<open>\<open>float(text)\<close>: correctly rounded, infinite beyond the largest double.\<close>

definition float_of_rat :: "rat \<Rightarrow> pyfloat" where
  "float_of_rat r =
     (let x = rnd64 r in if 2 ^ 1024 \<le> x then PosInf else if x \<le> - (2 ^ 1024) then NegInf else Fin x)"

definition scan_number :: "pystr \<Rightarrow> (json_error + (json \<times> pystr)) option" where
  "scan_number s =
     (let (neg, s1) = (case s of c # t \<Rightarrow> if c = 45 then (True, t) else (False, s) | [] \<Rightarrow> (False, s))
      in case s1 of
           [] \<Rightarrow> None
         | c # t \<Rightarrow>
             if \<not> is_digit c then None
             else
               (let (ds, s2) = (if c = 48 then ([c], t)
                                else (takeWhile is_digit s1, dropWhile is_digit s1));
                    (fs, s3) = scan_fraction s2;
                    (ex, s4) = scan_exponent s3;
                    sign = (if neg then - 1 else 1)
                in Some
                  (case (fs, ex) of
                     (None, None) \<Rightarrow>
                       if 4300 < length ds then Inl TooManyDigits
                       else Inr (JInt (sign * int (digits_value 0 ds)), s4)
                   | _ \<Rightarrow>
                       (let frac = (case fs of None \<Rightarrow> [] | Some f \<Rightarrow> f);
                            e = (case ex of None \<Rightarrow> 0 | Some e \<Rightarrow> e);
                            m = of_nat (digits_value 0 (ds @ frac))
                        in Inr (JFloat (float_of_rat
                             (of_int sign * m * 10 powi (e - int (length frac)))), s4)))))"

definition scan_literal :: "pystr \<Rightarrow> (json \<times> pystr) option" where
  "scan_literal s =
     (if prefix (str ''null'') s then Some (JNull, drop 4 s)
      else if prefix (str ''true'') s then Some (JBool True, drop 4 s)
      else if prefix (str ''false'') s then Some (JBool False, drop 5 s)
      else if prefix (str ''NaN'') s then Some (JFloat NaN, drop 3 s)
      else if prefix (str ''Infinity'') s then Some (JFloat PosInf, drop 8 s)
      else if prefix (str ''-Infinity'') s then Some (JFloat NegInf, drop 9 s)
      else None)"

text \<open>
  The parser proper. \<open>parse_elements\<close> is called at the first element of an array and
  \<open>parse_members\<close> at the first key of an object; \<open>h\<close> is the \<open>object_pairs_hook\<close>.
\<close>

type_synonym pairs_hook = "jobject \<Rightarrow> json_error + jobject"

fun parse_value :: "nat \<Rightarrow> pairs_hook \<Rightarrow> pystr \<Rightarrow> json_error + (json \<times> pystr)"
  and parse_elements :: "nat \<Rightarrow> pairs_hook \<Rightarrow> pystr \<Rightarrow> json_error + (json list \<times> pystr)"
  and parse_members :: "nat \<Rightarrow> pairs_hook \<Rightarrow> pystr \<Rightarrow> json_error + (jobject \<times> pystr)" where
  "parse_value 0 h s = Inl OutOfFuel"
| "parse_value (Suc n) h s =
     (if s = [] then Inl ExpectingValue
      else if hd s = 34 then and_then (scan_string (tl s)) (\<lambda>(t, r). Inr (JStr t, r))
      else if hd s = 123 then
        (let s' = skip_ws (tl s)
         in if s' \<noteq> [] \<and> hd s' = 125 then and_then (h []) (\<lambda>kvs. Inr (JObj kvs, tl s'))
            else and_then (parse_members n h s')
              (\<lambda>(ps, r). and_then (h ps) (\<lambda>kvs. Inr (JObj kvs, r))))
      else if hd s = 91 then
        (let s' = skip_ws (tl s)
         in if s' \<noteq> [] \<and> hd s' = 93 then Inr (JArr [], tl s')
            else and_then (parse_elements n h s') (\<lambda>(xs, r). Inr (JArr xs, r)))
      else
        (case scan_literal s of
           Some r \<Rightarrow> Inr r
         | None \<Rightarrow> (case scan_number s of None \<Rightarrow> Inl ExpectingValue | Some r \<Rightarrow> r)))"
| "parse_elements 0 h s = Inl OutOfFuel"
| "parse_elements (Suc n) h s =
     and_then (parse_value n h s)
       (\<lambda>(x, r).
          let r' = skip_ws r
          in if r' \<noteq> [] \<and> hd r' = 93 then Inr ([x], tl r')
             else if r' \<noteq> [] \<and> hd r' = 44 then
               (let s' = skip_ws (tl r')
                in if s' \<noteq> [] \<and> hd s' = 93 then Inl TrailingCommaArray
                   else and_then (parse_elements n h s') (\<lambda>(xs, t). Inr (x # xs, t)))
             else Inl ExpectingComma)"
| "parse_members 0 h s = Inl OutOfFuel"
| "parse_members (Suc n) h s =
     (if s = [] \<or> hd s \<noteq> 34 then Inl ExpectingPropertyName
      else and_then (scan_string (tl s))
        (\<lambda>(k, r).
           let r' = skip_ws r
           in if r' = [] \<or> hd r' \<noteq> 58 then Inl ExpectingColon
              else and_then (parse_value n h (skip_ws (tl r')))
                (\<lambda>(v, u).
                   let u' = skip_ws u
                   in if u' \<noteq> [] \<and> hd u' = 125 then Inr ([(k, v)], tl u')
                      else if u' \<noteq> [] \<and> hd u' = 44 then
                        (let s' = skip_ws (tl u')
                         in if s' \<noteq> [] \<and> hd s' = 125 then Inl TrailingCommaObject
                            else and_then (parse_members n h s') (\<lambda>(kvs, t). Inr ((k, v) # kvs, t)))
                      else Inl ExpectingComma)))"

definition json_loads_with :: "pairs_hook \<Rightarrow> pystr \<Rightarrow> json_error + json" where
  "json_loads_with h s =
     (if prefix [65279] s then Inl UnexpectedBom
      else
        (case parse_value (2 * length s + 2) h (skip_ws s) of
           Inl e \<Rightarrow> Inl e
         | Inr (v, r) \<Rightarrow> if skip_ws r = [] then Inr v else Inl ExtraData))"

text \<open>\<open>json.loads(s)\<close>: of repeated keys the last one wins.\<close>

definition json_loads :: "pystr \<Rightarrow> json_error + json" where
  "json_loads = json_loads_with (\<lambda>ps. Inr (dict_of ps))"

text \<open>
  \<open>json.loads(body)\<close> of bytes: \<open>decode\<close> is \<open>bytes.decode\<close> with the detected encoding,
  \<open>None\<close> a \<open>UnicodeDecodeError\<close>.
\<close>

definition json_loads_bytes_with ::
    "pairs_hook \<Rightarrow> (bytes \<Rightarrow> pystr option) \<Rightarrow> bytes \<Rightarrow> json_error + json" where
  "json_loads_bytes_with h decode b =
     (case decode b of None \<Rightarrow> Inl BadEncoding | Some s \<Rightarrow> json_loads_with h s)"

definition json_loads_bytes :: "(bytes \<Rightarrow> pystr option) \<Rightarrow> bytes \<Rightarrow> json_error + json" where
  "json_loads_bytes = json_loads_bytes_with (\<lambda>ps. Inr (dict_of ps))"

end
