(* ===== verification/PyJson_Roundtrip.thy ===== *)
theory PyJson_Roundtrip
  imports PyJson
begin

text \<open>
  The parser never runs out of fuel (\<open>parse_fuel\<close>) and reads back what the serialiser
  writes (\<open>loads_dumps\<close>): for every value whose objects have distinct keys, whose strings are
  free of surrogates and whose floats print as numbers, and for separators made of the comma or
  colon and white space.
\<close>

section \<open>Progress\<close>

lemma cons_fst_Inr: "cons_fst c r = Inr (s, t) \<longleftrightarrow> (\<exists>s'. s = c # s' \<and> r = Inr (s', t))"
  by (auto simp: cons_fst_def result_simps)

lemma cons_fst_Inl: "cons_fst c r = Inl e \<longleftrightarrow> r = Inl e"
  by (cases r) (auto simp: cons_fst_def)

lemma scan_string_shorter: "scan_string s = Inr (t, r) \<Longrightarrow> length r < length s"
proof (induction s arbitrary: t r rule: scan_string.induct)
  case 1
  then show ?case by (simp add: scan_string.simps)
next
  case (2 c cs)
  show ?case
  proof (cases "scan_escape cs")
    case (Inl e)
    with 2 show ?thesis
      by (fastforce simp: scan_string.simps(2) cons_fst_Inr split: if_splits)
  next
    case (Inr x)
    obtain d u where x: "x = (d, u)" by (cases x)
    with Inr have "length u < length cs" by (simp add: scan_escape_shorter)
    with 2 Inr x show ?thesis
      by (fastforce simp: scan_string.simps(2) cons_fst_Inr split: if_splits)
  qed
qed

lemma scan_fraction_shorter: "scan_fraction s = (f, r) \<Longrightarrow> length r \<le> length s"
  by (auto simp: scan_fraction_def split: list.splits if_splits
      intro: le_SucI length_dropWhile_le)

lemma scan_exponent_shorter: "scan_exponent s = (f, r) \<Longrightarrow> length r \<le> length s"
  using length_dropWhile_le [of is_digit]
  by (auto simp: scan_exponent_def Let_def intro: le_SucI split: list.splits if_splits)

lemma scan_number_shorter: "scan_number s = Some (Inr (v, r)) \<Longrightarrow> length r < length s"
proof -
  assume num: "scan_number s = Some (Inr (v, r))"
  obtain neg s1 where s1: "(case s of c # t \<Rightarrow> if c = 45 then (True, t) else (False, s)
      | [] \<Rightarrow> (False, s)) = (neg, s1)" by fastforce
  have s1_le: "length s1 \<le> length s"
    using s1 by (auto split: list.splits if_splits)
  from num s1 obtain c t where ct: "s1 = c # t" "is_digit c"
    by (auto simp: scan_number_def split: list.splits if_splits)
  obtain ds s2 where s2: "(if c = 48 then ([c], t)
      else (takeWhile is_digit s1, dropWhile is_digit s1)) = (ds, s2)" by fastforce
  have s2_le: "length s2 \<le> length t"
    using s2 ct length_dropWhile_le [of is_digit t] by (auto split: if_splits)
  obtain fs s3 where s3: "scan_fraction s2 = (fs, s3)" by fastforce
  obtain ex s4 where s4: "scan_exponent s3 = (ex, s4)" by fastforce
  have "r = s4"
    using num s1 ct s2 s3 s4
    by (auto simp: scan_number_def Let_def split: if_splits option.splits)
  with s1_le s2_le ct scan_fraction_shorter [OF s3] scan_exponent_shorter [OF s4]
  show ?thesis by simp
qed

lemma scan_literal_shorter: "scan_literal s = Some (v, r) \<Longrightarrow> length r < length s"
  by (auto simp: scan_literal_def str_def prefix_def split: if_splits)

lemma tl_skip_ws: "length (tl (skip_ws s)) \<le> length s" "length (skip_ws s) \<le> length s"
  "length (tl (skip_ws (tl s))) \<le> length s" "length (skip_ws (tl s)) \<le> length s"
  using length_dropWhile_le [of json_ws s] length_dropWhile_le [of json_ws "tl s"] by simp_all

text \<open>Where the rest of a successful parse comes from.\<close>

lemma parse_value_rest:
  "parse_value (Suc n) h s = Inr (v, r) \<Longrightarrow> s \<noteq> [] \<and>
     ((\<exists>t. scan_string (tl s) = Inr (t, r)) \<or> r = tl (skip_ws (tl s))
      \<or> (\<exists>ps. parse_members n h (skip_ws (tl s)) = Inr (ps, r))
      \<or> (\<exists>xs. parse_elements n h (skip_ws (tl s)) = Inr (xs, r))
      \<or> scan_literal s = Some (v, r) \<or> scan_number s = Some (Inr (v, r)))"
  by (simp add: result_simps Let_def split: if_splits option.splits) (auto simp: result_simps)

lemma parse_elements_rest:
  "parse_elements (Suc n) h s = Inr (vs, r) \<Longrightarrow>
     \<exists>x u. parse_value n h s = Inr (x, u) \<and>
       (r = tl (skip_ws u) \<or> (\<exists>xs. parse_elements n h (skip_ws (tl (skip_ws u))) = Inr (xs, r)))"
  by (simp add: result_simps Let_def split: if_splits) (auto simp: result_simps split: if_splits)

lemma parse_members_rest:
  "parse_members (Suc n) h s = Inr (kvs, r) \<Longrightarrow>
     \<exists>k u v w. s \<noteq> [] \<and> scan_string (tl s) = Inr (k, u)
       \<and> parse_value n h (skip_ws (tl (skip_ws u))) = Inr (v, w)
       \<and> (r = tl (skip_ws w) \<or> (\<exists>kvs'. parse_members n h (skip_ws (tl (skip_ws w))) = Inr (kvs', r)))"
  by (simp add: result_simps Let_def split: if_splits)
    (auto simp: result_simps Let_def split: if_splits)

lemma parse_shorter:
  "(parse_value n h s = Inr (v, r) \<longrightarrow> length r < length s) \<and>
   (parse_elements n h s = Inr (vs, r) \<longrightarrow> length r < length s) \<and>
   (parse_members n h s = Inr (kvs, r) \<longrightarrow> length r < length s)"
proof (induction n arbitrary: s v vs kvs r)
  case 0
  then show ?case by simp
next
  case (Suc n)
  then have V: "\<And>s v r. parse_value n h s = Inr (v, r) \<Longrightarrow> length r < length s"
    and E: "\<And>s v r. parse_elements n h s = Inr (v, r) \<Longrightarrow> length r < length s"
    and M: "\<And>s v r. parse_members n h s = Inr (v, r) \<Longrightarrow> length r < length s"
    by blast+
  have tl: "length (tl s) < length s" "length (skip_ws (tl s)) < length s" if "s \<noteq> []" for s :: pystr
    using that tl_skip_ws(4) [of s] length_dropWhile_le [of json_ws "tl s"] by (cases s; simp)+
  have "length r < length s" if "parse_value (Suc n) h s = Inr (v, r)"
    using parse_value_rest [OF that] tl [of s] tl_skip_ws(1) [of "tl s"]
    by (auto dest!: V E M scan_string_shorter scan_number_shorter scan_literal_shorter)
  moreover have "length r < length s" if e: "parse_elements (Suc n) h s = Inr (vs, r)"
  proof -
    obtain x u where x: "parse_value n h s = Inr (x, u)" and
      r: "r = tl (skip_ws u) \<or> (\<exists>xs. parse_elements n h (skip_ws (tl (skip_ws u))) = Inr (xs, r))"
      using parse_elements_rest [OF e] by blast
    from r have "length r \<le> length u"
      using tl_skip_ws [of u] tl_skip_ws(2) [of "tl (skip_ws u)"] by (fastforce dest: E)
    with V [OF x] show ?thesis by simp
  qed
  moreover have "length r < length s" if m: "parse_members (Suc n) h s = Inr (kvs, r)"
  proof -
    obtain k u v w where s: "s \<noteq> []" and k: "scan_string (tl s) = Inr (k, u)"
      and v: "parse_value n h (skip_ws (tl (skip_ws u))) = Inr (v, w)"
      and r: "r = tl (skip_ws w) \<or> (\<exists>xs. parse_members n h (skip_ws (tl (skip_ws w))) = Inr (xs, r))"
      using parse_members_rest [OF m] by blast
    from r have "length r \<le> length w"
      using tl_skip_ws [of w] tl_skip_ws(2) [of "tl (skip_ws w)"] by (fastforce dest: M)
    moreover have "length w < length u"
      using V [OF v] tl_skip_ws [of u] tl_skip_ws(2) [of "tl (skip_ws u)"] by linarith
    ultimately show ?thesis
      using scan_string_shorter [OF k] tl [OF s] by linarith
  qed
  ultimately show ?case by blast
qed

lemmas parse_value_shorter = parse_shorter [THEN conjunct1, rule_format]
  and parse_elements_shorter = parse_shorter [THEN conjunct2, THEN conjunct1, rule_format]
  and parse_members_shorter = parse_shorter [THEN conjunct2, THEN conjunct2, rule_format]

section \<open>Fuel\<close>

lemma scan_unicode_fuel: "scan_unicode s \<noteq> Inl OutOfFuel"
  by (auto simp: scan_unicode_def split: option.splits prod.splits)

lemma scan_escape_fuel: "scan_escape s \<noteq> Inl OutOfFuel"
  using scan_unicode_fuel by (auto simp: scan_escape_def split: list.splits option.splits)

lemma scan_string_fuel: "scan_string s \<noteq> Inl OutOfFuel"
proof (induction s rule: scan_string.induct)
  case (2 c cs)
  then show ?case
    using scan_escape_fuel [of cs]
    by (auto simp: scan_string.simps(2) cons_fst_Inl split: sum.splits)
qed (simp add: scan_string.simps)

lemma scan_number_fuel: "scan_number s \<noteq> Some (Inl OutOfFuel)"
proof
  assume num: "scan_number s = Some (Inl OutOfFuel)"
  obtain neg s1 where s1: "(case s of c # t \<Rightarrow> if c = 45 then (True, t) else (False, s)
      | [] \<Rightarrow> (False, s)) = (neg, s1)" by fastforce
  from num s1 obtain c t where ct: "s1 = c # t" "is_digit c"
    by (auto simp: scan_number_def split: list.splits if_splits)
  obtain ds s2 where s2: "(if c = 48 then ([c], t)
      else (takeWhile is_digit s1, dropWhile is_digit s1)) = (ds, s2)" by fastforce
  obtain fs s3 where s3: "scan_fraction s2 = (fs, s3)" by fastforce
  obtain ex s4 where s4: "scan_exponent s3 = (ex, s4)" by fastforce
  show False
    using num s1 ct s2 s3 s4
    by (auto simp: scan_number_def Let_def split: if_splits option.splits)
qed

lemma and_then_Inl: "and_then r f = Inl e \<longleftrightarrow> r = Inl e \<or> (\<exists>x. r = Inr x \<and> f x = Inl e)"
  by (cases r) auto

theorem parse_fuel:
  assumes hook: "\<And>ps. h ps \<noteq> Inl OutOfFuel"
  shows "(2 * length s < n \<longrightarrow> parse_value n h s \<noteq> Inl OutOfFuel) \<and>
    (2 * length s + 1 < n \<longrightarrow> parse_elements n h s \<noteq> Inl OutOfFuel) \<and>
    (2 * length s < n \<longrightarrow> parse_members n h s \<noteq> Inl OutOfFuel)"
proof (induction n arbitrary: s)
  case 0
  then show ?case by simp
next
  case (Suc n)
  then have V: "\<And>s. 2 * length s < n \<Longrightarrow> parse_value n h s \<noteq> Inl OutOfFuel"
    and E: "\<And>s. 2 * length s + 1 < n \<Longrightarrow> parse_elements n h s \<noteq> Inl OutOfFuel"
    and M: "\<And>s. 2 * length s < n \<Longrightarrow> parse_members n h s \<noteq> Inl OutOfFuel"
    by blast+
  have less: "length (skip_ws (tl s)) < length s" if "s \<noteq> []" for s :: pystr
    using that length_dropWhile_le [of json_ws "tl s"] by (cases s) auto
  have le: "length (skip_ws (tl (skip_ws s))) \<le> length s" for s
    using tl_skip_ws(2,4) [of s] tl_skip_ws(4) [of "skip_ws s"] by linarith
  have "parse_value (Suc n) h s \<noteq> Inl OutOfFuel" if "2 * length s < Suc n"
  proof (cases "s = []")
    case False
    have "parse_elements n h (skip_ws (tl s)) \<noteq> Inl OutOfFuel"
      "parse_members n h (skip_ws (tl s)) \<noteq> Inl OutOfFuel"
      by (rule E M; use less [OF False] that in simp)+
    then show ?thesis
      using scan_string_fuel [of "tl s"] scan_number_fuel [of s] hook
      by (auto simp: and_then_Inl Let_def split: option.splits if_splits)
  qed simp
  moreover have "parse_elements (Suc n) h s \<noteq> Inl OutOfFuel" if "2 * length s + 1 < Suc n"
  proof -
    have "parse_elements n h (skip_ws (tl (skip_ws u))) \<noteq> Inl OutOfFuel"
      if "parse_value n h s = Inr (x, u)" for x u
      by (rule E) (use parse_value_shorter [OF that] le [of u] \<open>2 * length s + 1 < Suc n\<close> in simp)
    then show ?thesis
      using V [of s] that by (auto simp: and_then_Inl Let_def split: if_splits)
  qed
  moreover have "parse_members (Suc n) h s \<noteq> Inl OutOfFuel" if "2 * length s < Suc n"
  proof -
    have v: "parse_value n h (skip_ws (tl (skip_ws u))) \<noteq> Inl OutOfFuel"
      if "s \<noteq> []" "scan_string (tl s) = Inr (k, u)" for k u
      by (rule V) (use scan_string_shorter [OF that(2)] le [of u] \<open>2 * length s < Suc n\<close> in
          \<open>cases s; simp\<close>)
    have "parse_members n h (skip_ws (tl (skip_ws w))) \<noteq> Inl OutOfFuel"
      if "s \<noteq> []" "scan_string (tl s) = Inr (k, u)"
        "parse_value n h (skip_ws (tl (skip_ws u))) = Inr (v, w)" for k u v w
      by (rule M) (use scan_string_shorter [OF that(2)] parse_value_shorter [OF that(3)]
          le [of u] le [of w] that(1) \<open>2 * length s < Suc n\<close> in \<open>cases s; simp\<close>)
    with v show ?thesis
      using scan_string_fuel [of "tl s"]
      by (auto simp: and_then_Inl Let_def split: if_splits)
  qed
  ultimately show ?case by blast
qed

corollary json_loads_fuel:
  "(\<And>ps. h ps \<noteq> Inl OutOfFuel) \<Longrightarrow> json_loads_with h s \<noteq> Inl OutOfFuel"
proof -
  assume hook: "\<And>ps. h ps \<noteq> Inl OutOfFuel"
  have "parse_value (2 * length s + 2) h (skip_ws s) \<noteq> Inl OutOfFuel"
    using parse_fuel [OF hook, of "skip_ws s" "2 * length s + 2"]
      length_dropWhile_le [of json_ws s] by (simp del: parse_value.simps)
  then show ?thesis
    by (auto simp: json_loads_with_def simp del: parse_value.simps split: sum.splits)
qed

section \<open>Reading back what was written\<close>

definition valid_cp :: "nat \<Rightarrow> bool" where
  "valid_cp c \<longleftrightarrow> c \<le> 1114111 \<and> \<not> (55296 \<le> c \<and> c \<le> 57343)"

definition valid_str :: "pystr \<Rightarrow> bool" where
  "valid_str s \<longleftrightarrow> (\<forall>c \<in> set s. valid_cp c)"

text \<open>Text that does not continue a number.\<close>

definition number_ends :: "pystr \<Rightarrow> bool" where
  "number_ends r \<longleftrightarrow> (r = [] \<or> \<not> is_digit (hd r) \<and> hd r \<notin> {46, 101, 69})"

text \<open>The printed form of a float reads back as that float.\<close>

definition repr_ok :: "(rat \<Rightarrow> pystr) \<Rightarrow> rat \<Rightarrow> bool" where
  "repr_ok fr x \<longleftrightarrow>
     fr x \<noteq> [] \<and> (is_digit (hd (fr x)) \<or> hd (fr x) = 45 \<and> starts_digit (tl (fr x))) \<and>
     (\<forall>r. number_ends r \<longrightarrow> scan_number (fr x @ r) = Some (Inr (JFloat (Fin x), r)))"

primrec wf_json :: "(rat \<Rightarrow> pystr) \<Rightarrow> json \<Rightarrow> bool" where
  "wf_json fr JNull \<longleftrightarrow> True"
| "wf_json fr (JBool b) \<longleftrightarrow> True"
| "wf_json fr (JInt i) \<longleftrightarrow> length (nat_digits (nat \<bar>i\<bar>)) \<le> 4300"
| "wf_json fr (JFloat f) \<longleftrightarrow> (case f of Fin x \<Rightarrow> repr_ok fr x | _ \<Rightarrow> True)"
| "wf_json fr (JStr s) \<longleftrightarrow> valid_str s"
| "wf_json fr (JArr xs) \<longleftrightarrow> (\<forall>b \<in> set (map (wf_json fr) xs). b)"
| "wf_json fr (JObj kvs) \<longleftrightarrow>
     distinct (map fst kvs) \<and> (\<forall>k \<in> set (map fst kvs). valid_str k) \<and>
     (\<forall>b \<in> set (map snd (map (map_prod id (wf_json fr)) kvs)). b)"

subsection \<open>Strings\<close>

lemma hex_value_digit [simp]: "n < 16 \<Longrightarrow> hex_value (hex_digit n) = Some n"
  by (auto simp: hex_value_def hex_digit_def is_digit_def)

lemma scan_hex4_hex4 [simp]:
  assumes "n < 65536"
  shows "scan_hex4 (hex4 n @ t) = Some (n, t)"
proof -
  have "n = 16 * (n div 16) + n mod 16"
    by simp
  moreover have "n div 16 = 16 * (n div 256) + n div 16 mod 16"
    using mult_div_mod_eq [of 16 "n div 16"] by (simp add: div_mult2_eq [symmetric])
  moreover have "n div 256 = 16 * (n div 4096) + n div 256 mod 16"
    using mult_div_mod_eq [of 16 "n div 256"] by (simp add: div_mult2_eq [symmetric])
  ultimately have "4096 * (n div 4096) + 256 * (n div 256 mod 16) + 16 * (n div 16 mod 16) + n mod 16 = n"
    by linarith
  moreover have "n div 4096 < 16" "n div 4096 mod 16 = n div 4096"
    using assms by (simp_all add: less_mult_imp_div_less)
  ultimately show ?thesis
    by (simp add: scan_hex4_def hex4_def hex4_value_def)
qed

lemma scan_string_plain:
  "32 \<le> c \<Longrightarrow> c \<noteq> 34 \<Longrightarrow> c \<noteq> 92 \<Longrightarrow> scan_string (c # t) = cons_fst c (scan_string t)"
  by (simp add: scan_string.simps)

lemma scan_string_escaped:
  "scan_escape e = Inr (c, t) \<Longrightarrow> scan_string (92 # e) = cons_fst c (scan_string t)"
  by (simp add: scan_string.simps(2))

lemma scan_u_escape:
  assumes "n < 65536" "\<not> (55296 \<le> n \<and> n \<le> 56319)"
  shows "scan_string (u_escape n @ t) = cons_fst n (scan_string t)"
proof -
  have "scan_escape (117 # hex4 n @ t) = Inr (n, t)"
    using assms by (auto simp: scan_escape_def scan_unicode_def)
  then show ?thesis
    by (simp add: u_escape_def scan_string_escaped)
qed

lemma scan_surrogate_pair:
  assumes "65536 \<le> c" "c \<le> 1114111"
  shows "scan_string ((u_escape (55296 + (c - 65536) div 1024) @
      u_escape (56320 + (c - 65536) mod 1024)) @ t) = cons_fst c (scan_string t)"
proof -
  let ?h = "55296 + (c - 65536) div 1024" and ?l = "56320 + (c - 65536) mod 1024"
  have h: "55296 \<le> ?h" "?h \<le> 56319" using assms(2) by linarith+
  have l: "56320 \<le> ?l" "?l \<le> 57343"
    using mod_less_divisor [of 1024 "c - 65536"] by linarith+
  have "65536 + (?h - 55296) * 1024 + (?l - 56320) = c"
    using assms(1) by simp
  then have "scan_escape (117 # hex4 ?h @ 92 # 117 # hex4 ?l @ t) = Inr (c, t)"
    using h l by (simp add: scan_escape_def scan_unicode_def)
  then show ?thesis
    by (simp add: u_escape_def scan_string_escaped)
qed

lemma scan_escape_cp:
  assumes "valid_cp c"
  shows "scan_string (escape_cp c @ t) = cons_fst c (scan_string t)"
proof (cases "c < 65536 \<and> \<not> (32 \<le> c \<and> c \<le> 126)")
  case True
  then show ?thesis
    using assms scan_u_escape [of c t]
    by (auto simp: escape_cp_def valid_cp_def scan_string_escaped scan_escape_def simple_escape_def)
next
  case False
  then show ?thesis
    using assms scan_surrogate_pair [of c t] scan_string_plain [of c t]
    by (auto simp: escape_cp_def valid_cp_def scan_string_escaped scan_escape_def simple_escape_def)
qed

lemma scan_escape_raw:
  assumes "valid_cp c"
  shows "scan_string (escape_raw c @ t) = cons_fst c (scan_string t)"
  using assms scan_u_escape [of c t] scan_string_plain [of c t]
  by (auto simp: escape_raw_def valid_cp_def scan_string_escaped scan_escape_def simple_escape_def)

lemma scan_escape_char: "valid_cp c \<Longrightarrow> scan_string (escape_char ascii c @ t) = cons_fst c (scan_string t)"
  by (simp add: escape_char_def scan_escape_cp scan_escape_raw)

lemma scan_string_quote:
  "valid_str s \<Longrightarrow> scan_string (concat (map (escape_char ascii) s) @ 34 # r) = Inr (s, r)"
proof (induction s)
  case Nil
  then show ?case by (simp add: scan_string.simps)
next
  case (Cons c s)
  then show ?case
    by (simp add: valid_str_def scan_escape_char cons_fst_def)
qed

subsection \<open>Numbers\<close>

lemma hd_nat_digits: "0 < n \<Longrightarrow> hd (nat_digits n) \<noteq> 48"
proof (induction n rule: nat_digits.induct)
  case (1 n)
  show ?case
  proof (cases "n < 10")
    case True
    with 1 show ?thesis by (simp add: nat_digits.simps [of n])
  next
    case False
    with 1 show ?thesis by (simp add: nat_digits.simps [of n] hd_append)
  qed
qed

lemma nat_digits_is_digit: "\<forall>c \<in> set (nat_digits n). is_digit c"
  using set_nat_digits by (auto simp: is_digit_def)

lemma span_nat_digits:
  assumes "number_ends r"
  shows "takeWhile is_digit (nat_digits n @ r) = nat_digits n"
    and "dropWhile is_digit (nat_digits n @ r) = r"
proof -
  have r: "takeWhile is_digit r = []" "dropWhile is_digit r = r"
    using assms by (cases r; simp add: number_ends_def)+
  show "takeWhile is_digit (nat_digits n @ r) = nat_digits n"
    using nat_digits_is_digit [of n] by (simp add: takeWhile_append2 r)
  show "dropWhile is_digit (nat_digits n @ r) = r"
    using nat_digits_is_digit [of n] by (simp add: dropWhile_append2 r)
qed

lemma number_ends_scan:
  "number_ends r \<Longrightarrow> scan_fraction r = (None, r)" "number_ends r \<Longrightarrow> scan_exponent r = (None, r)"
  by (cases r; simp add: number_ends_def scan_fraction_def scan_exponent_def)+

lemma scan_nat_digits:
  assumes "number_ends r" "length (nat_digits n) \<le> 4300"
  shows "scan_number (nat_digits n @ r) = Some (Inr (JInt (int n), r))"
    and "scan_number (45 # nat_digits n @ r) = Some (Inr (JInt (- int n), r))"
proof -
  obtain c t where ct: "nat_digits n = c # t" by (cases "nat_digits n") auto
  have c: "is_digit c" using nat_digits_is_digit [of n] by (simp add: ct)
  then have c45: "c \<noteq> 45" by (auto simp: is_digit_def)
  have zero: "t = []" "n = 0" if "c = 48"
  proof -
    show "n = 0"
    proof (rule ccontr)
      assume "n \<noteq> 0"
      with hd_nat_digits [of n] that ct show False by simp
    qed
    then show "t = []" using ct by (simp add: nat_digits.simps)
  qed
  have span: "takeWhile is_digit (c # t @ r) = c # t" "dropWhile is_digit (c # t @ r) = r"
    using span_nat_digits [OF assms(1), of n] by (simp_all add: ct)
  have val: "digits_value 0 (c # t) = n"
    using digits_value_nat_digits [of n] by (simp only: ct)
  show "scan_number (nat_digits n @ r) = Some (Inr (JInt (int n), r))"
  proof (cases "c = 48")
    case True
    then have "nat_digits n = [48]" "n = 0" using zero ct by auto
    with assms show ?thesis
      by (simp add: scan_number_def number_ends_scan is_digit_def del: nat_digits_inject)
  next
    case False
    with assms(2) span val show ?thesis
      by (simp add: scan_number_def ct c c45 number_ends_scan [OF assms(1)] del: digits_value.simps)
  qed
  show "scan_number (45 # nat_digits n @ r) = Some (Inr (JInt (- int n), r))"
  proof (cases "c = 48")
    case True
    then have "nat_digits n = [48]" "n = 0" using zero ct by auto
    with assms show ?thesis
      by (simp add: scan_number_def number_ends_scan is_digit_def del: nat_digits_inject)
  next
    case False
    with assms(2) span val show ?thesis
      by (simp add: scan_number_def ct c c45 number_ends_scan [OF assms(1)] del: digits_value.simps)
  qed
qed

lemma scan_literal_number:
  "is_digit c \<Longrightarrow> scan_literal (c # t) = None"
  "starts_digit t \<Longrightarrow> scan_literal (45 # t) = None"
  by (auto simp: scan_literal_def str_def is_digit_def starts_digit_def split: list.splits)

subsection \<open>Values\<close>

text \<open>The first character of a printed value.\<close>

definition value_start :: "nat \<Rightarrow> bool" where
  "value_start c \<longleftrightarrow> is_digit c \<or> c \<in> {45, 34, 91, 123, 110, 116, 102, 73, 78}"

lemma value_startD: "value_start c \<Longrightarrow> \<not> json_ws c \<and> c \<noteq> 93 \<and> c \<noteq> 125"
  by (auto simp: value_start_def json_ws_def is_digit_def)

lemma dumps_start: "wf_json fr j \<Longrightarrow> \<exists>c t. dumps_with ascii isep ksep fr j = c # t \<and> value_start c"
proof (cases j)
  case (JInt i)
  obtain c t where "nat_digits (nat \<bar>i\<bar>) = c # t" by (cases "nat_digits (nat \<bar>i\<bar>)") auto
  moreover from this have "is_digit c" using nat_digits_is_digit [of "nat \<bar>i\<bar>"] by simp
  ultimately show ?thesis
    by (auto simp: JInt int_digits_def value_start_def)
next
  case (JFloat f)
  assume "wf_json fr j"
  with JFloat show ?thesis
    by (cases f) (auto simp: repr_ok_def value_start_def str_def neq_Nil_conv)
qed (auto simp: value_start_def str_def quote_with_def)

lemma number_ends_simps [simp]:
  "number_ends []" "number_ends (44 # r)" "number_ends (93 # r)" "number_ends (125 # r)"
  by (simp_all add: number_ends_def is_digit_def)


text \<open>A separator: the given character and white space.\<close>

definition separator :: "nat \<Rightarrow> pystr \<Rightarrow> bool" where
  "separator c sep \<longleftrightarrow> (\<exists>w. sep = c # w \<and> (\<forall>x \<in> set w. json_ws x))"

lemma skip_ws_append: "\<forall>x \<in> set w. json_ws x \<Longrightarrow> skip_ws (w @ s) = skip_ws s"
  by (induction w) auto

lemma skip_ws_start: "\<not> json_ws c \<Longrightarrow> skip_ws (c # s) = c # s"
  by simp

definition reads_back :: "bool \<Rightarrow> (rat \<Rightarrow> pystr) \<Rightarrow> pystr \<Rightarrow> pystr \<Rightarrow> pairs_hook \<Rightarrow> json \<Rightarrow> bool" where
  "reads_back ascii fr isep ksep h j \<longleftrightarrow>
     (\<forall>n r. number_ends r \<longrightarrow> 2 * length (dumps_with ascii isep ksep fr j @ r) < n \<longrightarrow>
        parse_value n h (dumps_with ascii isep ksep fr j @ r) = Inr (j, r))"

lemma parse_elements_dumps:
  assumes sep: "separator 44 isep"
    and "xs \<noteq> []" "\<forall>x \<in> set xs. wf_json fr x \<and> reads_back ascii fr isep ksep h x"
    and "2 * length (py_join isep (map (dumps_with ascii isep ksep fr) xs) @ 93 # r) + 1 < n"
  shows "parse_elements n h (py_join isep (map (dumps_with ascii isep ksep fr) xs) @ 93 # r) = Inr (xs, r)"
  using assms(2-)
proof (induction xs arbitrary: n)
  case Nil
  then show ?case by simp
next
  case (Cons x xs)
  obtain w where w: "isep = 44 # w" "\<forall>x \<in> set w. json_ws x"
    using sep by (auto simp: separator_def)
  obtain m where n: "n = Suc m" using Cons.prems(3) by (cases n) auto
  have ws: "\<not> json_ws 44" "\<not> json_ws 93" by (simp_all add: json_ws_def)
  show ?case
  proof (cases xs)
    case Nil
    have "parse_value m h (dumps_with ascii isep ksep fr x @ 93 # r) = Inr (x, 93 # r)"
      using Cons.prems n Nil by (simp add: reads_back_def)
    then show ?thesis by (simp add: n Nil ws)
  next
    case (Cons y ys)
    let ?rest = "py_join isep (map (dumps_with ascii isep ksep fr) xs) @ 93 # r"
    obtain c t where c: "dumps_with ascii isep ksep fr y = c # t" "value_start c"
      using Cons.prems(2) dumps_start Cons by (metis list.set_intros(1,2))
    then have rest: "?rest = c # tl ?rest"
      by (cases ys) (auto simp: Cons py_join_Cons)
    have "parse_value m h (dumps_with ascii isep ksep fr x @ 44 # w @ ?rest) = Inr (x, 44 # w @ ?rest)"
      using Cons.prems n w Cons by (simp add: reads_back_def)
    moreover have "skip_ws (w @ ?rest) = ?rest"
      using w(2) value_startD [OF c(2)] by (subst rest, subst (2) rest) (simp add: skip_ws_append)
    moreover have "parse_elements m h ?rest = Inr (xs, r)"
      by (rule Cons.IH) (use Cons.prems n w Cons in auto)
    moreover have "hd ?rest \<noteq> 93" "?rest \<noteq> []"
      using rest value_startD [OF c(2)] by (metis list.sel(1), simp)
    ultimately show ?thesis
      by (simp add: n Cons w ws del: dumps_with.simps)
  qed
qed

abbreviation member_text :: "bool \<Rightarrow> (rat \<Rightarrow> pystr) \<Rightarrow> pystr \<Rightarrow> pystr \<Rightarrow> pystr \<times> json \<Rightarrow> pystr" where
  "member_text ascii fr isep ksep p \<equiv> quote_with ascii (fst p) @ ksep @ dumps_with ascii isep ksep fr (snd p)"

lemma parse_members_dumps:
  assumes isep: "separator 44 isep" and ksep: "separator 58 ksep"
    and blank: "\<forall>x \<in> set e. json_ws x"
    and "kvs \<noteq> []"
    and "\<forall>p \<in> set kvs. valid_str (fst p) \<and> wf_json fr (snd p) \<and> reads_back ascii fr isep ksep h (snd p)"
    and "2 * length (py_join isep (map (member_text ascii fr isep ksep) kvs) @ e @ 125 # r) < n"
  shows "parse_members n h (py_join isep (map (member_text ascii fr isep ksep) kvs) @ e @ 125 # r) = Inr (kvs, r)"
  using assms(4-)
proof (induction kvs arbitrary: n)
  case Nil
  then show ?case by simp
next
  case (Cons p kvs)
  obtain w where w: "isep = 44 # w" "\<forall>x \<in> set w. json_ws x"
    using isep by (auto simp: separator_def)
  obtain z where z: "ksep = 58 # z" "\<forall>x \<in> set z. json_ws x"
    using ksep by (auto simp: separator_def)
  obtain k v where p: "p = (k, v)" by (cases p)
  obtain m where n: "n = Suc m" using Cons.prems(3) by (cases n) auto
  have ws: "\<not> json_ws 44" "\<not> json_ws 58" "\<not> json_ws 125" "\<not> json_ws 34" by (simp_all add: json_ws_def)
  have ends: "number_ends (e @ 125 # r)" and skip: "skip_ws (e @ 125 # r) = 125 # r"
    using blank ws(3) by (cases e; auto simp: number_ends_def skip_ws_append json_ws_def is_digit_def)+
  have k: "scan_string (concat (map (escape_char ascii) k) @ 34 # s) = Inr (k, s)" for s
    using Cons.prems(2) by (intro scan_string_quote) (simp add: p)
  obtain c t where c: "dumps_with ascii isep ksep fr v = c # t" "value_start c"
    using Cons.prems(2) dumps_start p by (metis list.set_intros(1) snd_conv)
  have zws: "skip_ws (z @ dumps_with ascii isep ksep fr v @ s) = dumps_with ascii isep ksep fr v @ s" for s
    using z(2) value_startD [OF c(2)] by (simp add: skip_ws_append c)
  have iw: "isep @ s = 44 # w @ s" for s
    by (simp add: w(1))
  have key: "ksep @ s = 58 # z @ s" for s
    by (simp add: z(1))
  show ?case
  proof (cases kvs)
    case Nil
    have "parse_value m h (dumps_with ascii isep ksep fr v @ e @ 125 # r) = Inr (v, e @ 125 # r)"
      using Cons.prems n Nil p ends by (simp add: reads_back_def quote_with_def)
    then show ?thesis by (simp add: n Nil p ws quote_with_def k key zws skip del: dumps_with.simps)
  next
    case kvs: (Cons q qs)
    define rest where "rest = py_join isep (map (member_text ascii fr isep ksep) kvs) @ e @ 125 # r"
    have printed: "py_join isep (map (member_text ascii fr isep ksep) (p # kvs)) @ e @ 125 # r
        = 34 # concat (map (escape_char ascii) k) @ 34 # 58 # z @ dumps_with ascii isep ksep fr v @ 44 # w @ rest"
      by (simp add: rest_def p kvs quote_with_def key iw)
    have start: "rest = 34 # tl rest"
      by (cases qs) (auto simp: rest_def kvs py_join_Cons quote_with_def)
    have "2 * length (dumps_with ascii isep ksep fr v @ 44 # w @ rest) < m" "2 * length rest < m"
      using Cons.prems(3) unfolding printed n by simp_all
    then have "parse_value m h (dumps_with ascii isep ksep fr v @ 44 # w @ rest) = Inr (v, 44 # w @ rest)"
      and ih: "parse_members m h rest = Inr (kvs, r)"
      using Cons.prems(2) kvs Cons.IH [of m] by (simp_all add: reads_back_def p rest_def)
    moreover have "skip_ws (w @ rest) = rest"
      using w(2) ws(4) by (subst start, subst (2) start) (simp add: skip_ws_append)
    moreover have "hd rest = 34 \<and> rest \<noteq> []"
      using start by (metis list.distinct(1) list.sel(1))
    ultimately show ?thesis
      unfolding printed by (simp add: n p ws k zws del: dumps_with.simps)
  qed
qed

lemma reads_back_all:
  assumes isep: "separator 44 isep" and ksep: "separator 58 ksep"
    and hook: "\<And>ps. distinct (map fst ps) \<Longrightarrow> h ps = Inr ps"
  shows "wf_json fr j \<Longrightarrow> reads_back ascii fr isep ksep h j"
proof (induction j)
  case (JBool b)
  have "parse_value n h (dumps_with ascii isep ksep fr (JBool b) @ r) = Inr (JBool b, r)" if "0 < n" for n r
    using that by (cases n; cases b) (auto simp: str_def scan_literal_def)
  then show ?case by (simp add: reads_back_def)
next
  case (JInt i)
  obtain c t where ct: "nat_digits (nat \<bar>i\<bar>) = c # t" by (cases "nat_digits (nat \<bar>i\<bar>)") auto
  have c: "is_digit c" using nat_digits_is_digit [of "nat \<bar>i\<bar>"] by (simp add: ct)
  then have hd: "c \<noteq> 34" "c \<noteq> 123" "c \<noteq> 91" by (auto simp: is_digit_def)
  have lit: "scan_literal (c # s) = None" "scan_literal (45 # c # s) = None" for s
    using c by (simp_all add: scan_literal_number starts_digit_def)
  have printed: "int_digits i = (if i < 0 then 45 # c # t else c # t)"
    using ct by (simp add: int_digits_def abs_if split: if_splits)
  have "parse_value n h (int_digits i @ r) = Inr (JInt i, r)" if "number_ends r" "0 < n" for n r
    using that JInt.prems scan_nat_digits [of r "nat \<bar>i\<bar>"] hd lit
    unfolding printed ct wf_json.simps by (cases n) auto
  then show ?case by (simp add: reads_back_def)
next
  case (JFloat f)
  have lit: "scan_literal (fr x @ r) = None" if "repr_ok fr x" for x r
    using that by (cases "fr x"; cases "tl (fr x)")
      (auto simp: repr_ok_def scan_literal_number starts_digit_def)
  have hd: "fr x \<noteq> []" "hd (fr x) \<noteq> 34" "hd (fr x) \<noteq> 123" "hd (fr x) \<noteq> 91" if "repr_ok fr x" for x
    using that by (auto simp: repr_ok_def is_digit_def)
  show ?case
  proof (cases f)
    case (Fin x)
    with JFloat have ok: "repr_ok fr x" by simp
    have "parse_value n h (fr x @ r) = Inr (JFloat (Fin x), r)" if "number_ends r" "0 < n" for n r
      using that ok hd [OF ok] lit [OF ok] by (cases n) (auto simp: repr_ok_def)
    then show ?thesis by (simp add: reads_back_def Fin)
  qed (auto simp: reads_back_def str_def scan_literal_def gr0_conv_Suc dest!: less_imp_Suc_add)
next
  case (JStr s)
  then show ?case
    by (auto simp: reads_back_def quote_with_def scan_string_quote dest!: less_imp_Suc_add)
next
  case (JArr xs)
  show ?case
  proof (cases "xs = []")
    case True
    then show ?thesis
      by (auto simp: reads_back_def json_ws_def dest!: less_imp_Suc_add)
  next
    case False
    have ok: "\<forall>x \<in> set xs. wf_json fr x \<and> reads_back ascii fr isep ksep h x"
      using JArr by auto
    obtain c t where c: "py_join isep (map (dumps_with ascii isep ksep fr) xs) = c # t" "value_start c"
      using False ok dumps_start [of fr "hd xs" ascii isep ksep]
      by (cases xs; cases "tl xs") auto
    show ?thesis
      unfolding reads_back_def
    proof (intro allI impI)
      fix n r
      assume "2 * length (dumps_with ascii isep ksep fr (JArr xs) @ r) < n"
      moreover from this obtain m where n: "n = Suc m" by (cases n) auto
      ultimately have "parse_elements m h (py_join isep (map (dumps_with ascii isep ksep fr) xs) @ 93 # r)
          = Inr (xs, r)"
        by (intro parse_elements_dumps [OF isep False ok]) simp
      then show "parse_value n h (dumps_with ascii isep ksep fr (JArr xs) @ r) = Inr (JArr xs, r)"
        using value_startD [OF c(2)] by (simp add: n c)
    qed
  qed
next
  case (JObj kvs)
  show ?case
  proof (cases "kvs = []")
    case True
    then show ?thesis
      using hook [of "[]"] by (auto simp: reads_back_def json_ws_def dest!: less_imp_Suc_add)
  next
    case False
    have ok: "\<forall>p \<in> set kvs. valid_str (fst p) \<and> wf_json fr (snd p) \<and> reads_back ascii fr isep ksep h (snd p)"
      using JObj by fastforce
    have printed: "dumps_with ascii isep ksep fr (JObj kvs)
        = 123 # py_join isep (map (member_text ascii fr isep ksep) kvs) @ [125]"
      by (simp add: case_prod_beta comp_def)
    obtain t where c: "py_join isep (map (member_text ascii fr isep ksep) kvs) = 34 # t"
      using False by (cases kvs; cases "tl kvs") (auto simp: quote_with_def)
    show ?thesis
      unfolding reads_back_def
    proof (intro allI impI)
      fix n r
      assume "2 * length (dumps_with ascii isep ksep fr (JObj kvs) @ r) < n"
      moreover from this obtain m where n: "n = Suc m" by (cases n) auto
      ultimately have "parse_members m h (py_join isep (map (member_text ascii fr isep ksep) kvs) @ 125 # r)
          = Inr (kvs, r)"
        unfolding printed by (intro parse_members_dumps [OF isep ksep _ False ok, of "[]", simplified]) simp
      then show "parse_value n h (dumps_with ascii isep ksep fr (JObj kvs) @ r) = Inr (JObj kvs, r)"
        using hook [of kvs] JObj.prems unfolding printed by (simp add: n c json_ws_def)
    qed
  qed
qed (auto simp: reads_back_def str_def scan_literal_def dest!: less_imp_Suc_add)

theorem loads_with_dumps:
  assumes "separator 44 isep" "separator 58 ksep" "wf_json fr j"
    and hook: "\<And>ps. distinct (map fst ps) \<Longrightarrow> h ps = Inr ps"
  shows "json_loads_with h (dumps_with ascii isep ksep fr j) = Inr j"
proof -
  obtain c t where c: "dumps_with ascii isep ksep fr j = c # t" "value_start c"
    using dumps_start [OF assms(3)] by blast
  have "c \<noteq> 65279" using c(2) by (auto simp: value_start_def is_digit_def)
  moreover have "skip_ws (dumps_with ascii isep ksep fr j) = dumps_with ascii isep ksep fr j"
    using value_startD [OF c(2)] by (simp add: c)
  moreover have "parse_value (2 * length (dumps_with ascii isep ksep fr j) + 2) h (dumps_with ascii isep ksep fr j) = Inr (j, [])"
    using reads_back_all [OF assms(1,2) hook assms(3)] unfolding reads_back_def
    by (metis (no_types, lifting) append_Nil2 less_add_same_cancel1 number_ends_simps(1) zero_less_numeral)
  ultimately show ?thesis
    by (simp add: json_loads_with_def c del: parse_value.simps)
qed

corollary loads_dumps:
  "separator 44 isep \<Longrightarrow> separator 58 ksep \<Longrightarrow> wf_json fr j \<Longrightarrow>
     json_loads (dumps_with ascii isep ksep fr j) = Inr j"
  unfolding json_loads_def by (rule loads_with_dumps) (auto simp: dict_of_distinct)

lemma valid_str_str [simp]: "valid_str (str s)"
  using str_less_256 by (fastforce simp: valid_str_def valid_cp_def)

lemma valid_str_Cons [simp]: "valid_str (c # s) \<longleftrightarrow> valid_cp c \<and> valid_str s"
  and valid_str_append [simp]: "valid_str (s @ t) \<longleftrightarrow> valid_str s \<and> valid_str t"
  by (auto simp: valid_str_def)

end
