(* ===== verification/PyBytes.thy ===== *)
theory PyBytes
  imports PyJson_Roundtrip
begin

text \<open>
  Bytes and text: UTF-8 as CPython encodes and decodes it (strictly, with \<open>surrogatepass\<close>
  and with \<open>errors="replace"\<close>), the encoding detection of \<open>json.loads(bytes)\<close>, and the
  bytes a service sends for a JSON value. The round trip of a value through bytes rests on
  \<open>PyJson_Roundtrip\<close>.
\<close>

section \<open>UTF-8\<close>

definition is_cont :: "nat \<Rightarrow> bool" where
  "is_cont b \<longleftrightarrow> 128 \<le> b \<and> b < 192"

text \<open>
  A lead byte: how many bytes follow, and the range of the first of them (which excludes
  overlong forms, surrogates unless \<open>sp\<close>, and code points above U+10FFFF).
\<close>

definition utf8_lead :: "bool \<Rightarrow> nat \<Rightarrow> (nat \<times> nat \<times> nat) option" where
  "utf8_lead sp b =
     (if 194 \<le> b \<and> b \<le> 223 then Some (1, 128, 191)
      else if b = 224 then Some (2, 160, 191)
      else if b = 237 then Some (2, 128, if sp then 191 else 159)
      else if 225 \<le> b \<and> b \<le> 239 then Some (2, 128, 191)
      else if b = 240 then Some (3, 144, 191)
      else if b = 244 then Some (3, 128, 143)
      else if 241 \<le> b \<and> b \<le> 243 then Some (3, 128, 191)
      else None)"

text \<open>The bits a lead byte with \<open>n\<close> followers contributes.\<close>

definition lead_bits :: "nat \<Rightarrow> nat \<Rightarrow> nat" where
  "lead_bits n b = (if n = 1 then b - 192 else if n = 2 then b - 224 else b - 240)"

fun cont_value :: "nat \<Rightarrow> bytes \<Rightarrow> nat" where
  "cont_value acc [] = acc"
| "cont_value acc (b # bs) = cont_value (64 * acc + (b - 128)) bs"

text \<open>
  One code point at the head of the bytes: \<open>Inr\<close> it and its length, or \<open>Inl\<close> the length of
  the maximal ill-formed part.
\<close>

definition utf8_step :: "bool \<Rightarrow> nat \<Rightarrow> bytes \<Rightarrow> nat + (nat \<times> nat)" where
  "utf8_step sp b rest =
     (if b < 128 then Inr (b, 1)
      else
        (case utf8_lead sp b of
           None \<Rightarrow> Inl 1
         | Some (need, lo, hi) \<Rightarrow>
             (case rest of
                [] \<Rightarrow> Inl 1
              | c # cs \<Rightarrow>
                  if \<not> (lo \<le> c \<and> c \<le> hi) then Inl 1
                  else
                    (let more = takeWhile is_cont (take (need - 1) cs)
                     in if length more = need - 1
                        then Inr (cont_value (lead_bits need b) (c # more), need + 1)
                        else Inl (2 + length more)))))"

lemma utf8_step_Inr_pos: "utf8_step sp b rest = Inr (c, n) \<Longrightarrow> 0 < n"
  by (auto simp: utf8_step_def Let_def split: if_splits option.splits list.splits prod.splits)

lemma utf8_step_Inl_pos: "utf8_step sp b rest = Inl n \<Longrightarrow> 0 < n"
  by (auto simp: utf8_step_def Let_def split: if_splits option.splits list.splits prod.splits)

text \<open>\<open>bytes.decode("utf-8")\<close>; \<open>None\<close> is a \<open>UnicodeDecodeError\<close>.\<close>

function utf8_decode :: "bool \<Rightarrow> bytes \<Rightarrow> pystr option" where
  "utf8_decode sp [] = Some []"
| "utf8_decode sp (b # bs) =
     (case utf8_step sp b bs of
        Inl n \<Rightarrow> None
      | Inr (c, n) \<Rightarrow> map_option ((#) c) (utf8_decode sp (drop (n - 1) bs)))"
  by pat_completeness auto
termination
  by (relation "measure (\<lambda>(sp, bs). length bs)") auto

declare utf8_decode.simps [simp del]

text \<open>\<open>bytes.decode("utf-8", errors="replace")\<close>: U+FFFD for each ill-formed part.\<close>

function utf8_replace :: "bytes \<Rightarrow> pystr" where
  "utf8_replace [] = []"
| "utf8_replace (b # bs) =
     (case utf8_step False b bs of
        Inl n \<Rightarrow> 65533 # utf8_replace (drop (n - 1) bs)
      | Inr (c, n) \<Rightarrow> c # utf8_replace (drop (n - 1) bs))"
  by pat_completeness auto
termination
  by (relation "measure length") auto

declare utf8_replace.simps [simp del]

text \<open>\<open>str.encode("utf-8")\<close> of a string without surrogates.\<close>

definition utf8_cp :: "nat \<Rightarrow> bytes" where
  "utf8_cp c =
     (if c < 128 then [c]
      else if c < 2048 then [192 + c div 64, 128 + c mod 64]
      else if c < 65536 then [224 + c div 4096, 128 + c div 64 mod 64, 128 + c mod 64]
      else [240 + c div 262144, 128 + c div 4096 mod 64, 128 + c div 64 mod 64, 128 + c mod 64])"

definition utf8_encode :: "pystr \<Rightarrow> bytes" where
  "utf8_encode s = concat (map utf8_cp s)"

lemma utf8_encode_simps [simp]:
  "utf8_encode [] = []"
  "utf8_encode (c # s) = utf8_cp c @ utf8_encode s"
  by (auto simp: utf8_encode_def)

lemma utf8_encode_append: "utf8_encode (s @ t) = utf8_encode s @ utf8_encode t"
  by (simp add: utf8_encode_def)

lemma utf8_encode_ascii: "\<forall>c \<in> set s. c < 128 \<Longrightarrow> utf8_encode s = s"
  by (induction s) (auto simp: utf8_cp_def)

lemma utf8_decode_ascii: "\<forall>c \<in> set s. c < 128 \<Longrightarrow> utf8_decode sp s = Some s"
  by (induction s) (auto simp: utf8_decode.simps utf8_step_def)

lemma base64_split: "(c :: nat) = 64 * (c div 64) + c mod 64" "c mod 64 < 64"
  by auto

lemma utf8_step_3:
  assumes "c = 4096 * a + 64 * m + l" "m < 64" "l < 64" "2048 \<le> c" "c < 65536"
    "\<not> (55296 \<le> c \<and> c \<le> 57343)"
  shows "utf8_step sp (224 + a) ((128 + m) # (128 + l) # t) = Inr (c, 3)"
proof -
  have "a \<le> 15" using assms by linarith
  moreover have "32 \<le> m" if "a = 0" using assms that by linarith
  moreover have "m < 32" if "a = 13"
    using assms that by linarith
  ultimately show ?thesis
    using assms by (auto simp: utf8_step_def utf8_lead_def lead_bits_def is_cont_def)
qed

lemma utf8_step_4:
  assumes "c = 262144 * a + 4096 * k + 64 * m + l" "k < 64" "m < 64" "l < 64" "65536 \<le> c" "c < 1114112"
  shows "utf8_step sp (240 + a) ((128 + k) # (128 + m) # (128 + l) # t) = Inr (c, 4)"
proof -
  have "a \<le> 4" using assms by linarith
  moreover have "16 \<le> k" if "a = 0" using assms that by linarith
  moreover have "k < 16" if "a = 4"
    using assms that by linarith
  ultimately show ?thesis
    using assms by (auto simp: utf8_step_def utf8_lead_def lead_bits_def is_cont_def)
qed

lemma utf8_step_cp:
  assumes "valid_cp c"
  shows "\<exists>b bs. utf8_cp c = b # bs \<and> (\<forall>t. utf8_step sp b (bs @ t) = Inr (c, Suc (length bs)))"
proof -
  have c: "c < 1114112" "\<not> (55296 \<le> c \<and> c \<le> 57343)"
    using assms by (auto simp: valid_cp_def)
  define x where "x = c div 64"
  define y where "y = x div 64"
  have xy: "c div 4096 = y" "c div 262144 = y div 64"
    by (simp_all add: x_def y_def div_mult2_eq [symmetric])
  have cx: "c = 64 * x + c mod 64" "x = 64 * y + x mod 64" "y = 64 * (y div 64) + y mod 64"
    by (simp_all add: x_def y_def)
  have md: "c mod 64 < 64" "x mod 64 < 64" "y mod 64 < 64"
    by simp_all
  consider "c < 128" | "128 \<le> c" "c < 2048" | "2048 \<le> c" "c < 65536" | "65536 \<le> c"
    by linarith
  then show ?thesis
  proof cases
    case 1
    then show ?thesis by (simp add: utf8_cp_def utf8_step_def)
  next
    case 2
    have "2 \<le> x" "x \<le> 31" using 2 cx md by linarith+
    then have "utf8_lead sp (192 + x) = Some (1, 128, 191)"
      by (simp add: utf8_lead_def)
    then show ?thesis
      using 2 cx(1) md(1) by (simp add: utf8_cp_def utf8_step_def lead_bits_def x_def [symmetric])
  next
    case 3
    have "c = 4096 * y + 64 * (x mod 64) + c mod 64" using cx by linarith
    from utf8_step_3 [OF this md(2) md(1) 3 c(2)] show ?thesis
      using 3 by (simp add: utf8_cp_def xy x_def [symmetric])
  next
    case 4
    have "c = 262144 * (y div 64) + 4096 * (y mod 64) + 64 * (x mod 64) + c mod 64" using cx by linarith
    from utf8_step_4 [OF this md(3,2,1) 4 c(1)] show ?thesis
      using 4 by (simp add: utf8_cp_def xy x_def [symmetric])
  qed
qed

theorem utf8_round_trip: "valid_str s \<Longrightarrow> utf8_decode sp (utf8_encode s @ t) = map_option ((@) s) (utf8_decode sp t)"
proof (induction s)
  case Nil
  then show ?case by (simp add: option.map_id0 [unfolded id_def] option.map_ident)
next
  case (Cons c s)
  then obtain b bs where b: "utf8_cp c = b # bs"
      "\<And>u. utf8_step sp b (bs @ u) = Inr (c, Suc (length bs))"
    using utf8_step_cp [of c sp] by (auto simp: valid_str_def)
  from Cons have "utf8_decode sp (utf8_encode s @ t) = map_option ((@) s) (utf8_decode sp t)"
    by (simp add: valid_str_def)
  then show ?case
    by (simp add: b utf8_decode.simps option.map_comp comp_def)
qed

corollary utf8_decode_encode: "valid_str s \<Longrightarrow> utf8_decode sp (utf8_encode s) = Some s"
  using utf8_round_trip [of s sp "[]"] by (simp add: utf8_decode.simps)

corollary utf8_encode_inject:
  "valid_str s \<Longrightarrow> valid_str t \<Longrightarrow> utf8_encode s = utf8_encode t \<longleftrightarrow> s = t"
  by (metis utf8_decode_encode option.inject)

section \<open>\<open>json.loads\<close> of bytes\<close>

datatype encoding = Utf8 | Utf8Sig | Utf16 bool | Utf32 bool  \<comment> \<open>\<open>True\<close>: big endian\<close>

text \<open>\<open>json.detect_encoding\<close>, with the bytes that remain to be decoded.\<close>

definition detect_encoding :: "bytes \<Rightarrow> encoding \<times> bytes" where
  "detect_encoding b =
     (if prefix [0, 0, 254, 255] b then (Utf32 True, drop 4 b)
      else if prefix [255, 254, 0, 0] b then (Utf32 False, drop 4 b)
      else if prefix [254, 255] b then (Utf16 True, drop 2 b)
      else if prefix [255, 254] b then (Utf16 False, drop 2 b)
      else if prefix [239, 187, 191] b then (Utf8Sig, drop 3 b)
      else if 4 \<le> length b \<and> b ! 0 = 0 then ((if b ! 1 \<noteq> 0 then Utf16 True else Utf32 True), b)
      else if 4 \<le> length b \<and> b ! 1 = 0
        then ((if b ! 2 \<noteq> 0 \<or> b ! 3 \<noteq> 0 then Utf16 False else Utf32 False), b)
      else if length b = 2 \<and> b ! 0 = 0 then (Utf16 True, b)
      else if length b = 2 \<and> b ! 1 = 0 then (Utf16 False, b)
      else (Utf8, b))"

definition unit2 :: "bool \<Rightarrow> nat \<Rightarrow> nat \<Rightarrow> nat" where
  "unit2 be a b = (if be then 256 * a + b else 256 * b + a)"

fun utf16_units :: "bool \<Rightarrow> bytes \<Rightarrow> nat list option" where
  "utf16_units be [] = Some []"
| "utf16_units be [a] = None"
| "utf16_units be (a # b # bs) = map_option ((#) (unit2 be a b)) (utf16_units be bs)"

text \<open>Surrogate pairs are joined; with \<open>surrogatepass\<close> a lone surrogate is kept.\<close>

fun utf16_pairs :: "nat list \<Rightarrow> pystr" where
  "utf16_pairs (h # l # us) =
     (if 55296 \<le> h \<and> h \<le> 56319 \<and> 56320 \<le> l \<and> l \<le> 57343
      then (65536 + (h - 55296) * 1024 + (l - 56320)) # utf16_pairs us
      else h # utf16_pairs (l # us))"
| "utf16_pairs us = us"

fun utf32_units :: "bool \<Rightarrow> bytes \<Rightarrow> pystr option" where
  "utf32_units be [] = Some []"
| "utf32_units be (a # b # c # d # bs) =
     (let u = (if be then ((a * 256 + b) * 256 + c) * 256 + d else ((d * 256 + c) * 256 + b) * 256 + a)
      in if u < 1114112 then map_option ((#) u) (utf32_units be bs) else None)"
| "utf32_units be bs = None"

text \<open>\<open>body.decode(detect_encoding(body), "surrogatepass")\<close>.\<close>

definition json_decode :: "bytes \<Rightarrow> pystr option" where
  "json_decode b =
     (case detect_encoding b of
        (Utf8, r) \<Rightarrow> utf8_decode True r
      | (Utf8Sig, r) \<Rightarrow> utf8_decode True r
      | (Utf16 be, r) \<Rightarrow> map_option utf16_pairs (utf16_units be r)
      | (Utf32 be, r) \<Rightarrow> utf32_units be r)"

text \<open>Bytes as \<open>json.loads\<close> reads them.\<close>

definition loads_bytes_with :: "pairs_hook \<Rightarrow> bytes \<Rightarrow> json_error + json" where
  "loads_bytes_with h = json_loads_bytes_with h json_decode"

definition loads_bytes :: "bytes \<Rightarrow> json_error + json" where
  "loads_bytes = json_loads_bytes json_decode"

lemma loads_bytes_eq: "loads_bytes = loads_bytes_with (\<lambda>ps. Inr (dict_of ps))"
  by (simp add: loads_bytes_def loads_bytes_with_def json_loads_bytes_def fun_eq_iff)

lemma detect_printable:
  assumes "printable_ascii s"
  shows "detect_encoding s = (Utf8, s)"
proof -
  have nz: "s ! i \<noteq> 0" if "i < length s" for i
    using assms nth_mem [OF that] by (force simp: printable_ascii_def)
  show ?thesis
  proof (cases s)
    case Nil
    then show ?thesis by (simp add: detect_encoding_def)
  next
    case (Cons a t)
    then have "32 \<le> a" "a \<le> 126" using assms by auto
    then have *: "\<not> prefix (b # u) s" if "b < 32 \<or> 126 < b" for b u
      using that Cons by auto
    have "s ! 0 \<noteq> 0" "2 \<le> length s \<Longrightarrow> s ! 1 \<noteq> 0" "4 \<le> length s \<Longrightarrow> s ! 1 \<noteq> 0"
      using nz [of 0] nz [of 1] Cons by (cases t; force)+
    then show ?thesis
      using * by (auto simp: detect_encoding_def)
  qed
qed

lemma json_decode_printable: "printable_ascii s \<Longrightarrow> json_decode s = Some s"
  by (auto simp: json_decode_def detect_printable printable_ascii_def intro!: utf8_decode_ascii)

text \<open>The bytes of \<open>json.dumps(v).encode()\<close>, read again by any client's \<open>json.loads\<close>.\<close>

definition dumps_bytes :: "(rat \<Rightarrow> pystr) \<Rightarrow> json \<Rightarrow> bytes" where
  "dumps_bytes fr v = utf8_encode (dumps_default fr v)"

lemma dumps_bytes_eq:
  "(\<And>x. printable_ascii (fr x)) \<Longrightarrow> dumps_bytes fr v = dumps_default fr v"
  using printable_dumps [of "[44, 32]" "[58, 32]" fr v]
  by (auto simp: dumps_bytes_def printable_ascii_def intro!: utf8_encode_ascii)

theorem loads_dumps_bytes:
  assumes "\<And>x. printable_ascii (fr x)" "wf_json fr v"
    and "\<And>ps. distinct (map fst ps) \<Longrightarrow> h ps = Inr ps"
  shows "loads_bytes_with h (dumps_bytes fr v) = Inr v"
proof -
  have "printable_ascii (dumps_default fr v)"
    using assms(1) by (intro printable_dumps) auto
  moreover have "json_loads_with h (dumps_default fr v) = Inr v"
    using assms by (intro loads_with_dumps) (auto simp: separator_def json_ws_def)
  ultimately show ?thesis
    by (simp add: loads_bytes_with_def json_loads_bytes_with_def dumps_bytes_eq [OF assms(1)]
        json_decode_printable)
qed

end
