(* ===== verification/Unicode.thy ===== *)
theory Unicode
  imports PyBytes
begin

text \<open>
  The Unicode character database as the sources use it (\<open>unicodedata.category\<close>,
  \<open>unicodedata.normalize\<close>, \<open>str.casefold\<close>, \<open>str.isprintable\<close>), a record of functions
  the definitions take as an argument. What the proofs rely on is how the database treats
  ASCII (\<open>unicode_ascii\<close>). \<open>small_db\<close> is a concrete fragment of the database, enough
  for the look-alikes the gateway's documentation names; examples are evaluated on it.
\<close>

record unicode_db =
  ucd_category :: "nat \<Rightarrow> string"
  ucd_nfkc :: "pystr \<Rightarrow> pystr"
  ucd_nfd :: "pystr \<Rightarrow> pystr"
  ucd_nfc :: "pystr \<Rightarrow> pystr"
  ucd_casefold :: "pystr \<Rightarrow> pystr"
  ucd_printable :: "nat \<Rightarrow> bool"

definition ascii_str :: "pystr \<Rightarrow> bool" where
  "ascii_str s \<longleftrightarrow> (\<forall>c \<in> set s. c < 128)"

text \<open>The general category of the ASCII characters, by block.\<close>

definition ascii_category :: "nat \<Rightarrow> string" where
  "ascii_category c =
     (if c < 32 \<or> c = 127 then ''Cc'' else if c = 32 then ''Zs''
      else if 48 \<le> c \<and> c \<le> 57 then ''Nd'' else if 65 \<le> c \<and> c \<le> 90 then ''Lu''
      else if 97 \<le> c \<and> c \<le> 122 then ''Ll'' else if c = 95 then ''Pc''
      else if c = 45 then ''Pd'' else if c = 36 then ''Sc''
      else if c = 40 \<or> c = 91 \<or> c = 123 then ''Ps''
      else if c = 41 \<or> c = 93 \<or> c = 125 then ''Pe''
      else if c = 94 \<or> c = 96 then ''Sk''
      else if c = 43 \<or> c = 60 \<or> c = 61 \<or> c = 62 \<or> c = 124 \<or> c = 126 then ''Sm'' else ''Po'')"

text \<open>What every version of the database says of ASCII text.\<close>

definition unicode_ascii :: "unicode_db \<Rightarrow> bool" where
  "unicode_ascii db \<longleftrightarrow>
     (\<forall>c < 128. ucd_category db c = ascii_category c) \<and>
     (\<forall>s. ascii_str s \<longrightarrow>
        ucd_nfkc db s = s \<and> ucd_nfd db s = s \<and> ucd_nfc db s = s \<and> ucd_casefold db s = py_lower s)"

lemma ascii_str_simps [simp]:
  "ascii_str []"
  "ascii_str (c # s) \<longleftrightarrow> c < 128 \<and> ascii_str s"
  "ascii_str (s @ t) \<longleftrightarrow> ascii_str s \<and> ascii_str t"
  by (auto simp: ascii_str_def)

lemma ascii_str_lower [simp]: "ascii_str s \<Longrightarrow> ascii_str (py_lower s)"
  by (auto simp: ascii_str_def py_lower_def lower_cp_def)

lemma ascii_str_filter [simp]: "ascii_str s \<Longrightarrow> ascii_str (filter p s)"
  by (auto simp: ascii_str_def)

lemma unicode_asciiD:
  assumes "unicode_ascii db" "ascii_str s"
  shows "ucd_nfkc db s = s" "ucd_nfd db s = s" "ucd_nfc db s = s" "ucd_casefold db s = py_lower s"
  using assms by (auto simp: unicode_ascii_def)

lemma unicode_ascii_category: "unicode_ascii db \<Longrightarrow> c < 128 \<Longrightarrow> ucd_category db c = ascii_category c"
  by (simp add: unicode_ascii_def)

section \<open>\<open>repr\<close> of a string\<close>

definition hex8 :: "nat \<Rightarrow> pystr" where
  "hex8 n = hex4 (n div 65536) @ hex4 (n mod 65536)"

definition repr_cp :: "unicode_db \<Rightarrow> nat \<Rightarrow> nat \<Rightarrow> pystr" where
  "repr_cp db q c =
     (if c = q \<or> c = 92 then [92, c]
      else if c = 9 then [92, 116] else if c = 10 then [92, 110] else if c = 13 then [92, 114]
      else if c < 32 \<or> c = 127 then [92, 120, hex_digit (c div 16), hex_digit (c mod 16)]
      else if c < 127 \<or> ucd_printable db c then [c]
      else if c < 256 then [92, 120, hex_digit (c div 16), hex_digit (c mod 16)]
      else if c < 65536 then 92 # 117 # hex4 c
      else 92 # 85 # hex8 c)"

text \<open>The quote is an apostrophe unless the text holds one and no double quote.\<close>

definition py_repr :: "unicode_db \<Rightarrow> pystr \<Rightarrow> pystr" where
  "py_repr db s =
     (let q = (if 39 \<in> set s \<and> 34 \<notin> set s then 34 else 39)
      in q # concat (map (repr_cp db q) s) @ [q])"

section \<open>A concrete fragment of the database\<close>

text \<open>
  ASCII, the Latin letters with a diaeresis or acute accent the examples use, the combining
  marks U+0300 to U+036F, the zero-width characters, the byte order mark, the soft hyphen, and
  the full-width forms U+FF01 to U+FF5E.
\<close>

definition small_category :: "nat \<Rightarrow> string" where
  "small_category c =
     (if c < 128 then ascii_category c
      else if c < 160 then ''Cc'' else if c = 160 then ''Zs''
      else if 768 \<le> c \<and> c \<le> 879 then ''Mn''
      else if c = 173 \<or> 8203 \<le> c \<and> c \<le> 8207 \<or> c = 8288 \<or> c = 65279 then ''Cf''
      else if c = 8232 then ''Zl'' else if c = 8233 then ''Zp'' else ''Lo'')"

definition small_nfkc_cp :: "nat \<Rightarrow> pystr" where
  "small_nfkc_cp c =
     (if 65281 \<le> c \<and> c \<le> 65374 then [c - 65248] else if c = 160 then [32] else [c])"

definition small_nfd_cp :: "nat \<Rightarrow> pystr" where
  "small_nfd_cp c =
     (if c = 225 then [97, 769] else if c = 228 then [97, 776] else if c = 237 then [105, 769] else [c])"

definition small_casefold_cp :: "nat \<Rightarrow> pystr" where
  "small_casefold_cp c =
     (if c = 304 then [105, 775] else if c = 223 then [115, 115] else [lower_cp c])"

definition small_db :: unicode_db where
  "small_db =
     \<lparr>ucd_category = small_category,
      ucd_nfkc = (\<lambda>s. concat (map small_nfkc_cp s)),
      ucd_nfd = (\<lambda>s. concat (map small_nfd_cp s)),
      ucd_nfc = (\<lambda>s. s),
      ucd_casefold = (\<lambda>s. concat (map small_casefold_cp s)),
      ucd_printable = (\<lambda>c. small_category c = ''Lo'')\<rparr>"

lemma small_db_ascii: "unicode_ascii small_db"
proof -
  have "concat (map small_nfkc_cp s) = s" "concat (map small_nfd_cp s) = s"
      "concat (map small_casefold_cp s) = py_lower s" if "ascii_str s" for s
    using that by (induction s)
      (auto simp: small_nfkc_cp_def small_nfd_cp_def small_casefold_cp_def py_lower_def)
  then show ?thesis
    by (auto simp: unicode_ascii_def small_db_def small_category_def)
qed

end
