(* ===== verification/Gw_Jsonrpc.thy ===== *)
theory Gw_Jsonrpc
  imports Unicode
begin

text \<open>
  \<open>mcp_gateway/jsonrpc.py\<close>: the messages of a JSON-RPC payload, the refusal of objects with
  a repeated key, the validation of one message and of a body, and the error objects.

  A body is refused with an error to return (\<open>InvalidPayload\<close>) or raises an exception the
  function does not handle (\<open>Unhandled\<close>).
\<close>

section \<open>Error codes and objects\<close>

definition PARSE_ERROR :: int where "PARSE_ERROR = -32700"
definition INVALID_REQUEST :: int where "INVALID_REQUEST = -32600"
definition METHOD_NOT_FOUND :: int where "METHOD_NOT_FOUND = -32601"
definition INVALID_PARAMS :: int where "INVALID_PARAMS = -32602"
definition INTERNAL_ERROR :: int where "INTERNAL_ERROR = -32603"
definition UNAUTHORIZED_TOOL_CALL :: int where "UNAUTHORIZED_TOOL_CALL = -32001"
definition UPSTREAM_UNAVAILABLE :: int where "UPSTREAM_UNAVAILABLE = -32002"

lemmas rpc_codes = PARSE_ERROR_def INVALID_REQUEST_def METHOD_NOT_FOUND_def INVALID_PARAMS_def
  INTERNAL_ERROR_def UNAUTHORIZED_TOOL_CALL_def UPSTREAM_UNAVAILABLE_def

text \<open>\<open>error_response(code, message, id, data)\<close>; \<open>data\<close> is left out when \<open>None\<close>.\<close>

definition error_response :: "int \<Rightarrow> pystr \<Rightarrow> json \<Rightarrow> json option \<Rightarrow> json" where
  "error_response code message i data =
     JObj [(str ''jsonrpc'', JStr (str ''2.0'')), (str ''id'', i),
       (str ''error'', JObj ([(str ''code'', JInt code), (str ''message'', JStr message)]
          @ (case data of None \<Rightarrow> [] | Some d \<Rightarrow> [(str ''data'', d)])))]"

section \<open>Messages\<close>

record rpc_message =
  rm_method :: pystr
  rm_params :: json
  rm_id :: json
  rm_is_request :: bool
  rm_raw :: jobject

fun tool_name :: "rpc_message \<Rightarrow> pystr option" where
  "tool_name m = (case rm_params m of JObj p \<Rightarrow> as_str (jget (str ''name'') p) | _ \<Rightarrow> None)"

section \<open>Duplicate keys\<close>

fun reject_loop :: "jobject \<Rightarrow> jobject \<Rightarrow> json_error + jobject" where
  "reject_loop seen [] = Inr seen"
| "reject_loop seen ((k, v) # ps) =
     (if has_key k seen then Inl (DuplicateKey k) else reject_loop (AList.update k v seen) ps)"

definition reject_duplicate_keys :: pairs_hook where
  "reject_duplicate_keys ps = reject_loop [] ps"

lemma has_key_iff: "has_key k d \<longleftrightarrow> k \<in> fst ` set d"
  by (simp add: has_key_def map_of_eq_None_iff)

lemma reject_loop_Inr:
  "distinct (map fst seen) \<Longrightarrow>
     reject_loop seen ps = Inr d \<longleftrightarrow> distinct (map fst (seen @ ps)) \<and> d = seen @ ps"
proof (induction seen ps arbitrary: d rule: reject_loop.induct)
  case (1 seen)
  then show ?case by auto
next
  case (2 seen k v ps)
  show ?case
  proof (cases "has_key k seen")
    case True
    then show ?thesis by (auto simp: has_key_iff)
  next
    case False
    then have "AList.update k v seen = seen @ [(k, v)]"
      by (simp add: has_key_iff update_fresh)
    with 2 False show ?thesis by (auto simp: has_key_iff)
  qed
qed

text \<open>The hook keeps an object as it is, and refuses it when a key occurs twice.\<close>

lemma reject_duplicate_keys_Inr:
  "reject_duplicate_keys ps = Inr d \<longleftrightarrow> distinct (map fst ps) \<and> d = ps"
  by (auto simp: reject_duplicate_keys_def reject_loop_Inr)

lemma reject_loop_Inl: "reject_loop seen ps = Inl e \<Longrightarrow> \<exists>k. e = DuplicateKey k \<and> k \<in> fst ` set ps"
  by (induction seen ps rule: reject_loop.induct) (auto split: if_splits)

text \<open>No object within a value repeats a key.\<close>

primrec distinct_keys :: "json \<Rightarrow> bool" where
  "distinct_keys JNull \<longleftrightarrow> True"
| "distinct_keys (JBool b) \<longleftrightarrow> True"
| "distinct_keys (JInt i) \<longleftrightarrow> True"
| "distinct_keys (JFloat f) \<longleftrightarrow> True"
| "distinct_keys (JStr s) \<longleftrightarrow> True"
| "distinct_keys (JArr xs) \<longleftrightarrow> (\<forall>b \<in> set (map distinct_keys xs). b)"
| "distinct_keys (JObj kvs) \<longleftrightarrow>
     distinct (map fst kvs) \<and> (\<forall>b \<in> set (map snd (map (map_prod id distinct_keys) kvs)). b)"

lemma distinct_keys_JObj:
  "distinct_keys (JObj kvs) \<longleftrightarrow> distinct (map fst kvs) \<and> (\<forall>kv \<in> set kvs. distinct_keys (snd kv))"
  by auto

lemma scan_number_distinct: "scan_number s = Some (Inr (v, r)) \<Longrightarrow> distinct_keys v"
  by (auto simp: scan_number_def Let_def split: list.splits if_splits option.splits prod.splits)

lemma scan_literal_distinct: "scan_literal s = Some (v, r) \<Longrightarrow> distinct_keys v"
  by (auto simp: scan_literal_def split: if_splits)

lemma parse_distinct:
  defines "h \<equiv> reject_duplicate_keys"
  shows "(\<forall>s v r. parse_value n h s = Inr (v, r) \<longrightarrow> distinct_keys v) \<and>
    (\<forall>s vs r. parse_elements n h s = Inr (vs, r) \<longrightarrow> (\<forall>v \<in> set vs. distinct_keys v)) \<and>
    (\<forall>s ps r. parse_members n h s = Inr (ps, r) \<longrightarrow> (\<forall>kv \<in> set ps. distinct_keys (snd kv)))"
proof (induction n)
  case 0
  then show ?case by simp
next
  case (Suc n)
  have v: "distinct_keys v" if "parse_value n h s = Inr (v, r)" for s v r using Suc that by blast
  have e: "\<forall>v \<in> set vs. distinct_keys v" if "parse_elements n h s = Inr (vs, r)" for s vs r
    using Suc that by blast
  have m: "\<forall>kv \<in> set ps. distinct_keys (snd kv)" if "parse_members n h s = Inr (ps, r)" for s ps r
    using Suc that by blast
  have "distinct_keys v" if "parse_value (Suc n) h s = Inr (v, r)" for s v r
    using that
    by (auto simp: result_simps Let_def h_def [symmetric] distinct_keys_JObj
        simp del: distinct_keys.simps(7)
        split: if_splits option.splits sum.splits prod.splits
        dest!: reject_duplicate_keys_Inr [THEN iffD1, folded h_def] e m
        dest: scan_number_distinct scan_literal_distinct)
  moreover have "\<forall>v \<in> set vs. distinct_keys v" if "parse_elements (Suc n) h s = Inr (vs, r)" for s vs r
    using that by (auto simp: result_simps Let_def split: if_splits dest!: v e)
  moreover have "\<forall>kv \<in> set ps. distinct_keys (snd kv)"
    if "parse_members (Suc n) h s = Inr (ps, r)" for s ps r
    using that by (auto simp: result_simps Let_def split: if_splits dest!: v m)
  ultimately show ?case by blast
qed

lemma loads_distinct:
  "loads_bytes_with reject_duplicate_keys b = Inr v \<Longrightarrow> distinct_keys v"
  using parse_distinct [THEN conjunct1, rule_format]
  by (fastforce simp: loads_bytes_with_def json_loads_bytes_with_def json_loads_with_def
      simp del: parse_value.simps split: option.splits if_splits sum.splits prod.splits)

section \<open>Validating a payload\<close>

datatype payload_failure =
    InvalidPayload int pystr json
  | Unhandled json_error

fun valid_id :: "json \<Rightarrow> bool" where
  "valid_id (JBool b) = False"
| "valid_id JNull = True"
| "valid_id (JStr s) = True"
| "valid_id (JInt i) = True"
| "valid_id (JFloat f) = True"
| "valid_id _ = False"

definition parse_one :: "json \<Rightarrow> payload_failure + rpc_message" where
  "parse_one item =
     (case item of
        JObj d \<Rightarrow>
          (let raw_id = jget (str ''id'') d;
               message_id = (if valid_id raw_id then raw_id else JNull);
               method = jget (str ''method'') d;
               params = jget (str ''params'') d
           in if jget (str ''jsonrpc'') d \<noteq> JStr (str ''2.0'')
              then Inl (InvalidPayload INVALID_REQUEST
                (str ''Missing or unsupported 'jsonrpc' version; expected '2.0'.'') message_id)
              else
                (case method of
                   JStr s \<Rightarrow>
                     if s = []
                     then Inl (InvalidPayload INVALID_REQUEST
                       (str ''Request 'method' must be a non-empty string.'') message_id)
                     else if params \<noteq> JNull \<and> \<not> (is_dict params \<or> is_list params)
                     then Inl (InvalidPayload INVALID_PARAMS
                       (str ''Request 'params' must be an object or an array.'') message_id)
                     else if has_key (str ''id'') d \<and> \<not> valid_id raw_id
                     then Inl (InvalidPayload INVALID_REQUEST
                       (str ''Request 'id' must be a string, number, or null.'') JNull)
                     else Inr \<lparr>rm_method = s, rm_params = params, rm_id = message_id,
                       rm_is_request = has_key (str ''id'') d, rm_raw = d\<rparr>
                 | _ \<Rightarrow> Inl (InvalidPayload INVALID_REQUEST
                     (str ''Request 'method' must be a non-empty string.'') message_id)))
      | _ \<Rightarrow> Inl (InvalidPayload INVALID_REQUEST (str ''Request must be a JSON object.'') JNull))"

record parsed_payload =
  pp_messages :: "rpc_message list"
  pp_is_batch :: bool

definition duplicate_message :: "unicode_db \<Rightarrow> pystr \<Rightarrow> pystr" where
  "duplicate_message db k =
     str ''Duplicate key '' @ py_repr db k @ str '' in a JSON object; the request is ambiguous.''"

definition parse_document :: "json \<Rightarrow> payload_failure + parsed_payload" where
  "parse_document document =
     (case document of
        JArr items \<Rightarrow>
          if items = []
          then Inl (InvalidPayload INVALID_REQUEST
            (str ''Batch must contain at least one request.'') JNull)
          else and_then (map_result parse_one items)
            (\<lambda>ms. Inr \<lparr>pp_messages = ms, pp_is_batch = True\<rparr>)
      | _ \<Rightarrow> and_then (parse_one document) (\<lambda>m. Inr \<lparr>pp_messages = [m], pp_is_batch = False\<rparr>))"

definition parse_payload :: "unicode_db \<Rightarrow> bytes \<Rightarrow> payload_failure + parsed_payload" where
  "parse_payload db body =
     (if bytes_strip body = []
      then Inl (InvalidPayload INVALID_REQUEST (str ''Empty request body.'') JNull)
      else
        (case loads_bytes_with reject_duplicate_keys body of
           Inl (DuplicateKey k) \<Rightarrow> Inl (InvalidPayload INVALID_REQUEST (duplicate_message db k) JNull)
         | Inl e \<Rightarrow>
             if is_decode_error e
             then Inl (InvalidPayload PARSE_ERROR
               (str ''Invalid JSON: '' @ decode_error_msg e @ str ''.'') JNull)
             else Inl (Unhandled e)
         | Inr document \<Rightarrow> parse_document document))"

section \<open>What a parsed payload guarantees\<close>

lemma parse_one_Inr:
  "parse_one item = Inr m \<longleftrightarrow>
     (\<exists>d. item = JObj d \<and> rm_raw m = d \<and>
        jget (str ''jsonrpc'') d = JStr (str ''2.0'') \<and>
        jget (str ''method'') d = JStr (rm_method m) \<and> rm_method m \<noteq> [] \<and>
        rm_params m = jget (str ''params'') d \<and>
        (rm_params m = JNull \<or> is_dict (rm_params m) \<or> is_list (rm_params m)) \<and>
        rm_id m = jget (str ''id'') d \<and> valid_id (rm_id m) \<and>
        rm_is_request m = has_key (str ''id'') d)"
  (is "?l \<longleftrightarrow> ?r")
proof
  assume l: ?l
  then obtain d where d: "item = JObj d"
    by (auto simp: parse_one_def split: json.splits)
  with l obtain s where s: "jget (str ''method'') d = JStr s"
    by (auto simp: parse_one_def Let_def split: json.splits if_splits)
  have "has_key (str ''id'') d \<or> jget (str ''id'') d = JNull"
    by (auto intro: jget_not_has_key)
  with l d s show ?r
    by (auto simp: parse_one_def Let_def split: if_splits)
next
  assume ?r
  then show ?l
    by (cases m) (auto simp: parse_one_def Let_def)
qed

lemma parse_one_failure: "parse_one item = Inl f \<Longrightarrow> \<exists>c t i. f = InvalidPayload c t i \<and> valid_id i"
  by (auto simp: parse_one_def Let_def split: json.splits if_splits)

definition document_messages :: "json \<Rightarrow> json list" where
  "document_messages document = (case document of JArr items \<Rightarrow> items | _ \<Rightarrow> [document])"

lemma parse_document_Inr:
  "parse_document document = Inr p \<longleftrightarrow>
     list_all2 (\<lambda>x m. parse_one x = Inr m) (document_messages document) (pp_messages p) \<and>
     pp_messages p \<noteq> [] \<and> pp_is_batch p = is_list document"
  (is "?l \<longleftrightarrow> ?r")
proof (cases "\<exists>items. document = JArr items")
  case True
  then obtain items where [simp]: "document = JArr items" by blast
  have "?l \<longleftrightarrow> items \<noteq> [] \<and> map_result parse_one items = Inr (pp_messages p) \<and> pp_is_batch p"
    by (cases p) (auto simp: parse_document_def result_simps)
  then show ?thesis
    by (auto simp: map_result_Inr document_messages_def)
next
  case False
  then have "?l \<longleftrightarrow> (\<exists>m. parse_one document = Inr m \<and> p = \<lparr>pp_messages = [m], pp_is_batch = False\<rparr>)"
    by (auto simp: parse_document_def result_simps split: json.splits)
  with False show ?thesis
    by (cases document; cases p) (simp_all add: document_messages_def list_all2_Cons1, blast+)
qed

lemma parse_payload_Inr:
  "parse_payload db body = Inr p \<longleftrightarrow>
     (\<exists>document. loads_bytes_with reject_duplicate_keys body = Inr document \<and>
        bytes_strip body \<noteq> [] \<and> parse_document document = Inr p)"
  by (auto simp: parse_payload_def split: if_splits sum.splits json_error.splits)

lemma parse_payload_raw:
  assumes "parse_payload db body = Inr p"
  obtains document where "loads_bytes_with reject_duplicate_keys body = Inr document"
    "distinct_keys document" "map JObj (map rm_raw (pp_messages p)) = document_messages document"
    "pp_messages p \<noteq> []" "pp_is_batch p = is_list document"
proof -
  from assms obtain document where d: "loads_bytes_with reject_duplicate_keys body = Inr document"
      "parse_document document = Inr p"
    by (auto simp: parse_payload_Inr)
  then have "list_all2 (\<lambda>x m. parse_one x = Inr m) (document_messages document) (pp_messages p)"
    by (simp add: parse_document_Inr)
  then have "list_all2 (\<lambda>x m. x = JObj (rm_raw m)) (document_messages document) (pp_messages p)"
    by (rule list_all2_mono) (auto simp: parse_one_Inr)
  then have "document_messages document = map (\<lambda>m. JObj (rm_raw m)) (pp_messages p)"
    by (simp add: list.rel_map list_all2_eq [symmetric] list_eq_iff_nth_eq list_all2_conv_all_nth)
  with d show ?thesis
    using loads_distinct [OF d(1)] by (intro that [of document]) (auto simp: parse_document_Inr comp_def)
qed

lemma list_all2_in_right: "list_all2 P xs ys \<Longrightarrow> y \<in> set ys \<Longrightarrow> \<exists>x. x \<in> set xs \<and> P x y"
  by (induction xs ys rule: list_all2_induct) auto

lemma payload_message_ok:
  assumes "parse_payload db body = Inr p" "m \<in> set (pp_messages p)"
  shows "parse_one (JObj (rm_raw m)) = Inr m"
proof -
  obtain document where "list_all2 (\<lambda>x m. parse_one x = Inr m) (document_messages document) (pp_messages p)"
    using assms(1) by (auto simp: parse_payload_Inr parse_document_Inr)
  then obtain x where "parse_one x = Inr m"
    using assms(2) by (auto dest: list_all2_in_right)
  then show ?thesis by (auto simp: parse_one_Inr)
qed

lemma parse_payload_failure:
  assumes "parse_payload db body = Inl f"
  shows "(\<exists>c t i. f = InvalidPayload c t i \<and> valid_id i) \<or>
    (\<exists>e. f = Unhandled e \<and> loads_bytes_with reject_duplicate_keys body = Inl e \<and> \<not> is_decode_error e)"
proof -
  have "\<exists>c t i. g = InvalidPayload c t i \<and> valid_id i" if "parse_document d = Inl g" for d g
    using that by (auto simp: parse_document_def and_then_Inl split: json.splits if_splits
        dest!: map_result_Inl dest: parse_one_failure)
  with assms show ?thesis
    by (auto simp: parse_payload_def split: if_splits sum.splits json_error.splits)
qed

end
