(* ===== verification/Gw_Auth.thy ===== *)
theory Gw_Auth
  imports Unicode
begin

text \<open>
  \<open>mcp_gateway/auth.py\<close>: the token table (built in, or parsed from
  \<open>MCP_GATEWAY_TOKENS\<close>), the bearer token of an \<open>Authorization\<close> header, and the principal it
  stands for. The comparison is on UTF-8 bytes and scans the whole table; the lemmas show that
  it is a table lookup.
\<close>

record principal =
  pr_subject :: pystr
  pr_role :: pystr

definition pr_is_admin :: "principal \<Rightarrow> bool" where
  "pr_is_admin p \<longleftrightarrow> pr_role p = str ''admin''"

type_synonym environ = "pystr \<Rightarrow> pystr option"

definition DEFAULT_TOKENS :: "(pystr \<times> principal) list" where
  "DEFAULT_TOKENS =
     [(str ''admin-token-abc123'', \<lparr>pr_subject = str ''ops@example.com'', pr_role = str ''admin''\<rparr>),
      (str ''viewer-token-xyz789'', \<lparr>pr_subject = str ''analyst@example.com'', pr_role = str ''viewer''\<rparr>),
      (str ''viewer-token-second'', \<lparr>pr_subject = str ''intern@example.com'', pr_role = str ''viewer''\<rparr>)]"

text \<open>One step of the loop of \<open>_token_table\<close>.\<close>

definition token_entry :: "pystr \<Rightarrow> (pystr \<times> principal) list \<Rightarrow> (pystr \<times> principal) list" where
  "token_entry piece table =
     (let entry = py_strip piece
      in if entry = [] then table
         else
           (let (token, _, rest) = py_partition 58 entry;
                (subject, _, role) = py_partition 58 rest
            in if token \<noteq> [] \<and> subject \<noteq> [] \<and> role \<noteq> []
               then AList.update token \<lparr>pr_subject = subject, pr_role = role\<rparr> table
               else table))"

definition token_table :: "environ \<Rightarrow> (pystr \<times> principal) list" where
  "token_table environ =
     (case environ (str ''MCP_GATEWAY_TOKENS'') of
        None \<Rightarrow> DEFAULT_TOKENS
      | Some configured \<Rightarrow>
          if configured = [] then DEFAULT_TOKENS
          else fold token_entry (py_split 44 configured) [])"

text \<open>\<open>AuthError\<close> is its message.\<close>

definition extract_bearer_token :: "pystr option \<Rightarrow> pystr + pystr" where
  "extract_bearer_token header_value =
     (case header_value of
        None \<Rightarrow> Inl (str ''Missing Authorization header.'')
      | Some h \<Rightarrow>
          if h = [] then Inl (str ''Missing Authorization header.'')
          else
            (let (scheme, _, rest) = py_partition 32 h;
                 token = py_strip rest
             in if py_lower scheme \<noteq> str ''bearer''
                then Inl (str ''Authorization header must use the Bearer scheme.'')
                else if token = [] then Inl (str ''Bearer token is empty.'')
                else Inr token))"

definition resolve_principal :: "environ \<Rightarrow> pystr option \<Rightarrow> pystr + principal" where
  "resolve_principal environ header_value =
     and_then (extract_bearer_token header_value)
       (\<lambda>token.
          let candidate = utf8_encode token;
              matched = last_match (\<lambda>known. candidate = utf8_encode known) None (token_table environ)
          in case matched of
               None \<Rightarrow> Inl (str ''Invalid or unknown bearer token.'')
             | Some p \<Rightarrow> Inr p)"

section \<open>The table\<close>

lemma token_entry_distinct: "distinct (map fst t) \<Longrightarrow> distinct (map fst (token_entry e t))"
  by (auto simp: token_entry_def Let_def distinct_update split: prod.splits)

lemma fold_token_entry_distinct:
  "distinct (map fst t) \<Longrightarrow> distinct (map fst (fold token_entry es t))"
  by (induction es arbitrary: t) (auto simp: token_entry_distinct)

lemma token_table_distinct: "distinct (map fst (token_table env))"
  by (auto simp: token_table_def DEFAULT_TOKENS_def fold_token_entry_distinct split: option.splits)

text \<open>Every entry of a table names a subject and a role.\<close>

definition complete_entries :: "(pystr \<times> principal) list \<Rightarrow> bool" where
  "complete_entries t \<longleftrightarrow> (\<forall>(k, p) \<in> set t. k \<noteq> [] \<and> pr_subject p \<noteq> [] \<and> pr_role p \<noteq> [])"

lemma set_alist_update: "x \<in> set (AList.update k v t) \<Longrightarrow> x = (k, v) \<or> x \<in> set t"
  by (induction t) (auto split: if_splits)

lemma token_entry_complete: "complete_entries t \<Longrightarrow> complete_entries (token_entry e t)"
  by (auto simp: complete_entries_def token_entry_def Let_def split: prod.splits dest!: set_alist_update)

lemma token_table_complete: "complete_entries (token_table env)"
proof -
  have "complete_entries (fold token_entry es t)" if "complete_entries t" for es t
    using that by (induction es arbitrary: t) (auto simp: token_entry_complete)
  moreover have "complete_entries DEFAULT_TOKENS" "complete_entries []"
    by (simp_all add: complete_entries_def DEFAULT_TOKENS_def)
  ultimately show ?thesis
    by (simp add: token_table_def split: option.splits)
qed

section \<open>The header\<close>

definition bearer_token :: "pystr \<Rightarrow> pystr \<Rightarrow> bool" where
  "bearer_token h token \<longleftrightarrow>
     token \<noteq> [] \<and>
     (\<exists>scheme rest. h = scheme @ 32 # rest \<and> 32 \<notin> set scheme \<and>
        py_lower scheme = str ''bearer'' \<and> py_strip rest = token)"

lemma py_partition_eq:
  "py_partition c s = (if c \<in> set s then (takeWhile (\<lambda>x. x \<noteq> c) s, True, tl (dropWhile (\<lambda>x. x \<noteq> c) s))
     else (s, False, []))"
proof (cases "c \<in> set s")
  case False
  then have "takeWhile (\<lambda>x. x \<noteq> c) s = s" and "dropWhile (\<lambda>x. x \<noteq> c) s = []"
    by (auto simp: takeWhile_eq_all_conv)
  with False show ?thesis by (simp add: py_partition_def del: dropWhile_eq_Nil_conv)
qed (simp add: py_partition_def)

lemma py_partition_append: "c \<notin> set a \<Longrightarrow> py_partition c (a @ c # b) = (a, True, b)"
  by (simp add: py_partition_def takeWhile_append dropWhile_append)

lemma py_partition_found:
  "py_partition c s = (a, True, b) \<longleftrightarrow> c \<notin> set a \<and> s = a @ c # b"
proof
  assume p: "py_partition c s = (a, True, b)"
  then have "c \<in> set s" and a: "a = takeWhile (\<lambda>x. x \<noteq> c) s" and b: "b = tl (dropWhile (\<lambda>x. x \<noteq> c) s)"
    by (auto simp: py_partition_def)
  then have "dropWhile (\<lambda>x. x \<noteq> c) s \<noteq> []" by auto
  then have "dropWhile (\<lambda>x. x \<noteq> c) s = c # b"
    using b hd_dropWhile [of "\<lambda>x. x \<noteq> c" s] by (cases "dropWhile (\<lambda>x. x \<noteq> c) s") auto
  with a show "c \<notin> set a \<and> s = a @ c # b"
    by (metis (mono_tags, lifting) set_takeWhileD takeWhile_dropWhile_id)
qed (simp add: py_partition_append)

lemma extract_bearer_token_Inr:
  "extract_bearer_token (Some h) = Inr token \<longleftrightarrow> bearer_token h token"
proof (cases "32 \<in> set h")
  case True
  then obtain a b where h: "h = a @ 32 # b" "32 \<notin> set a"
    by (metis split_list_first)
  have "scheme = a \<and> rest = b"
    if "h = scheme @ 32 # rest" "32 \<notin> set scheme" for scheme rest
    using py_partition_append [OF that(2), of rest] py_partition_append [OF h(2), of b] that(1) h(1)
    by simp
  then have "bearer_token h token \<longleftrightarrow>
      token \<noteq> [] \<and> py_lower a = str ''bearer'' \<and> py_strip b = token"
    unfolding bearer_token_def using h by blast
  moreover have "py_partition 32 h = (a, True, b)" "h \<noteq> []"
    using h py_partition_append by auto
  ultimately show ?thesis
    by (auto simp: extract_bearer_token_def Let_def)
next
  case False
  then have "py_partition 32 h = (h, False, [])" and "\<not> bearer_token h token"
    by (auto simp: py_partition_eq bearer_token_def)
  then show ?thesis
    by (auto simp: extract_bearer_token_def py_strip_def Let_def)
qed

section \<open>Resolution is a lookup\<close>

lemma last_match_cong:
  "(\<And>k. k \<in> fst ` set t \<Longrightarrow> P k = Q k) \<Longrightarrow> last_match P m t = last_match Q m t"
  by (induction t arbitrary: m rule: list.induct) auto

lemma valid_strip: "valid_str s \<Longrightarrow> valid_str (py_strip s)"
  using set_strip_by by (fastforce simp: valid_str_def py_strip_def)

lemma bearer_token_valid: "bearer_token h token \<Longrightarrow> valid_str h \<Longrightarrow> valid_str token"
proof -
  assume "bearer_token h token" "valid_str h"
  then obtain rest where "token = py_strip rest" "valid_str rest"
    by (auto simp: bearer_token_def valid_str_def)
  then show "valid_str token" by (simp add: valid_strip)
qed

text \<open>The strings of the table hold no surrogate.\<close>

definition valid_table :: "(pystr \<times> 'a) list \<Rightarrow> bool" where
  "valid_table t \<longleftrightarrow> (\<forall>k \<in> fst ` set t. valid_str k)"

lemma matched_eq_lookup:
  assumes "valid_str token" "valid_table t" "distinct (map fst t)"
  shows "last_match (\<lambda>known. utf8_encode token = utf8_encode known) None t = map_of t token"
proof -
  have "last_match (\<lambda>known. utf8_encode token = utf8_encode known) None t = last_match (\<lambda>k. k = token) None t"
    using assms by (intro last_match_cong) (auto simp: utf8_encode_inject valid_table_def)
  then show ?thesis using assms by (simp add: last_match_distinct)
qed

lemma resolve_principal_Inr:
  assumes "valid_str h" "valid_table (token_table env)"
  shows "resolve_principal env (Some h) = Inr p \<longleftrightarrow>
    (\<exists>token. bearer_token h token \<and> map_of (token_table env) token = Some p)"
proof -
  have "resolve_principal env (Some h) = Inr p \<longleftrightarrow>
      (\<exists>token. bearer_token h token \<and>
         last_match (\<lambda>known. utf8_encode token = utf8_encode known) None (token_table env) = Some p)"
    by (auto simp: resolve_principal_def extract_bearer_token_Inr result_simps Let_def split: option.splits)
  then show ?thesis
    using matched_eq_lookup [OF bearer_token_valid [OF _ assms(1)] assms(2) token_table_distinct]
    by auto
qed

lemma resolve_principal_None: "resolve_principal env None = Inl (str ''Missing Authorization header.'')"
  by (simp add: resolve_principal_def extract_bearer_token_def)

lemma DEFAULT_TOKENS_valid: "valid_table DEFAULT_TOKENS"
  by (simp add: valid_table_def DEFAULT_TOKENS_def str_def valid_str_def valid_cp_def)

end
