(* ===== verification/Gw_Policy.thy ===== *)
theory Gw_Policy
  imports Gw_Jsonrpc Gw_Auth
begin

text \<open>
  \<open>mcp_gateway/policy.py\<close>: which messages a principal may send. The interface of the rest of
  the gateway to this component is the locale \<open>policy_gate\<close>: a decision function that lets
  a protected message through only for a principal that may send it. It is interpreted on
  \<open>evaluate\<close>.
\<close>

definition ADMIN_TOOL_PREFIX :: pystr where "ADMIN_TOOL_PREFIX = str ''admin_''"

definition TOOLS_CALL :: pystr where "TOOLS_CALL = str ''tools/call''"

definition KNOWN_METHODS :: "pystr list" where
  "KNOWN_METHODS = map str
     [''initialize'', ''ping'', ''completion/complete'', ''logging/setLevel'', ''prompts/list'',
      ''prompts/get'', ''resources/list'', ''resources/read'', ''resources/subscribe'',
      ''resources/unsubscribe'', ''resources/templates/list'', ''roots/list'',
      ''sampling/createMessage'', ''elicitation/create'', ''tools/list'', ''tools/call'',
      ''notifications/initialized'', ''notifications/cancelled'', ''notifications/progress'',
      ''notifications/message'', ''notifications/roots/list_changed'',
      ''notifications/resources/updated'', ''notifications/resources/list_changed'',
      ''notifications/tools/list_changed'', ''notifications/prompts/list_changed'']"

record denial =
  dn_code :: int
  dn_message :: pystr
  dn_reason :: pystr

definition INVISIBLE_CATEGORIES :: "string list" where
  "INVISIBLE_CATEGORIES = [''Cc'', ''Cf'', ''Zs'', ''Zl'', ''Zp'']"

definition invisible :: "unicode_db \<Rightarrow> nat \<Rightarrow> bool" where
  "invisible db c \<longleftrightarrow> ucd_category db c \<in> set INVISIBLE_CATEGORIES"

definition normalize_tool_name :: "unicode_db \<Rightarrow> pystr \<Rightarrow> pystr" where
  "normalize_tool_name db name =
     (let folded = filter (\<lambda>c. \<not> invisible db c) (ucd_nfkc db name);
          decomposed = ucd_nfd db (ucd_casefold db folded);
          stripped = filter (\<lambda>c. ucd_category db c \<noteq> ''Mn'') decomposed
      in ucd_nfc db stripped)"

definition is_privileged_tool :: "unicode_db \<Rightarrow> pystr \<Rightarrow> bool" where
  "is_privileged_tool db name \<longleftrightarrow> prefix ADMIN_TOOL_PREFIX (normalize_tool_name db name)"

definition normalize_method :: "unicode_db \<Rightarrow> pystr \<Rightarrow> pystr" where
  "normalize_method db method = ucd_casefold db (py_strip (ucd_nfkc db method))"

definition deny_unknown :: denial where
  "deny_unknown = \<lparr>dn_code = METHOD_NOT_FOUND, dn_message = str ''Unknown method.'',
     dn_reason = str ''method_not_allowlisted''\<rparr>"

definition deny_params :: denial where
  "deny_params = \<lparr>dn_code = INVALID_PARAMS,
     dn_message = str ''tools/call requires a params object containing 'name'.'',
     dn_reason = str ''malformed_params''\<rparr>"

definition deny_name :: denial where
  "deny_name = \<lparr>dn_code = INVALID_PARAMS,
     dn_message = str ''tools/call requires 'params.name' to be a string.'',
     dn_reason = str ''missing_tool_name''\<rparr>"

definition deny_role :: denial where
  "deny_role = \<lparr>dn_code = UNAUTHORIZED_TOOL_CALL, dn_message = str ''Unauthorized Tool Call'',
     dn_reason = str ''insufficient_role''\<rparr>"

lemmas denials = deny_unknown_def deny_params_def deny_name_def deny_role_def

definition evaluate :: "unicode_db \<Rightarrow> bool \<Rightarrow> principal \<Rightarrow> rpc_message \<Rightarrow> denial option" where
  "evaluate db enforce_allowlist caller message =
     (let normalized = normalize_method db (rm_method message)
      in if enforce_allowlist \<and> rm_method message \<notin> set KNOWN_METHODS then Some deny_unknown
         else if normalized \<noteq> TOOLS_CALL then None
         else if \<not> is_dict (rm_params message) then Some deny_params
         else
           (case tool_name message of
              None \<Rightarrow> Some deny_name
            | Some name \<Rightarrow>
                if is_privileged_tool db name \<and> \<not> pr_is_admin caller then Some deny_role
                else None))"

section \<open>ASCII names\<close>

text \<open>On ASCII the normal form drops blanks and controls and folds case: nothing else.\<close>

definition ascii_visible :: "nat \<Rightarrow> bool" where
  "ascii_visible c \<longleftrightarrow> 32 < c \<and> c \<noteq> 127"

lemma invisible_ascii: "unicode_ascii db \<Longrightarrow> c < 128 \<Longrightarrow> invisible db c \<longleftrightarrow> \<not> ascii_visible c"
  by (auto simp: invisible_def unicode_ascii_category ascii_category_def INVISIBLE_CATEGORIES_def
      ascii_visible_def)

lemma not_mark_ascii: "unicode_ascii db \<Longrightarrow> c < 128 \<Longrightarrow> ucd_category db c \<noteq> ''Mn''"
  by (auto simp: unicode_ascii_category ascii_category_def)

lemma normalize_tool_name_ascii:
  assumes "unicode_ascii db" "ascii_str s"
  shows "normalize_tool_name db s = py_lower (filter ascii_visible s)"
proof -
  have "filter (\<lambda>c. \<not> invisible db c) s = filter ascii_visible s"
    using assms by (auto simp: invisible_ascii ascii_str_def intro!: filter_cong)
  moreover have "filter (\<lambda>c. ucd_category db c \<noteq> ''Mn'') t = t" if "ascii_str t" for t
    using assms(1) that by (auto simp: not_mark_ascii ascii_str_def filter_id_conv)
  ultimately show ?thesis
    using assms by (simp add: normalize_tool_name_def unicode_asciiD)
qed

lemma ascii_strip [simp]: "ascii_str s \<Longrightarrow> ascii_str (py_strip s)"
  using set_strip_by by (fastforce simp: ascii_str_def py_strip_def)

lemma normalize_method_ascii:
  "unicode_ascii db \<Longrightarrow> ascii_str s \<Longrightarrow> normalize_method db s = py_lower (py_strip s)"
  by (simp add: normalize_method_def unicode_asciiD)

lemma KNOWN_METHODS_ascii: "\<forall>m \<in> set KNOWN_METHODS. ascii_str m"
  by (simp add: KNOWN_METHODS_def str_def)

lemma KNOWN_METHODS_fold: "\<forall>m \<in> set KNOWN_METHODS. py_lower (py_strip m) = TOOLS_CALL \<longleftrightarrow> m = TOOLS_CALL"
  by (simp add: KNOWN_METHODS_def str_def py_lower_def lower_cp_def py_strip_def strip_by_def
      py_isspace_def TOOLS_CALL_def)

text \<open>No allowlisted method but \<open>tools/call\<close> itself folds to it.\<close>

lemma known_normalize:
  "unicode_ascii db \<Longrightarrow> m \<in> set KNOWN_METHODS \<Longrightarrow> normalize_method db m = TOOLS_CALL \<longleftrightarrow> m = TOOLS_CALL"
  using KNOWN_METHODS_ascii KNOWN_METHODS_fold by (simp add: normalize_method_ascii)

lemma TOOLS_CALL_known: "TOOLS_CALL \<in> set KNOWN_METHODS"
  by (simp add: KNOWN_METHODS_def TOOLS_CALL_def)

lemma normalize_TOOLS_CALL: "unicode_ascii db \<Longrightarrow> normalize_method db TOOLS_CALL = TOOLS_CALL"
  by (simp add: known_normalize TOOLS_CALL_known)

section \<open>Decisions\<close>

text \<open>A call of a privileged tool, by what the message says.\<close>

definition privileged_call :: "unicode_db \<Rightarrow> rpc_message \<Rightarrow> bool" where
  "privileged_call db m \<longleftrightarrow>
     rm_method m = TOOLS_CALL \<and>
     (\<exists>name. tool_name m = Some name \<and> is_privileged_tool db name)"

lemma tool_name_dict: "tool_name m = Some name \<Longrightarrow> is_dict (rm_params m)"
  by (auto split: json.splits)

lemma evaluate_allow_iff:
  assumes "unicode_ascii db"
  shows "evaluate db True p m = None \<longleftrightarrow>
    rm_method m \<in> set KNOWN_METHODS \<and>
    (rm_method m = TOOLS_CALL \<longrightarrow> (\<exists>name. tool_name m = Some name \<and>
       (is_privileged_tool db name \<longrightarrow> pr_is_admin p)))"
  using known_normalize [OF assms, of "rm_method m"]
  by (auto simp: evaluate_def Let_def tool_name_dict simp del: tool_name.simps split: option.splits)

lemma evaluate_privileged:
  assumes "unicode_ascii db" "evaluate db e p m = None" "privileged_call db m"
  shows "pr_is_admin p"
  using assms
  by (auto simp: evaluate_def privileged_call_def normalize_TOOLS_CALL Let_def
      simp del: tool_name.simps split: if_splits option.splits)

lemma evaluate_named:
  assumes "unicode_ascii db" "evaluate db e p m = None" "rm_method m = TOOLS_CALL"
  shows "\<exists>name. tool_name m = Some name"
  using assms
  by (auto simp: evaluate_def normalize_TOOLS_CALL Let_def
      simp del: tool_name.simps split: if_splits option.splits)

lemma evaluate_admin:
  "pr_is_admin p \<Longrightarrow> evaluate db e p m \<noteq> Some deny_role"
  by (auto simp: evaluate_def Let_def denials simp del: tool_name.simps split: option.splits)

section \<open>The interface: a policy gate\<close>

text \<open>
  The loop of the handler keeps the messages the decision lets through and pairs the others
  with their denial, in order.
\<close>

definition screen :: "('m \<Rightarrow> 'd option) \<Rightarrow> 'm list \<Rightarrow> 'm list \<times> ('m \<times> 'd) list" where
  "screen decide ms =
     (filter (\<lambda>m. decide m = None) ms,
      concat (map (\<lambda>m. case decide m of None \<Rightarrow> [] | Some d \<Rightarrow> [(m, d)]) ms))"

locale policy_gate =
  fixes decide :: "'p \<Rightarrow> 'm \<Rightarrow> 'd option"
    and protected :: "'m \<Rightarrow> bool"
    and may :: "'p \<Rightarrow> bool"
  assumes guarded: "decide p m = None \<Longrightarrow> protected m \<Longrightarrow> may p"
begin

lemma screened_safe: "\<not> may p \<Longrightarrow> m \<in> set (fst (screen (decide p) ms)) \<Longrightarrow> \<not> protected m"
  by (auto simp: screen_def dest: guarded)

lemma screened_denied:
  "\<not> may p \<Longrightarrow> m \<in> set ms \<Longrightarrow> protected m \<Longrightarrow> \<exists>d. (m, d) \<in> set (snd (screen (decide p) ms))"
  by (cases "decide p m") (force simp: screen_def dest: guarded)+

lemma screened_subseq: "subseq (fst (screen (decide p) ms)) ms"
  by (simp add: screen_def)

lemma screened_all: "length (fst (screen (decide p) ms)) = length ms \<longleftrightarrow> snd (screen (decide p) ms) = []"
  by (induction ms) (auto simp: screen_def Suc_le_eq le_imp_less_Suc [OF length_filter_le] less_not_refl3
      split: option.splits)

end

lemma policy_gate_evaluate:
  "unicode_ascii db \<Longrightarrow> policy_gate (evaluate db e) (privileged_call db) pr_is_admin"
  by unfold_locales (rule evaluate_privileged)

text \<open>Any database that treats ASCII as Unicode does; \<open>small_db\<close> is one.\<close>

locale unicode_text =
  fixes db :: unicode_db
  assumes ascii: "unicode_ascii db"
begin

lemma tools_call_folds: "normalize_method db TOOLS_CALL = TOOLS_CALL"
  by (rule normalize_TOOLS_CALL [OF ascii])

end

sublocale unicode_text \<subseteq> gate: policy_gate "evaluate db e" "privileged_call db" pr_is_admin for e
  by (rule policy_gate_evaluate [OF ascii])

interpretation small: unicode_text small_db
  by unfold_locales (rule small_db_ascii)

end
