(* ===== verification/Http.thy ===== *)
theory Http
  imports Gw_Auth
begin

text \<open>
  What the services share of HTTP and of the Python runtime: requests and responses, header
  lookup, the bounded reading of a body (\<open>_read_bounded_body\<close>, the same function in the MCP
  gateway, the router and the guardrail), \<open>int(text)\<close> of a configuration value, and the
  pieces of the runtime a service is run with.
\<close>

text \<open>
  The runtime: the Unicode database, \<open>repr\<close> of a finite float, \<open>os.environ\<close> and
  \<open>float(text)\<close>.
\<close>

record py_runtime =
  rt_ucd :: unicode_db
  rt_repr :: "rat \<Rightarrow> pystr"
  rt_environ :: environ
  rt_float :: "pystr \<Rightarrow> pyfloat option"

text \<open>\<open>os.environ.get(name, default)\<close>.\<close>

definition getenv :: "py_runtime \<Rightarrow> string \<Rightarrow> string \<Rightarrow> pystr" where
  "getenv rt name dflt = (case rt_environ rt (str name) of None \<Rightarrow> str dflt | Some v \<Rightarrow> v)"

text \<open>
  \<open>int(text)\<close> on ASCII digits: surrounding white space, a sign, and single underscores between
  digits are allowed. \<open>None\<close> is a \<open>ValueError\<close>.
\<close>

definition py_int :: "pystr \<Rightarrow> int option" where
  "py_int text0 =
     (let s = py_strip text0;
          (sign, body) = (case s of c # t \<Rightarrow> if c = 45 then (- 1, t) else if c = 43 then (1, t) else (1, s)
                                  | [] \<Rightarrow> (1, s));
          groups = py_split 95 body
      in if (\<forall>g \<in> set groups. g \<noteq> []) then map_option ((*) sign) (int_of_digits (concat groups))
         else None)"

section \<open>Requests and responses\<close>

type_synonym headers = "(pystr \<times> pystr) list"

text \<open>The first value of a header; ASGI servers send the names in lower case.\<close>

definition header_get :: "pystr \<Rightarrow> headers \<Rightarrow> pystr option" where
  "header_get name hs = map_of hs name"

record http_request =
  rq_method :: pystr
  rq_headers :: headers
  rq_chunks :: "bytes list"

datatype body = NoBody | JsonBody json | RawBody bytes

record http_response =
  hr_status :: int
  hr_headers :: headers
  hr_media :: "pystr option"
  hr_body :: body

definition json_response :: "json \<Rightarrow> int \<Rightarrow> headers \<Rightarrow> http_response" where
  "json_response payload status hs =
     \<lparr>hr_status = status, hr_headers = hs, hr_media = Some (str ''application/json''),
      hr_body = JsonBody payload\<rparr>"

section \<open>Reading a body\<close>

datatype body_result =
    BodyRead bytes
  | BodyTooLarge
  | BadContentLength  \<comment> \<open>\<open>int\<close> raised a \<open>ValueError\<close> on the declared length\<close>

fun read_chunks :: "int \<Rightarrow> bytes \<Rightarrow> bytes list \<Rightarrow> body_result" where
  "read_chunks limit body [] = BodyRead body"
| "read_chunks limit body (c # cs) =
     (let body' = body @ c
      in if int (length body') > limit then BodyTooLarge else read_chunks limit body' cs)"

definition read_bounded_body :: "int \<Rightarrow> http_request \<Rightarrow> body_result" where
  "read_bounded_body limit request =
     (case header_get (str ''content-length'') (rq_headers request) of
        None \<Rightarrow> read_chunks limit [] (rq_chunks request)
      | Some declared \<Rightarrow>
          if py_isdigit declared then
            (case int_of_digits declared of
               None \<Rightarrow> BadContentLength
             | Some n \<Rightarrow> if n > limit then BodyTooLarge else read_chunks limit [] (rq_chunks request))
          else read_chunks limit [] (rq_chunks request))"

lemma read_chunks_BodyRead:
  "read_chunks limit body cs = BodyRead b \<longleftrightarrow>
     b = body @ concat cs \<and> (\<forall>n. 0 < n \<and> n \<le> length cs \<longrightarrow> int (length (body @ concat (take n cs))) \<le> limit)"
proof (induction cs arbitrary: body)
  case Nil
  then show ?case by auto
next
  case (Cons c cs)
  show ?case
  proof (cases "int (length (body @ c)) > limit")
    case True
    then have "\<not> (\<forall>n. 0 < n \<and> n \<le> length (c # cs) \<longrightarrow> int (length (body @ concat (take n (c # cs)))) \<le> limit)"
      by (auto intro!: exI [of _ 1])
    with True show ?thesis by (simp add: Let_def)
  next
    case False
    have "(\<forall>n. 0 < n \<and> n \<le> length (c # cs) \<longrightarrow> int (length (body @ concat (take n (c # cs)))) \<le> limit)
        \<longleftrightarrow> (\<forall>n. 0 < n \<and> n \<le> length cs \<longrightarrow> int (length ((body @ c) @ concat (take n cs))) \<le> limit)"
      (is "?a \<longleftrightarrow> ?b")
    proof
      assume ?a
      show ?b
      proof (intro allI impI)
        fix n
        assume "0 < n \<and> n \<le> length cs"
        then show "int (length ((body @ c) @ concat (take n cs))) \<le> limit"
          using \<open>?a\<close> [rule_format, of "Suc n"] by simp
      qed
    next
      assume b: ?b
      show ?a
      proof (intro allI impI)
        fix n
        assume n: "0 < n \<and> n \<le> length (c # cs)"
        then obtain k where k: "n = Suc k" by (cases n) auto
        show "int (length (body @ concat (take n (c # cs)))) \<le> limit"
        proof (cases "k = 0")
          case True
          with k False show ?thesis by simp
        next
          case pos: False
          then show ?thesis using b [rule_format, of k] n k by simp
        qed
      qed
    qed
    with False Cons.IH [of "body @ c"] show ?thesis by (simp add: Let_def)
  qed
qed

lemma read_chunks_bound: "read_chunks limit body cs = BodyRead b \<Longrightarrow> int (length body) \<le> limit \<Longrightarrow> int (length b) \<le> limit"
  by (induction limit body cs rule: read_chunks.induct) (auto simp: Let_def split: if_splits)

lemma read_chunks_not_bad [simp]: "read_chunks limit body cs \<noteq> BadContentLength"
  by (induction limit body cs rule: read_chunks.induct) (auto simp: Let_def)

lemma read_bounded_body_BodyRead:
  assumes "read_bounded_body limit request = BodyRead b"
  shows "b = concat (rq_chunks request)" "0 \<le> limit \<Longrightarrow> int (length b) \<le> limit"
proof -
  have "read_chunks limit [] (rq_chunks request) = BodyRead b"
    using assms by (auto simp: read_bounded_body_def split: option.splits if_splits)
  then show "b = concat (rq_chunks request)" "0 \<le> limit \<Longrightarrow> int (length b) \<le> limit"
    using read_chunks_BodyRead [of limit "[]" "rq_chunks request" b]
      read_chunks_bound [of limit "[]" "rq_chunks request" b] by simp_all
qed

text \<open>What the loop holds in memory at any time: at most the limit and one chunk.\<close>

fun buffered :: "int \<Rightarrow> bytes \<Rightarrow> bytes list \<Rightarrow> bytes list" where
  "buffered limit body [] = [body]"
| "buffered limit body (c # cs) =
     (let body' = body @ c
      in if int (length body') > limit then [body, body'] else body # buffered limit body' cs)"

lemma buffered_bound:
  "int (length body) \<le> limit \<Longrightarrow> \<forall>c \<in> set cs. length c \<le> k \<Longrightarrow> b \<in> set (buffered limit body cs) \<Longrightarrow>
     int (length b) \<le> limit + int k"
  by (induction limit body cs rule: buffered.induct) (auto simp: Let_def split: if_splits)

lemma int_of_digits_isdigit: "int_of_digits s = Some n \<Longrightarrow> py_isdigit s"
  by (auto simp: int_of_digits_def py_isdigit_def py_isdigit_cp_def split: if_splits)

lemma read_bounded_body_within:
  assumes "int (length (concat (rq_chunks request))) \<le> limit"
    and "\<And>s. header_get (str ''content-length'') (rq_headers request) = Some s \<Longrightarrow>
      int_of_digits s = Some (int (length (concat (rq_chunks request))))"
  shows "read_bounded_body limit request = BodyRead (concat (rq_chunks request))"
proof -
  have "length (concat (take n cs)) \<le> length (concat cs)" for n and cs :: "bytes list"
    by (metis append_take_drop_id concat_append le_add1 length_append)
  then have "int (length (concat (take n (rq_chunks request)))) \<le> limit" for n
    using assms(1) by (meson of_nat_le_iff order_trans)
  then have "read_chunks limit [] (rq_chunks request) = BodyRead (concat (rq_chunks request))"
    using read_chunks_BodyRead [of limit "[]" "rq_chunks request"] by simp
  then show ?thesis
    using assms(1) by (auto simp: read_bounded_body_def dest: assms(2) split: option.splits)
qed

end
