(* ===== verification/Gw_App.thy ===== *)
theory Gw_App
  imports Gw_Policy Http
begin

text \<open>
  \<open>mcp_gateway/app.py\<close>, \<open>proxy.py\<close> and \<open>config.py\<close>: the handlers of the gateway. A handler
  returns what it wrote to the audit log, the requests it sent downstream, and the response
  (\<open>None\<close> when an exception it does not handle escapes, which the server answers with a 500).
  The downstream server, behind \<open>httpx\<close>, is an argument: what it does with a request.
\<close>

section \<open>Configuration\<close>

record gw_config =
  gc_downstream_url :: pystr
  gc_timeout :: pyfloat
  gc_filter_tools_list :: bool
  gc_max_body_bytes :: int
  gc_enforce_allowlist :: bool

text \<open>\<open>Config.from_env\<close>; \<open>None\<close> is a \<open>ValueError\<close> from \<open>float\<close> or \<open>int\<close>.\<close>

definition gw_config_from_env :: "py_runtime \<Rightarrow> gw_config option" where
  "gw_config_from_env rt =
     (case (rt_float rt (getenv rt ''MCP_GATEWAY_TIMEOUT'' ''30''),
            py_int (getenv rt ''MCP_GATEWAY_MAX_BODY_BYTES'' ''1048576'')) of
        (Some t, Some n) \<Rightarrow> Some
          \<lparr>gc_downstream_url = getenv rt ''MCP_DOWNSTREAM_URL'' ''http://127.0.0.1:8081/mcp'',
           gc_timeout = t,
           gc_filter_tools_list = py_lower (getenv rt ''MCP_GATEWAY_FILTER_TOOLS_LIST'' '''')
             \<in> str ` {''1'', ''true'', ''yes''},
           gc_max_body_bytes = n,
           gc_enforce_allowlist = py_lower (getenv rt ''MCP_GATEWAY_METHOD_ALLOWLIST'' ''on'')
             \<notin> str ` {''0'', ''off'', ''false'', ''no''}\<rparr>
      | _ \<Rightarrow> None)"

section \<open>The proxy\<close>

definition HOP_BY_HOP :: "pystr list" where
  "HOP_BY_HOP = map str [''connection'', ''keep-alive'', ''proxy-authenticate'',
     ''proxy-authorization'', ''te'', ''trailer'', ''transfer-encoding'', ''upgrade'',
     ''content-length'', ''host'']"

definition STRIP_FROM_CLIENT :: "pystr list" where
  "STRIP_FROM_CLIENT =
     map str [''authorization'', ''x-forwarded-user'', ''x-forwarded-role''] @ HOP_BY_HOP"

definition build_downstream_headers :: "headers \<Rightarrow> principal \<Rightarrow> headers" where
  "build_downstream_headers incoming caller =
     (let hs = dict_of (filter (\<lambda>(k, v). py_lower k \<notin> set STRIP_FROM_CLIENT) incoming)
      in AList.update (str ''x-forwarded-role'') (pr_role caller)
           (AList.update (str ''x-forwarded-user'') (pr_subject caller) hs))"

definition filter_response_headers :: "headers \<Rightarrow> headers" where
  "filter_response_headers hs = dict_of (filter (\<lambda>(k, v). py_lower k \<notin> set HOP_BY_HOP) hs)"

record forwarded =
  fw_method :: pystr
  fw_url :: pystr
  fw_body :: bytes
  fw_headers :: headers
  fw_timeout :: pyfloat

record http_answer =
  an_status :: int
  an_headers :: headers
  an_content :: bytes

text \<open>How an \<open>httpx\<close> call ends.\<close>

datatype httpx_result =
    Answered http_answer
  | HttpxTimeout  \<comment> \<open>\<open>httpx.TimeoutException\<close>\<close>
  | HttpxError  \<comment> \<open>any other \<open>httpx.HTTPError\<close>\<close>
  | OtherException  \<comment> \<open>anything else, not handled by the gateway\<close>

type_synonym downstream = "forwarded \<Rightarrow> httpx_result"

datatype forward_failure = DownstreamError pystr | Escaped

definition forward :: "downstream \<Rightarrow> forwarded \<Rightarrow> forward_failure + http_answer" where
  "forward ds request =
     (case ds request of
        Answered a \<Rightarrow> Inr a
      | HttpxTimeout \<Rightarrow> Inl (DownstreamError (str ''The upstream MCP server did not respond in time.''))
      | HttpxError \<Rightarrow> Inl (DownstreamError (str ''The upstream MCP server is unavailable.''))
      | OtherException \<Rightarrow> Inl Escaped)"

section \<open>Responses and the audit log\<close>

definition unauthenticated :: "pystr \<Rightarrow> http_response" where
  "unauthenticated detail =
     json_response (error_response INVALID_REQUEST detail JNull None) 401
       [(str ''WWW-Authenticate'', str ''Bearer realm=\"mcp-gateway\"'')]"

definition opt_str :: "pystr option \<Rightarrow> json" where
  "opt_str x = (case x of None \<Rightarrow> JNull | Some s \<Rightarrow> JStr s)"

definition denial_response :: "rpc_message \<Rightarrow> denial \<Rightarrow> json option" where
  "denial_response m d =
     (if \<not> rm_is_request m then None
      else Some (error_response (dn_code d) (dn_message d) (rm_id m)
        (Some (JObj [(str ''method'', JStr (rm_method m)), (str ''tool'', opt_str (tool_name m))]))))"

text \<open>One line of the audit log; \<open>sort_keys=True\<close>.\<close>

definition audit_record :: "py_runtime \<Rightarrow> jobject \<Rightarrow> pystr" where
  "audit_record rt fs = dumps_compact (rt_repr rt) (JObj (sort_key fst fs))"

definition decision_fields :: "principal \<Rightarrow> rpc_message \<Rightarrow> denial option \<Rightarrow> jobject" where
  "decision_fields caller m d =
     [(str ''decision'', JStr (if d \<noteq> None then str ''DENY'' else str ''ALLOW'')),
      (str ''subject'', JStr (pr_subject caller)), (str ''role'', JStr (pr_role caller)),
      (str ''method'', JStr (rm_method m)), (str ''tool'', opt_str (tool_name m)),
      (str ''reason'', opt_str (map_option dn_reason d))]"

definition log_decision :: "py_runtime \<Rightarrow> principal \<Rightarrow> rpc_message \<Rightarrow> denial option \<Rightarrow> pystr" where
  "log_decision rt caller m d = audit_record rt (decision_fields caller m d)"

section \<open>The handler of POST\<close>

record gw_outcome =
  go_audit :: "pystr list"
  go_forwarded :: "forwarded list"
  go_response :: "http_response option"

definition listed_privileged :: "unicode_db \<Rightarrow> json \<Rightarrow> bool" where
  "listed_privileged db tool =
     (case tool of
        JObj d \<Rightarrow> (case jget (str ''name'') d of JStr s \<Rightarrow> is_privileged_tool db s | _ \<Rightarrow> False)
      | _ \<Rightarrow> False)"

definition filter_tools_list :: "unicode_db \<Rightarrow> principal \<Rightarrow> json \<Rightarrow> json" where
  "filter_tools_list db caller payload =
     (if pr_is_admin caller then payload
      else
        (case payload of
           JObj d \<Rightarrow>
             (case jget (str ''result'') d of
                JObj result \<Rightarrow>
                  (case jget (str ''tools'') result of
                     JArr tools \<Rightarrow>
                       JObj (AList.update (str ''result'')
                         (JObj (AList.update (str ''tools'')
                            (JArr (filter (\<lambda>t. \<not> listed_privileged db t) tools)) result)) d)
                   | _ \<Rightarrow> payload)
              | _ \<Rightarrow> payload)
         | _ \<Rightarrow> payload))"

text \<open>The loop over the messages: those allowed, the error objects of the others, the log.\<close>

fun decide_messages ::
    "py_runtime \<Rightarrow> gw_config \<Rightarrow> principal \<Rightarrow> rpc_message list
       \<Rightarrow> rpc_message list \<times> json list \<times> pystr list" where
  "decide_messages rt cfg caller [] = ([], [], [])"
| "decide_messages rt cfg caller (m # ms) =
     (let d = evaluate (rt_ucd rt) (gc_enforce_allowlist cfg) caller m;
          line = log_decision rt caller m d;
          (allowed, denials, lines) = decide_messages rt cfg caller ms
      in case d of
           None \<Rightarrow> (m # allowed, denials, line # lines)
         | Some dn \<Rightarrow>
             (allowed,
              (case denial_response m dn of None \<Rightarrow> denials | Some r \<Rightarrow> r # denials),
              line # lines))"

definition build_client_response ::
    "py_runtime \<Rightarrow> gw_config \<Rightarrow> principal \<Rightarrow> json list \<Rightarrow> http_answer \<Rightarrow> http_response" where
  "build_client_response rt cfg caller denials answer =
     (let hs = filter_response_headers (an_headers answer);
          content_type = (case header_get (str ''content-type'') (an_headers answer) of
             None \<Rightarrow> [] | Some t \<Rightarrow> t);
          is_json = prefix (str ''application/json'') content_type
      in if denials = [] \<and> \<not> (gc_filter_tools_list cfg \<and> is_json)
         then \<lparr>hr_status = an_status answer, hr_headers = hs,
               hr_media = (if content_type = [] then None else Some content_type),
               hr_body = RawBody (an_content answer)\<rparr>
         else if \<not> is_json then json_response (JArr denials) (an_status answer) []
         else
           (case loads_bytes (an_content answer) of
              Inl e \<Rightarrow>
                json_response (JArr (denials @ [error_response UPSTREAM_UNAVAILABLE
                  (str ''Malformed response from the upstream MCP server.'') JNull None])) 502 []
            | Inr payload0 \<Rightarrow>
                (let payload =
                       (if gc_filter_tools_list cfg then
                          (case payload0 of
                             JArr xs \<Rightarrow> JArr (map (filter_tools_list (rt_ucd rt) caller) xs)
                           | _ \<Rightarrow> filter_tools_list (rt_ucd rt) caller payload0)
                        else payload0);
                     merged =
                       (if denials \<noteq> [] then
                          JArr ((case payload of JArr xs \<Rightarrow> xs | _ \<Rightarrow> [payload]) @ denials)
                        else payload)
                 in json_response merged (an_status answer) [])))"

definition forward_body_of :: "py_runtime \<Rightarrow> bytes \<Rightarrow> parsed_payload \<Rightarrow> rpc_message list \<Rightarrow> bytes" where
  "forward_body_of rt body parsed allowed =
     (if length allowed = length (pp_messages parsed) then body
      else if pp_is_batch parsed
      then dumps_bytes (rt_repr rt) (JArr (map (\<lambda>m. JObj (rm_raw m)) allowed))
      else dumps_bytes (rt_repr rt) (JObj (rm_raw (hd allowed))))"

text \<open>The part of the handler after the payload has been parsed.\<close>

definition handle_parsed ::
    "py_runtime \<Rightarrow> gw_config \<Rightarrow> downstream \<Rightarrow> principal \<Rightarrow> headers \<Rightarrow> bytes \<Rightarrow> parsed_payload \<Rightarrow> gw_outcome" where
  "handle_parsed rt cfg ds caller hs body parsed =
     (let (allowed, denials, lines) = decide_messages rt cfg caller (pp_messages parsed)
      in if allowed = [] then
           \<lparr>go_audit = lines, go_forwarded = [],
            go_response = Some
              (if denials = []
               then \<lparr>hr_status = 204, hr_headers = [], hr_media = None, hr_body = NoBody\<rparr>
               else json_response (if pp_is_batch parsed then JArr denials else hd denials) 200 [])\<rparr>
         else
           (let request = \<lparr>fw_method = str ''POST'', fw_url = gc_downstream_url cfg,
                  fw_body = forward_body_of rt body parsed allowed,
                  fw_headers = build_downstream_headers hs caller, fw_timeout = gc_timeout cfg\<rparr>
            in \<lparr>go_audit = lines, go_forwarded = [request],
                go_response =
                  (case forward ds request of
                     Inl (DownstreamError summary) \<Rightarrow>
                       (let err = error_response UPSTREAM_UNAVAILABLE summary
                              (if rm_is_request (hd allowed) then rm_id (hd allowed) else JNull) None
                        in Some (json_response
                             (if pp_is_batch parsed then JArr (denials @ [err]) else err) 502 []))
                   | Inl Escaped \<Rightarrow> None
                   | Inr answer \<Rightarrow> Some (build_client_response rt cfg caller denials answer))\<rparr>))"

definition handle_mcp_post :: "py_runtime \<Rightarrow> gw_config \<Rightarrow> downstream \<Rightarrow> http_request \<Rightarrow> gw_outcome" where
  "handle_mcp_post rt cfg ds request =
     (case resolve_principal (rt_environ rt) (header_get (str ''authorization'') (rq_headers request)) of
        Inl detail \<Rightarrow>
          \<lparr>go_audit = [audit_record rt [(str ''decision'', JStr (str ''DENY'')),
             (str ''reason'', JStr (str ''authentication_failed'')), (str ''detail'', JStr detail)]],
           go_forwarded = [], go_response = Some (unauthenticated detail)\<rparr>
      | Inr caller \<Rightarrow>
          (case read_bounded_body (gc_max_body_bytes cfg) request of
             BadContentLength \<Rightarrow> \<lparr>go_audit = [], go_forwarded = [], go_response = None\<rparr>
           | BodyTooLarge \<Rightarrow>
               \<lparr>go_audit = [audit_record rt [(str ''decision'', JStr (str ''DENY'')),
                  (str ''subject'', JStr (pr_subject caller)), (str ''role'', JStr (pr_role caller)),
                  (str ''reason'', JStr (str ''body_too_large''))]],
                go_forwarded = [],
                go_response = Some (json_response (error_response INVALID_REQUEST
                  (str ''Request body exceeds the configured limit.'') JNull None) 413 [])\<rparr>
           | BodyRead body \<Rightarrow>
               (case parse_payload (rt_ucd rt) body of
                  Inl (InvalidPayload code message i) \<Rightarrow>
                    \<lparr>go_audit = [], go_forwarded = [],
                     go_response = Some (json_response (error_response code message i None) 400 [])\<rparr>
                | Inl (Unhandled e) \<Rightarrow> \<lparr>go_audit = [], go_forwarded = [], go_response = None\<rparr>
                | Inr parsed \<Rightarrow> handle_parsed rt cfg ds caller (rq_headers request) body parsed)))"

section \<open>The relay of GET and DELETE, and the health check\<close>

definition handle_mcp_passthrough ::
    "py_runtime \<Rightarrow> gw_config \<Rightarrow> downstream \<Rightarrow> http_request \<Rightarrow> gw_outcome" where
  "handle_mcp_passthrough rt cfg ds request =
     (case resolve_principal (rt_environ rt) (header_get (str ''authorization'') (rq_headers request)) of
        Inl detail \<Rightarrow> \<lparr>go_audit = [], go_forwarded = [], go_response = Some (unauthenticated detail)\<rparr>
      | Inr caller \<Rightarrow>
          (let upstream = \<lparr>fw_method = rq_method request, fw_url = gc_downstream_url cfg, fw_body = [],
                 fw_headers = build_downstream_headers (rq_headers request) caller,
                 fw_timeout = gc_timeout cfg\<rparr>;
               unavailable = json_response (error_response UPSTREAM_UNAVAILABLE
                 (str ''The upstream MCP server is unavailable.'') JNull None) 502 []
           in \<lparr>go_audit = [audit_record rt [(str ''decision'', JStr (str ''ALLOW'')),
                 (str ''subject'', JStr (pr_subject caller)), (str ''role'', JStr (pr_role caller)),
                 (str ''method'', JStr (rq_method request)),
                 (str ''reason'', JStr (str ''transport_passthrough''))]],
               go_forwarded = [upstream],
               go_response =
                 (case ds upstream of
                    Answered a \<Rightarrow> Some
                      \<lparr>hr_status = an_status a, hr_headers = filter_response_headers (an_headers a),
                       hr_media = header_get (str ''content-type'') (an_headers a),
                       hr_body = RawBody (an_content a)\<rparr>
                  | HttpxTimeout \<Rightarrow> Some unavailable
                  | HttpxError \<Rightarrow> Some unavailable
                  | OtherException \<Rightarrow> None)\<rparr>))"

definition gw_handle_health :: "gw_config \<Rightarrow> http_response" where
  "gw_handle_health cfg =
     json_response (JObj [(str ''status'', JStr (str ''ok'')),
       (str ''downstream'', JStr (gc_downstream_url cfg))]) 200 []"

end
