(* ===== verification/Gw_Safety.thy ===== *)
theory Gw_Safety
  imports Gw_App "HOL-Library.Multiset"
begin

text \<open>
  What the gateway guarantees: no request reaches the downstream server unless its caller is
  authenticated and every message in it, as \<^emph>\<open>any\<close> JSON parser reads it, is allowed; privileged
  tools are reached by administrators only; refusals are answered and notifications are not;
  every decision is one line of the audit log that no tool name can forge.
\<close>

section \<open>The loop is the screen of the policy gate\<close>

definition denial_objects :: "(rpc_message \<times> denial) list \<Rightarrow> json list" where
  "denial_objects mds = concat (map (\<lambda>(m, d). case denial_response m d of None \<Rightarrow> [] | Some r \<Rightarrow> [r]) mds)"

lemma decide_messages_screen:
  fixes rt cfg caller
  defines "decide \<equiv> evaluate (rt_ucd rt) (gc_enforce_allowlist cfg) caller"
  shows "decide_messages rt cfg caller ms =
    (fst (screen decide ms), denial_objects (snd (screen decide ms)),
     map (\<lambda>m. log_decision rt caller m (decide m)) ms)"
  unfolding decide_def
  by (induction ms) (auto simp: screen_def denial_objects_def Let_def split: option.splits prod.splits)

text \<open>The messages a request lets through.\<close>

definition allowed_of :: "py_runtime \<Rightarrow> gw_config \<Rightarrow> principal \<Rightarrow> rpc_message list \<Rightarrow> rpc_message list" where
  "allowed_of rt cfg caller ms =
     filter (\<lambda>m. evaluate (rt_ucd rt) (gc_enforce_allowlist cfg) caller m = None) ms"

definition denied_of :: "py_runtime \<Rightarrow> gw_config \<Rightarrow> principal \<Rightarrow> rpc_message list \<Rightarrow> json list" where
  "denied_of rt cfg caller ms =
     denial_objects (snd (screen (evaluate (rt_ucd rt) (gc_enforce_allowlist cfg) caller) ms))"

lemma decide_messages_eq:
  "decide_messages rt cfg caller ms =
     (allowed_of rt cfg caller ms, denied_of rt cfg caller ms,
      map (\<lambda>m. log_decision rt caller m (evaluate (rt_ucd rt) (gc_enforce_allowlist cfg) caller m)) ms)"
  by (simp add: decide_messages_screen allowed_of_def denied_of_def screen_def)

lemma set_denied_of:
  "r \<in> set (denied_of rt cfg caller ms) \<longleftrightarrow>
     (\<exists>m d. m \<in> set ms \<and> evaluate (rt_ucd rt) (gc_enforce_allowlist cfg) caller m = Some d \<and>
        denial_response m d = Some r)"
  by (force simp: denied_of_def denial_objects_def screen_def split: option.splits)

lemma handle_parsed_forwarded:
  "go_forwarded (handle_parsed rt cfg ds caller hs body parsed) =
     (let allowed = allowed_of rt cfg caller (pp_messages parsed)
      in if allowed = [] then []
         else [\<lparr>fw_method = str ''POST'', fw_url = gc_downstream_url cfg,
                  fw_body = forward_body_of rt body parsed allowed,
                  fw_headers = build_downstream_headers hs caller, fw_timeout = gc_timeout cfg\<rparr>])"
  by (simp add: handle_parsed_def decide_messages_eq Let_def)

lemma handle_parsed_audit:
  "go_audit (handle_parsed rt cfg ds caller hs body parsed) =
     map (\<lambda>m. log_decision rt caller m (evaluate (rt_ucd rt) (gc_enforce_allowlist cfg) caller m))
       (pp_messages parsed)"
  by (simp add: handle_parsed_def decide_messages_eq Let_def)

text \<open>A request that reaches the downstream server has passed every earlier stage.\<close>

lemma forwarded_cases:
  assumes "fw \<in> set (go_forwarded (handle_mcp_post rt cfg ds request))"
  obtains caller body parsed where
    "resolve_principal (rt_environ rt) (header_get (str ''authorization'') (rq_headers request)) = Inr caller"
    "read_bounded_body (gc_max_body_bytes cfg) request = BodyRead body"
    "parse_payload (rt_ucd rt) body = Inr parsed"
    "allowed_of rt cfg caller (pp_messages parsed) \<noteq> []"
    "fw_body fw = forward_body_of rt body parsed (allowed_of rt cfg caller (pp_messages parsed))"
    "fw_headers fw = build_downstream_headers (rq_headers request) caller"
    "fw_url fw = gc_downstream_url cfg"
  using assms
  by (auto simp: handle_mcp_post_def handle_parsed_forwarded Let_def
      split: sum.splits body_result.splits payload_failure.splits if_splits)

section \<open>One document for every parser\<close>

text \<open>
  A hook that keeps an object without repeated keys as it is; what it does with the others
  (keep the first, keep the last, refuse) is left open.
\<close>

definition keeps_distinct :: "pairs_hook \<Rightarrow> bool" where
  "keeps_distinct h \<longleftrightarrow> (\<forall>ps. distinct (map fst ps) \<longrightarrow> h ps = Inr ps)"

lemma keeps_distinctD: "keeps_distinct h \<Longrightarrow> reject_duplicate_keys ps = Inr d \<Longrightarrow> h ps = Inr d"
  by (simp add: keeps_distinct_def reject_duplicate_keys_Inr)

lemma keeps_distinct_reject: "keeps_distinct reject_duplicate_keys"
  by (simp add: keeps_distinct_def reject_duplicate_keys_Inr)

lemma keeps_distinct_last: "keeps_distinct (\<lambda>ps. Inr (dict_of ps))"
  by (simp add: keeps_distinct_def dict_of_distinct)

definition agrees :: "'e + 'a \<Rightarrow> 'e + 'a \<Rightarrow> bool" where
  "agrees r r' \<longleftrightarrow> (\<forall>x. r = Inr x \<longrightarrow> r' = Inr x)"

lemma agrees_refl: "agrees r r"
  by (simp add: agrees_def)

lemma agrees_and_then: "agrees r r' \<Longrightarrow> (\<And>x. agrees (f x) (f' x)) \<Longrightarrow> agrees (and_then r f) (and_then r' f')"
  by (auto simp: agrees_def result_simps)

lemma agrees_if: "agrees a a' \<Longrightarrow> agrees b b' \<Longrightarrow> agrees (if c then a else b) (if c then a' else b')"
  by simp

lemma agrees_prod: "(\<And>x y. agrees (f x y) (f' x y)) \<Longrightarrow> agrees (case p of (x, y) \<Rightarrow> f x y) (case p of (x, y) \<Rightarrow> f' x y)"
  by (cases p) simp

lemmas agrees_intros = agrees_and_then agrees_if agrees_prod agrees_refl

lemma parse_agree:
  assumes h: "keeps_distinct h"
  defines "g \<equiv> reject_duplicate_keys"
  shows "(\<forall>s. agrees (parse_value n g s) (parse_value n h s)) \<and>
    (\<forall>s. agrees (parse_elements n g s) (parse_elements n h s)) \<and>
    (\<forall>s. agrees (parse_members n g s) (parse_members n h s))"
proof (induction n)
  case 0
  then show ?case by (simp add: agrees_def)
next
  case (Suc n)
  have hook: "agrees (g ps) (h ps)" for ps
    using keeps_distinctD [OF h] by (simp add: agrees_def g_def)
  note agree = Suc [THEN conjunct1, rule_format] Suc [THEN conjunct2, THEN conjunct1, rule_format]
    Suc [THEN conjunct2, THEN conjunct2, rule_format] hook
  show ?case
    by (simp only: parse_value.simps parse_elements.simps parse_members.simps Let_def)
       (intro conjI allI agrees_intros agree)
qed

lemma loads_agree:
  assumes "keeps_distinct h" "loads_bytes_with reject_duplicate_keys b = Inr v"
  shows "loads_bytes_with h b = Inr v"
proof -
  obtain s r where s: "json_decode b = Some s" "\<not> prefix [65279] s" "skip_ws r = []"
      and "parse_value (2 * length s + 2) reject_duplicate_keys (skip_ws s) = Inr (v, r)"
    using assms(2)
    by (auto simp: loads_bytes_with_def json_loads_bytes_with_def json_loads_with_def
        simp del: parse_value.simps split: option.splits if_splits sum.splits prod.splits)
  then have "parse_value (2 * length s + 2) h (skip_ws s) = Inr (v, r)"
    using parse_agree [OF assms(1), of "2 * length s + 2"] unfolding agrees_def by blast
  with s show ?thesis
    by (simp add: loads_bytes_with_def json_loads_bytes_with_def json_loads_with_def
        del: parse_value.simps)
qed

section \<open>The forwarded body\<close>

text \<open>The document of a request, where there is one, prints and reads back.\<close>

definition document_wf :: "py_runtime \<Rightarrow> bytes \<Rightarrow> bool" where
  "document_wf rt body \<longleftrightarrow> (\<forall>x. printable_ascii (rt_repr rt x)) \<and>
     (case loads_bytes_with reject_duplicate_keys body of Inl e \<Rightarrow> True | Inr v \<Rightarrow> wf_json (rt_repr rt) v)"

lemma document_messages_wf: "wf_json fr v \<Longrightarrow> x \<in> set (document_messages v) \<Longrightarrow> wf_json fr x"
  by (auto simp: document_messages_def split: json.splits)

lemma filter_all_eq: "length (filter P xs) = length xs \<Longrightarrow> filter P xs = xs"
  by (metis filter_id_conv length_filter_less less_irrefl)

lemma forward_body_document:
  assumes p: "parse_payload db body = Inr parsed" and wf: "document_wf rt body"
    and h: "keeps_distinct h" and ne: "filter P (pp_messages parsed) \<noteq> []"
  shows "\<exists>v. loads_bytes_with h (forward_body_of rt body parsed (filter P (pp_messages parsed))) = Inr v \<and>
    document_messages v = map (\<lambda>m. JObj (rm_raw m)) (filter P (pp_messages parsed))"
proof -
  from p obtain document where d: "loads_bytes_with reject_duplicate_keys body = Inr document"
      "map JObj (map rm_raw (pp_messages parsed)) = document_messages document"
      "pp_is_batch parsed = is_list document"
    by (rule parse_payload_raw)
  let ?ms = "filter P (pp_messages parsed)"
  have fr: "printable_ascii (rt_repr rt x)" and wfd: "wf_json (rt_repr rt) document" for x
    using wf d(1) by (auto simp: document_wf_def)
  show ?thesis
  proof (cases "length ?ms = length (pp_messages parsed)")
    case True
    with d loads_agree [OF h d(1)] show ?thesis
      by (simp add: forward_body_of_def comp_def filter_all_eq)
  next
    case False
    have "1 < length (pp_messages parsed)"
    proof (rule ccontr)
      assume "\<not> 1 < length (pp_messages parsed)"
      moreover have "?ms \<noteq> []" by (rule ne)
      then have "0 < length ?ms" by simp
      ultimately show False
        using False length_filter_le [of P "pp_messages parsed"] by linarith
    qed
    then have "1 < length (document_messages document)"
      using arg_cong [OF d(2), of length] by simp
    then have "pp_is_batch parsed"
      using d(3) by (cases document) (auto simp: document_messages_def)
    moreover have "wf_json (rt_repr rt) (JObj (rm_raw m))" if "m \<in> set (pp_messages parsed)" for m
      using that d(2) [symmetric] by (intro document_messages_wf [OF wfd]) simp
    then have "wf_json (rt_repr rt) (JArr (map (\<lambda>m. JObj (rm_raw m)) ?ms))"
      by auto
    then have "loads_bytes_with h (dumps_bytes (rt_repr rt) (JArr (map (\<lambda>m. JObj (rm_raw m)) ?ms)))
        = Inr (JArr (map (\<lambda>m. JObj (rm_raw m)) ?ms))"
      using h by (intro loads_dumps_bytes [OF fr]) (auto simp: keeps_distinct_def)
    ultimately show ?thesis
      using False by (simp add: forward_body_of_def document_messages_def)
  qed
qed

section \<open>What reaches the downstream server\<close>

lemma forwards_allowed:
  assumes "fw \<in> set (go_forwarded (handle_mcp_post rt cfg ds request))"
    and "document_wf rt (concat (rq_chunks request))" and "keeps_distinct h"
  shows "\<exists>caller v.
    resolve_principal (rt_environ rt) (header_get (str ''authorization'') (rq_headers request)) = Inr caller \<and>
    loads_bytes_with h (fw_body fw) = Inr v \<and>
    (\<forall>x \<in> set (document_messages v).
       \<exists>m. parse_one x = Inr m \<and> evaluate (rt_ucd rt) (gc_enforce_allowlist cfg) caller m = None)"
  using assms(1)
proof (rule forwarded_cases)
  fix caller body parsed
  assume a: "resolve_principal (rt_environ rt) (header_get (str ''authorization'') (rq_headers request)) = Inr caller"
    "read_bounded_body (gc_max_body_bytes cfg) request = BodyRead body"
    "parse_payload (rt_ucd rt) body = Inr parsed"
    "allowed_of rt cfg caller (pp_messages parsed) \<noteq> []"
    "fw_body fw = forward_body_of rt body parsed (allowed_of rt cfg caller (pp_messages parsed))"
  let ?ok = "\<lambda>m. evaluate (rt_ucd rt) (gc_enforce_allowlist cfg) caller m = None"
  have "document_wf rt body"
    using assms(2) read_bounded_body_BodyRead(1) [OF a(2)] by simp
  from forward_body_document [OF a(3) this assms(3), of ?ok] a(4,5)
  obtain v where "loads_bytes_with h (fw_body fw) = Inr v"
      "document_messages v = map (\<lambda>m. JObj (rm_raw m)) (filter ?ok (pp_messages parsed))"
    by (auto simp: allowed_of_def)
  then show ?thesis
    using a(1) payload_message_ok [OF a(3)] by fastforce
qed

text \<open>A JSON value that calls a privileged tool.\<close>

definition calls_privileged :: "unicode_db \<Rightarrow> json \<Rightarrow> bool" where
  "calls_privileged db x =
     (case x of
        JObj d \<Rightarrow> jget (str ''method'') d = JStr TOOLS_CALL \<and>
          (case jget (str ''params'') d of
             JObj p \<Rightarrow> (case jget (str ''name'') p of JStr s \<Rightarrow> is_privileged_tool db s | _ \<Rightarrow> False)
           | _ \<Rightarrow> False)
      | _ \<Rightarrow> False)"

lemma calls_privileged_message: "parse_one x = Inr m \<Longrightarrow> calls_privileged db x \<Longrightarrow> privileged_call db m"
  by (auto simp: calls_privileged_def privileged_call_def parse_one_Inr split: json.splits)

section \<open>Answers and the audit log\<close>

text \<open>A request that got past authentication, the size limit and the parser.\<close>

definition admitted :: "py_runtime \<Rightarrow> gw_config \<Rightarrow> http_request \<Rightarrow> principal \<Rightarrow> parsed_payload \<Rightarrow> bool" where
  "admitted rt cfg request caller parsed \<longleftrightarrow>
     resolve_principal (rt_environ rt) (header_get (str ''authorization'') (rq_headers request)) = Inr caller \<and>
     (\<exists>body. read_bounded_body (gc_max_body_bytes cfg) request = BodyRead body \<and>
        parse_payload (rt_ucd rt) body = Inr parsed)"

lemma admitted_handle:
  "admitted rt cfg request caller parsed \<Longrightarrow>
     \<exists>body. handle_mcp_post rt cfg ds request = handle_parsed rt cfg ds caller (rq_headers request) body parsed"
  by (auto simp: admitted_def handle_mcp_post_def)

text \<open>A response body that holds an error object, alone or in an array.\<close>

fun answers :: "body \<Rightarrow> json \<Rightarrow> bool" where
  "answers (JsonBody j) r \<longleftrightarrow> j = r \<or> (\<exists>xs. j = JArr xs \<and> r \<in> set xs)"
| "answers _ r \<longleftrightarrow> False"

lemma build_client_response_answers:
  "r \<in> set denials \<Longrightarrow> answers (hr_body (build_client_response rt cfg caller denials answer)) r"
  by (auto simp: build_client_response_def Let_def json_response_def split: sum.splits)

lemma document_messages_single: "\<not> is_list d \<Longrightarrow> document_messages d = [d]"
  by (cases d) (auto simp: document_messages_def)

lemma single_denied:
  assumes "\<not> pp_is_batch parsed" "parse_payload db body = Inr parsed"
    "r \<in> set (denied_of rt cfg caller (pp_messages parsed))"
  shows "allowed_of rt cfg caller (pp_messages parsed) = []" "denied_of rt cfg caller (pp_messages parsed) = [r]"
proof -
  obtain m where m: "pp_messages parsed = [m]"
    using assms(1,2)
    by (cases "\<exists>d. parse_document d = Inr parsed \<and> \<not> is_list d")
       (auto simp: parse_payload_Inr parse_document_Inr document_messages_single list_all2_Cons1)
  with assms(3) show "allowed_of rt cfg caller (pp_messages parsed) = []"
      "denied_of rt cfg caller (pp_messages parsed) = [r]"
    by (auto simp: denied_of_def allowed_of_def denial_objects_def screen_def
        split: option.splits dest: sym [of "Some _"])
qed

lemma admitted_parsed: "admitted rt cfg request caller parsed \<Longrightarrow> \<exists>body. parse_payload (rt_ucd rt) body = Inr parsed"
  by (auto simp: admitted_def)

lemma handle_parsed_answers:
  assumes "r \<in> set (denied_of rt cfg caller (pp_messages parsed))" "parse_payload db b = Inr parsed"
    and "go_response (handle_parsed rt cfg ds caller hs body parsed) = Some resp"
  shows "answers (hr_body resp) r"
proof (cases "pp_is_batch parsed")
  case True
  with assms(1,3) show ?thesis
    by (auto simp: handle_parsed_def decide_messages_eq Let_def json_response_def
        build_client_response_answers split: if_splits sum.splits forward_failure.splits)
next
  case False
  note single = single_denied [OF False assms(2,1)]
  from assms(3) False show ?thesis
    by (auto simp: handle_parsed_def decide_messages_eq Let_def json_response_def single)
qed

text \<open>Records of strings: printable whatever the strings are.\<close>

lemma printable_strings:
  assumes "printable_ascii isep" "printable_ascii ksep" "\<forall>(k, v) \<in> set kvs. v = JNull \<or> (\<exists>s. v = JStr s)"
  shows "printable_ascii (dumps isep ksep fr (JObj kvs))"
proof -
  have "printable_ascii (dumps isep ksep fr v)" if "(k, v) \<in> set kvs" for k v
    using assms(3) that by (auto simp: str_def)
  then show ?thesis
    using assms(1,2) by (auto intro!: printable_join)
qed

lemma printable_audit:
  "\<forall>(k, v) \<in> set fs. v = JNull \<or> (\<exists>s. v = JStr s) \<Longrightarrow> printable_ascii (audit_record rt fs)"
  unfolding audit_record_def by (rule printable_strings) auto

lemma opt_str_string: "opt_str x = JNull \<or> (\<exists>s. opt_str x = JStr s)"
  by (auto simp: opt_str_def split: option.splits)

lemma printable_log_decision: "printable_ascii (log_decision rt caller m d)"
  unfolding log_decision_def
  by (rule printable_audit) (simp add: decision_fields_def opt_str_string)

lemma handle_mcp_post_printable:
  "line \<in> set (go_audit (handle_mcp_post rt cfg ds request)) \<Longrightarrow> printable_ascii line"
  by (auto simp: handle_mcp_post_def handle_parsed_audit printable_log_decision intro!: printable_audit
      split: sum.splits body_result.splits payload_failure.splits)

lemma decision_fields_distinct: "distinct (map fst (decision_fields caller m d))"
  by (simp add: decision_fields_def)

lemma wf_opt_str: "wf_json fr (opt_str x) \<longleftrightarrow> (\<forall>s. x = Some s \<longrightarrow> valid_str s)"
  by (auto simp: opt_str_def split: option.splits)

lemma evaluate_reason_valid: "evaluate db e caller m = Some d \<Longrightarrow> valid_str (dn_reason d)"
  by (auto simp: evaluate_def Let_def denials split: if_splits option.splits)

lemma decision_fields_wf:
  assumes "valid_str (pr_subject caller)" "valid_str (pr_role caller)" "valid_str (rm_method m)"
    "\<And>t. tool_name m = Some t \<Longrightarrow> valid_str t" "d = evaluate db e caller m"
  shows "wf_json fr (JObj (sort_key fst (decision_fields caller m d)))"
proof -
  have "distinct (map fst (sort_key fst (decision_fields caller m d)))"
    using decision_fields_distinct
    by (metis mset_map mset_sort mset_eq_imp_distinct_iff)
  moreover have "valid_str k \<and> wf_json fr v" if "(k, v) \<in> set (decision_fields caller m d)" for k v
    using that assms evaluate_reason_valid [of db e caller m]
    by (auto simp: decision_fields_def wf_opt_str simp del: tool_name.simps)
  ultimately show ?thesis by fastforce
qed

section \<open>A concrete request\<close>

text \<open>
  The runtime with the default tokens, and a viewer's batch of two calls: \<open>search_docs\<close> and
  the privileged \<open>Admin_reset\<close>.
\<close>

definition demo_rt :: py_runtime where
  "demo_rt = \<lparr>rt_ucd = small_db, rt_repr = (\<lambda>x. []), rt_environ = (\<lambda>k. None), rt_float = (\<lambda>t. None)\<rparr>"

definition demo_cfg :: gw_config where
  "demo_cfg = \<lparr>gc_downstream_url = str ''http://d'', gc_timeout = Fin 30, gc_filter_tools_list = False,
     gc_max_body_bytes = 1048576, gc_enforce_allowlist = True\<rparr>"

definition demo_call :: "int \<Rightarrow> string \<Rightarrow> json" where
  "demo_call i tool = JObj [(str ''jsonrpc'', JStr (str ''2.0'')), (str ''id'', JInt i),
     (str ''method'', JStr (str ''tools/call'')),
     (str ''params'', JObj [(str ''name'', JStr (str tool))])]"

definition demo_post :: "string \<Rightarrow> json \<Rightarrow> http_request" where
  "demo_post token doc = \<lparr>rq_method = str ''POST'',
     rq_headers = [(str ''authorization'', str ''Bearer '' @ str token)],
     rq_chunks = [dumps_bytes (rt_repr demo_rt) doc]\<rparr>"

definition demo_batch :: json where
  "demo_batch = JArr [demo_call 1 ''search_docs'', demo_call 2 ''Admin_reset'']"

definition demo_ds :: downstream where
  "demo_ds fw = Answered \<lparr>an_status = 200,
     an_headers = [(str ''content-type'', str ''application/json'')], an_content = str ''[{}]''\<rparr>"

abbreviation demo_viewer :: http_request where
  "demo_viewer \<equiv> demo_post ''viewer-token-xyz789'' demo_batch"

abbreviation demo_admin :: http_request where
  "demo_admin \<equiv> demo_post ''admin-token-abc123'' (demo_call 3 ''admin_reset'')"

lemma demo_wf_any:
  assumes "wf_json (rt_repr demo_rt) v"
  shows "document_wf demo_rt (dumps_bytes (rt_repr demo_rt) v)"
proof -
  have "loads_bytes_with reject_duplicate_keys (dumps_bytes (rt_repr demo_rt) v) = Inr v"
    using assms by (intro loads_dumps_bytes) (auto simp: demo_rt_def reject_duplicate_keys_Inr)
  with assms show ?thesis by (simp add: document_wf_def) (simp add: demo_rt_def)
qed

lemma demo_wf: "document_wf demo_rt (concat (rq_chunks demo_viewer))"
  "document_wf demo_rt (concat (rq_chunks demo_admin))"
  unfolding demo_post_def by (simp_all add: demo_wf_any demo_batch_def demo_call_def nat_digits.simps)

lemma demo_rt_ascii: "unicode_ascii (rt_ucd demo_rt)"
  by (simp add: demo_rt_def small_db_ascii)

definition sent :: "http_request \<Rightarrow> forwarded" where
  "sent request = hd (go_forwarded (handle_mcp_post demo_rt demo_cfg demo_ds request))"

lemma demo_sent:
  "go_forwarded (handle_mcp_post demo_rt demo_cfg demo_ds demo_viewer) = [sent demo_viewer]"
  "go_forwarded (handle_mcp_post demo_rt demo_cfg demo_ds demo_admin) = [sent demo_admin]"
  by code_simp+

lemma demo_sent_document:
  "loads_bytes_with reject_duplicate_keys (fw_body (sent demo_viewer)) = Inr (JArr [demo_call 1 ''search_docs''])"
  "loads_bytes_with reject_duplicate_keys (fw_body (sent demo_admin)) = Inr (demo_call 3 ''admin_reset'')"
  by code_simp+

definition demo_principal :: principal where
  "demo_principal = \<lparr>pr_subject = str ''analyst@example.com'', pr_role = str ''viewer''\<rparr>"

definition demo_message :: "int \<Rightarrow> string \<Rightarrow> rpc_message" where
  "demo_message i tool = \<lparr>rm_method = str ''tools/call'', rm_params = JObj [(str ''name'', JStr (str tool))],
     rm_id = JInt i, rm_is_request = True,
     rm_raw = [(str ''jsonrpc'', JStr (str ''2.0'')), (str ''id'', JInt i),
       (str ''method'', JStr (str ''tools/call'')), (str ''params'', JObj [(str ''name'', JStr (str tool))])]\<rparr>"

definition demo_parsed :: parsed_payload where
  "demo_parsed = \<lparr>pp_messages = [demo_message 1 ''search_docs'', demo_message 2 ''Admin_reset''], pp_is_batch = True\<rparr>"

lemma demo_admitted: "admitted demo_rt demo_cfg demo_viewer demo_principal demo_parsed"
proof -
  have "resolve_principal (rt_environ demo_rt) (header_get (str ''authorization'') (rq_headers demo_viewer))
      = Inr demo_principal"
    by code_simp
  moreover have "read_bounded_body (gc_max_body_bytes demo_cfg) demo_viewer = BodyRead (hd (rq_chunks demo_viewer))"
    by code_simp
  moreover have "parse_payload (rt_ucd demo_rt) (hd (rq_chunks demo_viewer)) = Inr demo_parsed"
    by code_simp
  ultimately show ?thesis by (auto simp: admitted_def)
qed

lemma demo_denied:
  "evaluate (rt_ucd demo_rt) (gc_enforce_allowlist demo_cfg) demo_principal (demo_message 2 ''Admin_reset'') = Some deny_role"
  by code_simp

text \<open>A notification of an unknown method, and a tool name made to forge an audit line.\<close>

definition demo_notify :: http_request where
  "demo_notify = demo_post ''viewer-token-xyz789''
     (JObj [(str ''jsonrpc'', JStr (str ''2.0'')), (str ''method'', JStr (str ''x''))])"

definition demo_notify_parsed :: parsed_payload where
  "demo_notify_parsed = \<lparr>pp_messages = [\<lparr>rm_method = str ''x'', rm_params = JNull, rm_id = JNull,
     rm_is_request = False, rm_raw = [(str ''jsonrpc'', JStr (str ''2.0'')), (str ''method'', JStr (str ''x''))]\<rparr>],
     pp_is_batch = False\<rparr>"

lemma demo_notify_admitted: "admitted demo_rt demo_cfg demo_notify demo_principal demo_notify_parsed"
proof -
  have "resolve_principal (rt_environ demo_rt) (header_get (str ''authorization'') (rq_headers demo_notify))
      = Inr demo_principal"
    by code_simp
  moreover have "read_bounded_body (gc_max_body_bytes demo_cfg) demo_notify = BodyRead (hd (rq_chunks demo_notify))"
    by code_simp
  moreover have "parse_payload (rt_ucd demo_rt) (hd (rq_chunks demo_notify)) = Inr demo_notify_parsed"
    by code_simp
  ultimately show ?thesis by (auto simp: admitted_def)
qed

definition demo_forger :: rpc_message where
  "demo_forger = \<lparr>rm_method = str ''tools/call'',
     rm_params = JObj [(str ''name'', JStr (str ''safe'' @ 10 # str ''{\"decision\":\"ALLOW\",\"role\":\"admin\"}''))],
     rm_id = JInt 1, rm_is_request = True, rm_raw = []\<rparr>"

section \<open>Properties\<close>




lemma demo_admin_privileged: "calls_privileged (rt_ucd demo_rt) (demo_call 3 ''admin_reset'')"
  by code_simp


text \<open>
  Without a principal nothing is contacted: a request whose \<open>Authorization\<close> header does
  not resolve is answered with a 401 that names the Bearer scheme, on POST and on the relay of
  GET and DELETE, and no request is sent downstream.
\<close>

theorem gateway_unauthenticated:
  assumes "resolve_principal (rt_environ rt) (header_get (str ''authorization'') (rq_headers request)) = Inl detail"
    and "outcome \<in> {handle_mcp_post rt cfg ds request, handle_mcp_passthrough rt cfg ds request}"
  shows "go_forwarded outcome = [] \<and>
    (\<exists>resp. go_response outcome = Some resp \<and> hr_status resp = 401 \<and>
       header_get (str ''WWW-Authenticate'') (hr_headers resp) = Some (str ''Bearer realm=\"mcp-gateway\"'') \<and>
       hr_body resp = JsonBody (error_response INVALID_REQUEST detail JNull None))"
  using assms
  by (auto simp: handle_mcp_post_def handle_mcp_passthrough_def unauthenticated_def json_response_def header_get_def)

theorem gateway_unauthenticated_witness:
  "go_forwarded (handle_mcp_post demo_rt demo_cfg demo_ds (demo_post ''nobody'' demo_batch)) = []"
proof -
  have "resolve_principal (rt_environ demo_rt)
      (header_get (str ''authorization'') (rq_headers (demo_post ''nobody'' demo_batch)))
      = Inl (str ''Invalid or unknown bearer token.'')"
    by code_simp
  from gateway_unauthenticated [OF this insertI1, of demo_cfg demo_ds] show ?thesis by blast
qed



text \<open>
  When everything in a payload is refused nothing is contacted, and when moreover all of it
  is notifications the answer is an empty 204: a notification never gets a response object.
\<close>

theorem gateway_silent_notifications:
  assumes "admitted rt cfg request caller parsed"
    and "\<forall>m \<in> set (pp_messages parsed). evaluate (rt_ucd rt) (gc_enforce_allowlist cfg) caller m \<noteq> None"
  shows "go_forwarded (handle_mcp_post rt cfg ds request) = [] \<and>
    ((\<forall>m \<in> set (pp_messages parsed). \<not> rm_is_request m) \<longrightarrow>
       go_response (handle_mcp_post rt cfg ds request) =
         Some \<lparr>hr_status = 204, hr_headers = [], hr_media = None, hr_body = NoBody\<rparr>)"
proof -
  have none: "allowed_of rt cfg caller (pp_messages parsed) = []"
    using assms(2) by (simp add: allowed_of_def filter_empty_conv)
  have "denied_of rt cfg caller (pp_messages parsed) = []" if "\<forall>m \<in> set (pp_messages parsed). \<not> rm_is_request m"
  proof (rule ccontr)
    assume "denied_of rt cfg caller (pp_messages parsed) \<noteq> []"
    then obtain r where "r \<in> set (denied_of rt cfg caller (pp_messages parsed))"
      by (meson last_in_set)
    with that show False by (auto simp: set_denied_of denial_response_def)
  qed
  with none admitted_handle [OF assms(1), of ds] show ?thesis
    by (auto simp: handle_parsed_def decide_messages_eq)
qed

theorem gateway_silent_notifications_witness:
  "go_response (handle_mcp_post demo_rt demo_cfg demo_ds demo_notify) =
     Some \<lparr>hr_status = 204, hr_headers = [], hr_media = None, hr_body = NoBody\<rparr>"
proof -
  have "\<forall>m \<in> set (pp_messages demo_notify_parsed). evaluate (rt_ucd demo_rt) (gc_enforce_allowlist demo_cfg) demo_principal m \<noteq> None"
    by code_simp
  from gateway_silent_notifications [OF demo_notify_admitted this, of demo_ds] show ?thesis
    by (simp add: demo_notify_parsed_def)
qed

text \<open>
  C17. The audit log of a payload is complete and cannot be forged: one line per message, in
  order, each the record of the decision taken on it; and every line the handler ever writes is
  printable ASCII, so that no method, tool name, subject or role can end a line.
\<close>

theorem gateway_audit_complete:
  assumes "admitted rt cfg request caller parsed"
  shows "go_audit (handle_mcp_post rt cfg ds request) =
      map (\<lambda>m. log_decision rt caller m (evaluate (rt_ucd rt) (gc_enforce_allowlist cfg) caller m))
        (pp_messages parsed) \<and>
    (\<forall>line \<in> set (go_audit (handle_mcp_post rt cfg ds request)). printable_ascii line)"
  using admitted_handle [OF assms, of ds] handle_mcp_post_printable by (auto simp: handle_parsed_audit)

theorem gateway_audit_complete_witness:
  "length (go_audit (handle_mcp_post demo_rt demo_cfg demo_ds demo_viewer)) = 2"
  using gateway_audit_complete [OF demo_admitted, of demo_ds] by (simp add: demo_parsed_def)

text \<open>
  An audit line reads back, by \<open>json.loads\<close>, as exactly the fields of the decision: the
  subject, role, method, tool and reason are recovered whatever characters they hold.
\<close>

theorem audit_line_reads_back:
  assumes "valid_str (pr_subject caller)" "valid_str (pr_role caller)" "valid_str (rm_method m)"
    and "\<forall>t. tool_name m = Some t \<longrightarrow> valid_str t" and "d = evaluate db e caller m"
  shows "json_loads (log_decision rt caller m d) = Inr (JObj (sort_key fst (decision_fields caller m d)))"
  unfolding log_decision_def audit_record_def
  using decision_fields_wf [of caller m d db e] assms
  by (intro loads_dumps) (auto simp: separator_def json_ws_def)

theorem audit_line_reads_back_witness:
  "json_loads (log_decision demo_rt demo_principal demo_forger
       (evaluate small_db True demo_principal demo_forger)) =
     Inr (JObj (sort_key fst (decision_fields demo_principal demo_forger
       (evaluate small_db True demo_principal demo_forger))))"
  by (rule audit_line_reads_back [OF _ _ _ _ refl]) (simp_all add: demo_principal_def demo_forger_def valid_cp_def)

text \<open>
  The decision on every branch, with the allowlist on: a message is allowed exactly when
  its method is known and, for \<open>tools/call\<close>, its params name a tool by a string that is not
  privileged, or the caller is an administrator.
\<close>

theorem evaluate_allows_iff:
  assumes "unicode_ascii db"
  shows "evaluate db True p m = None \<longleftrightarrow>
    rm_method m \<in> set KNOWN_METHODS \<and>
    (rm_method m = str ''tools/call'' \<longrightarrow>
       (\<exists>name. tool_name m = Some name \<and> (is_privileged_tool db name \<longrightarrow> pr_is_admin p)))"
  using evaluate_allow_iff [OF assms] by (simp add: TOOLS_CALL_def)

theorem evaluate_allows_iff_witness: "evaluate small_db True demo_principal (demo_message 1 ''search_docs'') = None"
proof -
  have "\<not> is_privileged_tool small_db (str ''search_docs'')" by code_simp
  then show ?thesis
    using evaluate_allows_iff [OF small_db_ascii, of demo_principal "demo_message 1 ''search_docs''"]
    by (simp add: demo_message_def KNOWN_METHODS_def)
qed

text \<open>
  An ASCII tool name is privileged exactly when, blanks and control characters removed
  anywhere in it and its case folded, it starts with \<open>admin_\<close>; so no ASCII disguise of a
  privileged name by case or invisible characters escapes the check.
\<close>

theorem privileged_ascii_iff:
  assumes "unicode_ascii db" "ascii_str s"
  shows "is_privileged_tool db s \<longleftrightarrow>
    prefix (str ''admin_'') (map lower_cp (filter (\<lambda>c. 32 < c \<and> c \<noteq> 127) s))"
  using normalize_tool_name_ascii [OF assms]
  by (simp add: is_privileged_tool_def ADMIN_TOOL_PREFIX_def py_lower_def ascii_visible_def [abs_def])

theorem privileged_ascii_iff_witness: "is_privileged_tool small_db (str '' AdMi n_x'')"
  by (subst privileged_ascii_iff [OF small_db_ascii]) (simp_all add: str_def lower_cp_def)

text \<open>
  The look-alikes the documentation of the gateway names: full-width letters, a byte order mark
  in front, a zero-width space within, the Turkish dotted capital I, an acute accent.
\<close>

lemma look_alikes:
  "is_privileged_tool small_db (65345 # str ''dmin_x'')"
  "is_privileged_tool small_db (65279 # str ''admin_x'')"
  "is_privileged_tool small_db (str ''adm'' @ 8203 # str ''in_x'')"
  "is_privileged_tool small_db (str ''ADM'' @ 304 # str ''N_x'')"
  "is_privileged_tool small_db (225 # str ''dmin_x'')"
  by code_simp+

end
