(* ===== verification/Gw_Edges.thy ===== *)
theory Gw_Edges
  imports Gw_Safety
begin

text \<open>
  The edges of the gateway: what the parser refuses, the headers that cross it in both
  directions, the resolution of tokens, the filtered tool list, and the behaviours of the
  handler that differ from what its documentation says (a body that raises, the headers and
  the status of a merged response).
\<close>

section \<open>Failures of the parser\<close>

lemma reject_fuel: "reject_duplicate_keys ps \<noteq> Inl OutOfFuel"
  using reject_loop_Inl by (fastforce simp: reject_duplicate_keys_def)

lemma loads_reject_fuel: "loads_bytes_with reject_duplicate_keys b \<noteq> Inl OutOfFuel"
  using json_loads_fuel [OF reject_fuel]
  by (auto simp: loads_bytes_with_def json_loads_bytes_with_def split: option.splits)

lemma parse_payload_unhandled:
  "parse_payload db body = Inl (Unhandled e) \<longleftrightarrow>
     bytes_strip body \<noteq> [] \<and> loads_bytes_with reject_duplicate_keys body = Inl e \<and>
     (e = BadEncoding \<or> e = TooManyDigits)"
  (is "?l \<longleftrightarrow> ?r")
proof
  assume l: ?l
  then have e: "loads_bytes_with reject_duplicate_keys body = Inl e" "\<not> is_decode_error e"
    using parse_payload_failure [OF l] by auto
  have "bytes_strip body \<noteq> []" using l by (auto simp: parse_payload_def)
  moreover have "e \<noteq> OutOfFuel" using loads_reject_fuel e(1) by auto
  moreover have "e \<noteq> DuplicateKey k" for k
    using l e(1) calculation(1) by (auto simp: parse_payload_def)
  ultimately show ?r using e by (cases e) auto
next
  assume ?r
  then show ?l by (auto simp: parse_payload_def)
qed

section \<open>Headers\<close>

lemma update_keys: "fst ` set (AList.update k v d) = insert k (fst ` set d)"
  by (induction d) auto

lemma strip_list_lower:
  "py_lower (str ''x-forwarded-user'') \<in> set STRIP_FROM_CLIENT"
  "py_lower (str ''x-forwarded-role'') \<in> set STRIP_FROM_CLIENT"
  by (simp_all add: STRIP_FROM_CLIENT_def str_def py_lower_def lower_cp_def)

lemma build_downstream_headers_lookup:
  "header_get k (build_downstream_headers incoming caller) =
     (if k = str ''x-forwarded-role'' then Some (pr_role caller)
      else if k = str ''x-forwarded-user'' then Some (pr_subject caller)
      else if py_lower k \<in> set STRIP_FROM_CLIENT then None
      else header_get k (rev incoming))"
proof -
  have "map_of (filter (\<lambda>(k, v). P k) xs) k = (if P k then map_of xs k else None)" for P and xs :: headers
    by (induction xs) auto
  moreover have "rev (filter (\<lambda>(k, v). py_lower k \<notin> set STRIP_FROM_CLIENT) incoming) =
      filter (\<lambda>(k, v). py_lower k \<notin> set STRIP_FROM_CLIENT) (rev incoming)"
    by (simp add: rev_filter)
  ultimately show ?thesis
    by (simp add: header_get_def build_downstream_headers_def map_of_dict_of)
qed

section \<open>The filtered list of tools\<close>

fun listed_tools :: "json \<Rightarrow> json list" where
  "listed_tools payload =
     (case payload of
        JObj d \<Rightarrow> (case jget (str ''result'') d of
            JObj r \<Rightarrow> (case jget (str ''tools'') r of JArr ts \<Rightarrow> ts | _ \<Rightarrow> [])
          | _ \<Rightarrow> [])
      | _ \<Rightarrow> [])"

lemma jget_update: "jget k (AList.update k' v d) = (if k = k' then v else jget k d)"
  by (simp add: jget_or_def)

lemma filter_tools_list_tools:
  "\<not> pr_is_admin caller \<Longrightarrow>
     listed_tools (filter_tools_list db caller payload) =
       filter (\<lambda>t. \<not> listed_privileged db t) (listed_tools payload)"
  by (auto simp: filter_tools_list_def jget_update split: json.splits)

section \<open>Properties\<close>

text \<open>
  C18. The payload the gateway decides on is the only reading of the bytes: when a body is
  accepted, every parser that keeps objects without repeated keys as they are (whichever of two
  equal keys it would keep) reads the same document, no object in it repeats a key, and its
  messages are those the policy was evaluated on.
\<close>

theorem payload_unambiguous:
  assumes "parse_payload db body = Inr parsed"
  shows "\<exists>v. distinct_keys v \<and> document_messages v = map (\<lambda>m. JObj (rm_raw m)) (pp_messages parsed) \<and>
    (\<forall>h. keeps_distinct h \<longrightarrow> loads_bytes_with h body = Inr v)"
proof -
  from assms obtain v where "loads_bytes_with reject_duplicate_keys body = Inr v" "distinct_keys v"
      "map JObj (map rm_raw (pp_messages parsed)) = document_messages v"
    by (rule parse_payload_raw)
  then show ?thesis using loads_agree by (auto simp: comp_def intro!: exI [of _ v])
qed

theorem payload_unambiguous_witness:
  "loads_bytes (hd (rq_chunks demo_viewer)) = Inr demo_batch"
proof -
  have "parse_payload small_db (hd (rq_chunks demo_viewer)) = Inr demo_parsed"
    by code_simp
  from payload_unambiguous [OF this] obtain v where
      m: "document_messages v = map (\<lambda>m. JObj (rm_raw m)) (pp_messages demo_parsed)" and
      v: "\<forall>h. keeps_distinct h \<longrightarrow> loads_bytes_with h (hd (rq_chunks demo_viewer)) = Inr v"
    by blast
  have "length (pp_messages demo_parsed) = 2" by (simp add: demo_parsed_def)
  then have "v = JArr (map (\<lambda>m. JObj (rm_raw m)) (pp_messages demo_parsed))"
    using m by (cases v) (auto simp: document_messages_def demo_parsed_def)
  then show ?thesis
    using v keeps_distinct_last
    by (simp add: loads_bytes_eq demo_parsed_def demo_message_def demo_batch_def demo_call_def)
qed

text \<open>
  What escapes the parser: apart from the refusals it answers, a body makes it raise exactly
  when its bytes are not text in the detected encoding, or it holds an integer of more than 4300
  digits; a request of an authenticated caller with such a body gets no JSON-RPC answer.
\<close>

theorem parser_escapes_iff:
  assumes "resolve_principal (rt_environ rt) (header_get (str ''authorization'') (rq_headers request)) = Inr caller"
    and "read_bounded_body (gc_max_body_bytes cfg) request = BodyRead body"
    and "bytes_strip body \<noteq> []"
    and "loads_bytes_with reject_duplicate_keys body = Inl e"
  shows "go_response (handle_mcp_post rt cfg ds request) = None \<longleftrightarrow> e = BadEncoding \<or> e = TooManyDigits"
proof -
  have "parse_payload (rt_ucd rt) body \<noteq> Inr parsed" for parsed
    using assms(4) by (auto simp: parse_payload_Inr)
  then obtain f where f: "parse_payload (rt_ucd rt) body = Inl f"
    by (cases "parse_payload (rt_ucd rt) body") auto
  have "(\<exists>e'. f = Unhandled e') \<longleftrightarrow> e = BadEncoding \<or> e = TooManyDigits"
    using parse_payload_unhandled [of "rt_ucd rt" body] assms(3,4) f by auto
  then show ?thesis
    using assms(1,2) f by (cases f) (auto simp: handle_mcp_post_def)
qed

definition demo_bad_bytes :: http_request where
  "demo_bad_bytes = \<lparr>rq_method = str ''POST'',
     rq_headers = [(str ''authorization'', str ''Bearer viewer-token-xyz789'')],
     rq_chunks = [[34, 255, 34]]\<rparr>"

theorem parser_escapes_iff_witness:
  "go_response (handle_mcp_post demo_rt demo_cfg demo_ds demo_bad_bytes) = None"
proof -
  have "resolve_principal (rt_environ demo_rt) (header_get (str ''authorization'') (rq_headers demo_bad_bytes))
      = Inr demo_principal"
    by code_simp
  moreover have "read_bounded_body (gc_max_body_bytes demo_cfg) demo_bad_bytes = BodyRead [34, 255, 34]"
    by code_simp
  moreover have "bytes_strip [34, 255, 34] \<noteq> []"
    by code_simp
  moreover have "loads_bytes_with reject_duplicate_keys [34, 255, 34] = Inl BadEncoding"
    by code_simp
  ultimately show ?thesis
    using parser_escapes_iff [of demo_rt demo_bad_bytes demo_principal demo_cfg "[34, 255, 34]" BadEncoding demo_ds]
    by blast
qed

text \<open>
  The headers of a downstream request: the identity is the one the gateway asserts,
  whatever the client sent under those names in any case; the client's credential and the
  hop-by-hop headers are gone; every other header has the last value the client gave it.
\<close>

theorem downstream_headers:
  "header_get k (build_downstream_headers incoming caller) =
     (if k = str ''x-forwarded-role'' then Some (pr_role caller)
      else if k = str ''x-forwarded-user'' then Some (pr_subject caller)
      else if py_lower k \<in> set STRIP_FROM_CLIENT then None
      else header_get k (rev incoming))"
  by (rule build_downstream_headers_lookup)

text \<open>
  Authentication is a lookup: a header is accepted exactly when it is a Bearer credential
  (the scheme in any case) whose trimmed token is a key of the table, and the principal is the
  one of that key; the constant-time scan over the UTF-8 bytes of every key computes no more.
\<close>

theorem resolve_principal_iff:
  assumes "valid_str h" "valid_table (token_table environ)"
  shows "resolve_principal environ (Some h) = Inr p \<longleftrightarrow>
    (\<exists>token. bearer_token h token \<and> map_of (token_table environ) token = Some p)"
  using assms by (rule resolve_principal_Inr)

theorem resolve_principal_iff_witness:
  "bearer_token (str ''bEARER  admin-token-abc123 '') (str ''admin-token-abc123'') \<and>
     resolve_principal (\<lambda>k. None) (Some (str ''bEARER  admin-token-abc123 '')) =
       Inr \<lparr>pr_subject = str ''ops@example.com'', pr_role = str ''admin''\<rparr>"
proof -
  have "bearer_token (str ''bEARER  admin-token-abc123 '') (str ''admin-token-abc123'')"
    by (subst extract_bearer_token_Inr [symmetric]) code_simp
  moreover have "map_of (token_table (\<lambda>k. None)) (str ''admin-token-abc123'') =
      Some \<lparr>pr_subject = str ''ops@example.com'', pr_role = str ''admin''\<rparr>"
    by code_simp
  moreover have "valid_table (token_table (\<lambda>k. None))"
    using DEFAULT_TOKENS_valid by (simp add: token_table_def)
  ultimately show ?thesis
    using resolve_principal_iff [of "str ''bEARER  admin-token-abc123 ''" "\<lambda>k. None"] by auto
qed

text \<open>
  With the tool list filtered, a caller who is not an administrator is shown the tools of the
  downstream list that are not privileged, in order, and no others.
\<close>

theorem tools_list_filtered:
  assumes "\<not> pr_is_admin caller"
  shows "listed_tools (filter_tools_list db caller payload) =
    filter (\<lambda>t. \<not> listed_privileged db t) (listed_tools payload)"
  using assms by (rule filter_tools_list_tools)

theorem tools_list_filtered_witness:
  "listed_tools (filter_tools_list small_db demo_principal
     (JObj [(str ''result'', JObj [(str ''tools'', JArr [JObj [(str ''name'', JStr (str ''a''))],
        JObj [(str ''name'', JStr (str ''admin_b''))]])])])) = [JObj [(str ''name'', JStr (str ''a''))]]"
  by (subst tools_list_filtered) code_simp+

section \<open>Merged responses\<close>

text \<open>
  When denials are merged into a response, its own headers are dropped, the session id among
  them; and denials merged into an empty 204 keep that status.
\<close>

lemma merged_drops_headers:
  "denials \<noteq> [] \<Longrightarrow> hr_headers (build_client_response rt cfg caller denials answer) = []"
  by (auto simp: build_client_response_def Let_def json_response_def split: sum.splits)

lemma merged_into_no_content:
  "denials \<noteq> [] \<Longrightarrow> header_get (str ''content-type'') (an_headers answer) = None \<Longrightarrow>
     build_client_response rt cfg caller denials answer = json_response (JArr denials) (an_status answer) []"
  by (auto simp: build_client_response_def Let_def)

end
