(* ===== verification/Rt_Limiter.thy ===== *)
theory Rt_Limiter
  imports PyFloat "HOL-Library.Multiset"
begin

text \<open>
  \<open>llm_router/ratelimit.py\<close> and \<open>store.py\<close>: the token-usage table and the four
  operations of the limiter on it, each one immediate transaction (all of its effect or none),
  serialised by the lock of the store. Times are doubles: differences are taken with
  \<^const>\<open>fsub\<close>. SQLite's 64-bit integers and its unique index on \<open>request_id\<close> are the
  errors a transaction may end with.

  The history of a limiter is a sequence of steps (\<open>lim_step\<close>) on the table and a ghost log
  of every admission, never evicted. The sliding-window theorem is an invariant of that relation.
\<close>

section \<open>The table and its transactions\<close>

record usage_row =
  ur_tenant :: pystr
  ur_request :: pystr
  ur_tokens :: int
  ur_created :: rat
  ur_settled :: bool

type_synonym table = "usage_row list"

datatype store_error =
    IntTooLarge  \<comment> \<open>\<open>OverflowError\<close> binding a parameter\<close>
  | SumOverflow  \<comment> \<open>\<open>SUM\<close> left the 64-bit range\<close>
  | DuplicateRequest  \<comment> \<open>\<open>IntegrityError\<close> from the unique index\<close>

definition fits64 :: "int \<Rightarrow> bool" where
  "fits64 n \<longleftrightarrow> - (2 ^ 63) \<le> n \<and> n < 2 ^ 63"

text \<open>\<open>BEGIN IMMEDIATE\<close>, the work, and \<open>COMMIT\<close>, or \<open>ROLLBACK\<close> when it raises.\<close>

definition transaction :: "('s \<Rightarrow> 'e + ('a \<times> 's)) \<Rightarrow> 's \<Rightarrow> ('e + 'a) \<times> 's" where
  "transaction work s = (case work s of Inl e \<Rightarrow> (Inl e, s) | Inr (x, s') \<Rightarrow> (Inr x, s'))"

lemma transaction_simps [simp]:
  "work s = Inl e \<Longrightarrow> transaction work s = (Inl e, s)"
  "work s = Inr (x, s') \<Longrightarrow> transaction work s = (Inr x, s')"
  by (simp_all add: transaction_def)

lemma transaction_Inr: "transaction work s = (Inr x, s') \<longleftrightarrow> work s = Inr (x, s')"
  by (auto simp: transaction_def split: sum.splits)

lemma transaction_Inl: "transaction work s = (Inl e, s') \<longleftrightarrow> work s = Inl e \<and> s' = s"
  by (auto simp: transaction_def split: sum.splits)

section \<open>The limiter\<close>

record limiter =
  lm_limit :: int
  lm_window :: rat

record reservation =
  rv_request :: pystr
  rv_tenant :: pystr
  rv_estimated :: int

record limit_decision =
  ld_allowed :: bool
  ld_used :: int
  ld_limit :: int
  ld_reservation :: "reservation option"
  ld_retry_after :: "rat option"

definition ld_remaining :: "limit_decision \<Rightarrow> int" where
  "ld_remaining d = max 0 (ld_limit d - ld_used d)"

definition cutoff :: "limiter \<Rightarrow> rat \<Rightarrow> rat" where
  "cutoff lm now = fsub now (lm_window lm)"

definition evict :: "limiter \<Rightarrow> rat \<Rightarrow> table \<Rightarrow> table" where
  "evict lm now rows = filter (\<lambda>r. \<not> ur_created r \<le> cutoff lm now) rows"

definition window_rows :: "limiter \<Rightarrow> pystr \<Rightarrow> rat \<Rightarrow> table \<Rightarrow> table" where
  "window_rows lm tenant now rows = filter (\<lambda>r. ur_tenant r = tenant \<and> cutoff lm now < ur_created r) rows"

definition total_tokens :: "table \<Rightarrow> int" where
  "total_tokens rows = sum_list (map ur_tokens rows)"

definition used_tokens :: "limiter \<Rightarrow> pystr \<Rightarrow> rat \<Rightarrow> table \<Rightarrow> store_error + int" where
  "used_tokens lm tenant now rows =
     (let total = total_tokens (window_rows lm tenant now rows)
      in if fits64 total then Inr total else Inl SumOverflow)"

text \<open>The row whose expiry brings the freed total to the shortfall.\<close>

fun first_free :: "int \<Rightarrow> int \<Rightarrow> table \<Rightarrow> rat option" where
  "first_free freed shortfall [] = None"
| "first_free freed shortfall (r # rs) =
     (if freed + ur_tokens r \<ge> shortfall then Some (ur_created r)
      else first_free (freed + ur_tokens r) shortfall rs)"

definition retry_after :: "limiter \<Rightarrow> pystr \<Rightarrow> rat \<Rightarrow> int \<Rightarrow> table \<Rightarrow> rat" where
  "retry_after lm tenant now needed rows =
     (let ws = sort_key ur_created (window_rows lm tenant now rows);
          used = total_tokens ws;
          shortfall = used + needed - lm_limit lm
      in if shortfall \<le> 0 then 0
         else (case first_free 0 shortfall ws of
                 Some c \<Rightarrow> max 0 (fsub (fadd c (lm_window lm)) now)
               | None \<Rightarrow> lm_window lm))"

definition check_work ::
    "limiter \<Rightarrow> pystr \<Rightarrow> int \<Rightarrow> rat \<Rightarrow> pystr \<Rightarrow> table \<Rightarrow> store_error + (limit_decision \<times> table)" where
  "check_work lm tenant est now request rows =
     (let rows1 = evict lm now rows
      in and_then (used_tokens lm tenant now rows1)
           (\<lambda>used.
              if used + est > lm_limit lm then
                Inr (\<lparr>ld_allowed = False, ld_used = used, ld_limit = lm_limit lm, ld_reservation = None,
                  ld_retry_after = Some (retry_after lm tenant now est rows1)\<rparr>, rows1)
              else if \<not> fits64 est then Inl IntTooLarge
              else if request \<in> set (map ur_request rows1) then Inl DuplicateRequest
              else
                Inr (\<lparr>ld_allowed = True, ld_used = used + est, ld_limit = lm_limit lm,
                  ld_reservation = Some \<lparr>rv_request = request, rv_tenant = tenant, rv_estimated = est\<rparr>,
                  ld_retry_after = None\<rparr>,
                  rows1 @ [\<lparr>ur_tenant = tenant, ur_request = request, ur_tokens = est,
                    ur_created = now, ur_settled = False\<rparr>])))"

definition check_and_reserve ::
    "limiter \<Rightarrow> pystr \<Rightarrow> int \<Rightarrow> rat \<Rightarrow> pystr \<Rightarrow> table \<Rightarrow> (store_error + limit_decision) \<times> table" where
  "check_and_reserve lm tenant est now request = transaction (check_work lm tenant est now request)"

definition settle_row :: "pystr \<Rightarrow> int \<Rightarrow> usage_row \<Rightarrow> usage_row" where
  "settle_row request actual r =
     (if ur_request r = request then r\<lparr>ur_tokens := actual, ur_settled := True\<rparr> else r)"

definition settle_work :: "reservation \<Rightarrow> int \<Rightarrow> table \<Rightarrow> store_error + (unit \<times> table)" where
  "settle_work rv actual rows =
     (if fits64 actual then Inr ((), map (settle_row (rv_request rv) actual) rows) else Inl IntTooLarge)"

definition settle :: "reservation \<Rightarrow> int \<Rightarrow> table \<Rightarrow> (store_error + unit) \<times> table" where
  "settle rv actual = transaction (settle_work rv actual)"

definition release_work :: "reservation \<Rightarrow> table \<Rightarrow> store_error + (unit \<times> table)" where
  "release_work rv rows = Inr ((), filter (\<lambda>r. ur_request r \<noteq> rv_request rv) rows)"

definition release :: "reservation \<Rightarrow> table \<Rightarrow> (store_error + unit) \<times> table" where
  "release rv = transaction (release_work rv)"

definition usage :: "limiter \<Rightarrow> pystr \<Rightarrow> rat \<Rightarrow> table \<Rightarrow> store_error + int" where
  "usage lm tenant now rows = used_tokens lm tenant now rows"

definition row_count :: "table \<Rightarrow> nat" where
  "row_count rows = length rows"

section \<open>Sums over the window\<close>

lemma cutoff_mono: "a \<le> b \<Longrightarrow> cutoff lm a \<le> cutoff lm b"
  by (simp add: cutoff_def fsub_mono_left)

lemma total_tokens_simps [simp]:
  "total_tokens [] = 0"
  "total_tokens (r # rs) = ur_tokens r + total_tokens rs"
  "total_tokens (rs @ rs') = total_tokens rs + total_tokens rs'"
  by (simp_all add: total_tokens_def)

lemma total_tokens_nonneg: "\<forall>r \<in> set rs. 0 \<le> ur_tokens r \<Longrightarrow> 0 \<le> total_tokens rs"
  by (induction rs) auto

lemma total_tokens_filter_mono:
  "\<forall>r \<in> set rs. 0 \<le> ur_tokens r \<Longrightarrow> (\<And>r. r \<in> set rs \<Longrightarrow> P r \<Longrightarrow> Q r) \<Longrightarrow>
     total_tokens (filter P rs) \<le> total_tokens (filter Q rs)"
  by (induction rs) auto

lemma total_tokens_split: "total_tokens (filter P rs) + total_tokens (filter (\<lambda>r. \<not> P r) rs) = total_tokens rs"
  by (induction rs) auto

lemma window_evict: "window_rows lm tenant now (evict lm now rows) = window_rows lm tenant now rows"
  by (auto simp: window_rows_def evict_def intro!: filter_cong)

lemma used_tokens_Inr:
  "used_tokens lm tenant now rows = Inr n \<longleftrightarrow>
     n = total_tokens (window_rows lm tenant now rows) \<and> fits64 n"
  by (auto simp: used_tokens_def Let_def)

lemma check_allowed:
  assumes "check_and_reserve lm tenant est now request rows = (Inr d, rows')" "ld_allowed d"
  shows "total_tokens (window_rows lm tenant now rows) + est \<le> lm_limit lm"
    "rows' = evict lm now rows @ [\<lparr>ur_tenant = tenant, ur_request = request, ur_tokens = est,
       ur_created = now, ur_settled = False\<rparr>]"
    "ld_reservation d = Some \<lparr>rv_request = request, rv_tenant = tenant, rv_estimated = est\<rparr>"
    "request \<notin> set (map ur_request (evict lm now rows))"
    "ld_used d = total_tokens (window_rows lm tenant now rows) + est"
  using assms
  by (auto simp: check_and_reserve_def transaction_Inr check_work_def result_simps Let_def
      used_tokens_Inr window_evict split: if_splits)

lemma check_refused:
  assumes "check_and_reserve lm tenant est now request rows = (Inr d, rows')" "\<not> ld_allowed d"
  shows "total_tokens (window_rows lm tenant now rows) + est > lm_limit lm" "rows' = evict lm now rows"
    "ld_retry_after d = Some (retry_after lm tenant now est rows)" "ld_reservation d = None"
    "ld_used d = total_tokens (window_rows lm tenant now rows)"
  using assms
  by (auto simp: check_and_reserve_def transaction_Inr check_work_def result_simps Let_def
      used_tokens_Inr window_evict retry_after_def split: if_splits)

lemma check_error: "check_and_reserve lm tenant est now request rows = (Inl e, rows') \<Longrightarrow> rows' = rows"
  by (simp add: check_and_reserve_def transaction_Inl)

lemma settle_Inr: "settle rv n rows = (Inr u, rows') \<longleftrightarrow> fits64 n \<and> rows' = map (settle_row (rv_request rv) n) rows"
  by (auto simp: settle_def settle_work_def transaction_Inr)

lemma settle_Inl: "settle rv n rows = (Inl e, rows') \<longleftrightarrow> \<not> fits64 n \<and> e = IntTooLarge \<and> rows' = rows"
  by (auto simp: settle_def settle_work_def transaction_Inl)

lemma release_eq: "release rv rows = (Inr (), filter (\<lambda>r. ur_request r \<noteq> rv_request rv) rows)"
  by (simp add: release_def release_work_def)

section \<open>When to retry\<close>

lemma first_free_None:
  "first_free freed s rs = None \<Longrightarrow> freed < s \<Longrightarrow> \<forall>r \<in> set rs. 0 \<le> ur_tokens r \<Longrightarrow> freed + total_tokens rs < s"
  by (induction freed s rs rule: first_free.induct) (auto split: if_splits)

lemma total_expired:
  assumes "sorted (map ur_created rs)" "\<forall>r \<in> set rs. 0 \<le> ur_tokens r"
    "first_free freed s rs = Some c" "freed < s"
  shows "t < c \<Longrightarrow> freed + total_tokens (filter (\<lambda>r. ur_created r \<le> t) rs) < s"
    and "c \<le> t \<Longrightarrow> s \<le> freed + total_tokens (filter (\<lambda>r. ur_created r \<le> t) rs)"
proof -
  have "(t < c \<longrightarrow> freed + total_tokens (filter (\<lambda>r. ur_created r \<le> t) rs) < s) \<and>
      (c \<le> t \<longrightarrow> s \<le> freed + total_tokens (filter (\<lambda>r. ur_created r \<le> t) rs))"
    using assms
  proof (induction freed s rs rule: first_free.induct)
    case (1 freed s)
    then show ?case by simp
  next
    case (2 freed s r rs)
    show ?case
    proof (cases "freed + ur_tokens r \<ge> s")
      case True
      then have c: "c = ur_created r" using 2 by simp
      have "filter (\<lambda>q. ur_created q \<le> t) rs = []" if "t < ur_created r"
        using 2(2) that by (fastforce simp: filter_empty_conv)
      moreover have "0 \<le> total_tokens (filter (\<lambda>q. ur_created q \<le> t) rs)"
        using 2(3) by (intro total_tokens_nonneg) auto
      ultimately show ?thesis using True c 2(5) by auto
    next
      case False
      then have ff: "first_free (freed + ur_tokens r) s rs = Some c" using 2 by simp
      have IH: "(t < c \<longrightarrow> freed + ur_tokens r + total_tokens (filter (\<lambda>r. ur_created r \<le> t) rs) < s) \<and>
          (c \<le> t \<longrightarrow> s \<le> freed + ur_tokens r + total_tokens (filter (\<lambda>r. ur_created r \<le> t) rs))"
        using 2 False ff by simp
      have "c \<in> ur_created ` set rs"
        using ff by (induction "freed + ur_tokens r" s rs arbitrary: freed r rule: first_free.induct)
          (auto split: if_splits)
      then have "ur_created r \<le> c" using 2(2) by auto
      moreover have "0 \<le> ur_tokens r" using 2(3) by simp
      ultimately show ?thesis using IH by auto
    qed
  qed
  then show "t < c \<Longrightarrow> freed + total_tokens (filter (\<lambda>r. ur_created r \<le> t) rs) < s"
    and "c \<le> t \<Longrightarrow> s \<le> freed + total_tokens (filter (\<lambda>r. ur_created r \<le> t) rs)" by auto
qed

lemma total_tokens_sort: "total_tokens (sort_key f rs) = total_tokens rs"
  unfolding total_tokens_def by (metis mset_map mset_sort sum_mset_sum_list)

lemma window_rows_later:
  "now \<le> now' \<Longrightarrow> window_rows lm tenant now' rows =
     filter (\<lambda>r. \<not> ur_created r \<le> cutoff lm now') (window_rows lm tenant now rows)"
  using cutoff_mono [of now now' lm] by (auto simp: window_rows_def intro!: filter_cong)

definition nonneg_rows :: "table \<Rightarrow> bool" where
  "nonneg_rows rows \<longleftrightarrow> (\<forall>r \<in> set rows. 0 \<le> ur_tokens r)"

lemma window_rows_nonneg: "nonneg_rows rows \<Longrightarrow> nonneg_rows (window_rows lm tenant now rows)"
  by (simp add: nonneg_rows_def window_rows_def)

text \<open>
  The row \<open>c\<close> a refusal waits for: the request fits exactly from the moment that row has left
  the window.
\<close>

lemma retry_threshold:
  assumes nn: "nonneg_rows rows" and fits: "est \<le> lm_limit lm"
    and full: "total_tokens (window_rows lm tenant now rows) + est > lm_limit lm"
  shows "\<exists>c. retry_after lm tenant now est rows = max 0 (fsub (fadd c (lm_window lm)) now) \<and>
    (\<forall>now' \<ge> now. total_tokens (window_rows lm tenant now' rows) + est \<le> lm_limit lm \<longleftrightarrow> c \<le> cutoff lm now')"
proof -
  let ?w = "window_rows lm tenant now rows"
  let ?ws = "sort_key ur_created ?w"
  let ?s = "total_tokens ?ws + est - lm_limit lm"
  have s: "0 < ?s" using full by (simp add: total_tokens_sort)
  have nnw: "\<forall>r \<in> set ?ws. 0 \<le> ur_tokens r"
    using window_rows_nonneg [OF nn] by (simp add: nonneg_rows_def)
  have "first_free 0 ?s ?ws \<noteq> None"
    using first_free_None [of 0 ?s ?ws] s nnw fits by force
  then obtain c where c: "first_free 0 ?s ?ws = Some c" by auto
  have "total_tokens (window_rows lm tenant now' rows) + est \<le> lm_limit lm \<longleftrightarrow> c \<le> cutoff lm now'"
    if "now \<le> now'" for now'
  proof -
    let ?t = "cutoff lm now'"
    have "total_tokens (window_rows lm tenant now' rows) = total_tokens (filter (\<lambda>r. \<not> ur_created r \<le> ?t) ?ws)"
      unfolding window_rows_later [OF that] by (simp add: filter_sort total_tokens_sort)
    moreover have "total_tokens (filter (\<lambda>r. ur_created r \<le> ?t) ?ws) +
        total_tokens (filter (\<lambda>r. \<not> ur_created r \<le> ?t) ?ws) = total_tokens ?ws"
      by (rule total_tokens_split)
    moreover note total_expired [OF sorted_sort_key nnw c s, of ?t]
    ultimately show ?thesis by linarith
  qed
  moreover have "retry_after lm tenant now est rows = max 0 (fsub (fadd c (lm_window lm)) now)"
    using s c by (simp add: retry_after_def Let_def)
  ultimately show ?thesis by blast
qed

section \<open>Histories\<close>

text \<open>
  A state of a history: the latest clock reading used, the table, and the ghost log: each
  admission with what it reserved and what it stands at, released ones removed, none evicted.
  Clock readings do not go back (the lock is first come, first served, and the reading is taken
  when the lock is requested), and a reservation is settled at most once, which
  \<open>Rt_Router\<close> proves of the router.
\<close>

record entry =
  en_row :: usage_row
  en_reserved :: int

record lim_state =
  ls_last :: rat
  ls_rows :: table
  ls_log :: "entry list"

definition log_settle :: "pystr \<Rightarrow> int \<Rightarrow> entry \<Rightarrow> entry" where
  "log_settle request n e = e\<lparr>en_row := settle_row request n (en_row e)\<rparr>"

inductive lim_step :: "limiter \<Rightarrow> lim_state \<Rightarrow> lim_state \<Rightarrow> bool" for lm where
  admit: "ls_last s \<le> now \<Longrightarrow> 0 \<le> est \<Longrightarrow>
     check_and_reserve lm tenant est now request (ls_rows s) = (Inr d, rows') \<Longrightarrow> ld_allowed d \<Longrightarrow>
     lim_step lm s \<lparr>ls_last = now, ls_rows = rows',
       ls_log = ls_log s @ [\<lparr>en_row = last rows', en_reserved = est\<rparr>]\<rparr>"
| refuse: "ls_last s \<le> now \<Longrightarrow>
     check_and_reserve lm tenant est now request (ls_rows s) = (Inr d, rows') \<Longrightarrow> \<not> ld_allowed d \<Longrightarrow>
     lim_step lm s (s\<lparr>ls_last := now, ls_rows := rows'\<rparr>)"
| fails: "check_and_reserve lm tenant est now request (ls_rows s) = (Inl e, rows') \<Longrightarrow>
     lim_step lm s (s\<lparr>ls_rows := rows'\<rparr>)"
| settles: "0 \<le> n \<Longrightarrow>
     \<forall>e \<in> set (ls_log s). ur_request (en_row e) = rv_request rv \<longrightarrow> \<not> ur_settled (en_row e) \<Longrightarrow>
     settle rv n (ls_rows s) = (Inr (), rows') \<Longrightarrow>
     lim_step lm s (s\<lparr>ls_rows := rows', ls_log := map (log_settle (rv_request rv) n) (ls_log s)\<rparr>)"
| settle_fails: "settle rv n (ls_rows s) = (Inl e, rows') \<Longrightarrow> lim_step lm s (s\<lparr>ls_rows := rows'\<rparr>)"
| releases: "release rv (ls_rows s) = (Inr (), rows') \<Longrightarrow>
     lim_step lm s (s\<lparr>ls_rows := rows',
       ls_log := filter (\<lambda>e. ur_request (en_row e) \<noteq> rv_request rv) (ls_log s)\<rparr>)"

inductive_cases lim_stepE: "lim_step lm s s'"

definition lim_start :: "rat \<Rightarrow> lim_state" where
  "lim_start now = \<lparr>ls_last = now, ls_rows = [], ls_log = []\<rparr>"

abbreviation lim_reachable :: "limiter \<Rightarrow> lim_state \<Rightarrow> bool" where
  "lim_reachable lm s \<equiv> \<exists>now. (lim_step lm)\<^sup>*\<^sup>* (lim_start now) s"

text \<open>
  What a tenant was admitted for in the window that ends at \<open>t\<close>, of everything ever logged;
  an admission counts as its reservation, or its settled amount where that is smaller.
\<close>

definition charged :: "entry \<Rightarrow> int" where
  "charged e = min (ur_tokens (en_row e)) (en_reserved e)"

definition in_window :: "limiter \<Rightarrow> pystr \<Rightarrow> rat \<Rightarrow> entry \<Rightarrow> bool" where
  "in_window lm tenant t e \<longleftrightarrow>
     ur_tenant (en_row e) = tenant \<and> cutoff lm t < ur_created (en_row e) \<and> ur_created (en_row e) \<le> t"

definition window_charge :: "limiter \<Rightarrow> pystr \<Rightarrow> rat \<Rightarrow> entry list \<Rightarrow> int" where
  "window_charge lm tenant t es = sum_list (map charged (filter (in_window lm tenant t) es))"

definition lim_inv :: "limiter \<Rightarrow> lim_state \<Rightarrow> bool" where
  "lim_inv lm s \<longleftrightarrow>
     (\<forall>now \<ge> ls_last s. evict lm now (ls_rows s) = evict lm now (map en_row (ls_log s))) \<and>
     (\<forall>e \<in> set (ls_log s). ur_created (en_row e) \<le> ls_last s \<and> 0 \<le> ur_tokens (en_row e) \<and> 0 \<le> en_reserved e \<and>
        (\<not> ur_settled (en_row e) \<longrightarrow> ur_tokens (en_row e) = en_reserved e)) \<and>
     (\<forall>tenant t. window_charge lm tenant t (ls_log s) \<le> max 0 (lm_limit lm))"

lemma evict_evict: "now \<le> now' \<Longrightarrow> evict lm now' (evict lm now rows) = evict lm now' rows"
  using cutoff_mono [of now now' lm] by (auto simp: evict_def intro!: filter_cong)

lemma evict_map_settle:
  "evict lm now (map (settle_row q n) rows) = map (settle_row q n) (evict lm now rows)"
  by (induction rows) (auto simp: evict_def settle_row_def)

lemma evict_filter: "evict lm now (filter P rows) = filter P (evict lm now rows)"
  by (simp add: evict_def conj_commute)

lemma evict_append: "evict lm now (a @ b) = evict lm now a @ evict lm now b"
  by (simp add: evict_def)

lemma window_rows_evict: "window_rows lm tenant now rows = filter (\<lambda>r. ur_tenant r = tenant) (evict lm now rows)"
  by (auto simp: window_rows_def evict_def intro!: filter_cong)

lemma charged_le: "charged e \<le> ur_tokens (en_row e)"
  by (simp add: charged_def)

lemma window_charge_le_rows:
  assumes "now \<le> t" "\<forall>e \<in> set es. 0 \<le> ur_tokens (en_row e)"
  shows "window_charge lm tenant t es \<le> total_tokens (window_rows lm tenant now (map en_row es))"
  using assms(2)
proof (induction es)
  case Nil
  then show ?case by (simp add: window_charge_def window_rows_def)
next
  case (Cons e es)
  then show ?case
    using cutoff_mono [OF assms(1), of lm] charged_le [of e]
    by (auto simp: window_charge_def window_rows_def in_window_def)
qed

lemma window_charge_mono:
  "(\<And>e. e \<in> set es \<Longrightarrow> in_window lm tenant t (f e) = in_window lm tenant t e \<and> charged (f e) \<le> charged e) \<Longrightarrow>
     window_charge lm tenant t (map f es) \<le> window_charge lm tenant t es"
  by (induction es) (auto simp: window_charge_def intro: add_mono)

lemma window_charge_filter:
  "\<forall>e \<in> set es. 0 \<le> charged e \<Longrightarrow> window_charge lm tenant t (filter P es) \<le> window_charge lm tenant t es"
  by (induction es) (auto simp: window_charge_def)

lemma lim_invD:
  assumes "lim_inv lm s"
  shows "ls_last s \<le> now \<Longrightarrow> evict lm now (ls_rows s) = evict lm now (map en_row (ls_log s))"
    and "e \<in> set (ls_log s) \<Longrightarrow> ur_created (en_row e) \<le> ls_last s"
    and "e \<in> set (ls_log s) \<Longrightarrow> 0 \<le> ur_tokens (en_row e)"
    and "e \<in> set (ls_log s) \<Longrightarrow> 0 \<le> en_reserved e"
    and "e \<in> set (ls_log s) \<Longrightarrow> \<not> ur_settled (en_row e) \<Longrightarrow> ur_tokens (en_row e) = en_reserved e"
    and "window_charge lm tenant t (ls_log s) \<le> max 0 (lm_limit lm)"
  using assms by (auto simp: lim_inv_def)

lemma lim_inv_start: "lim_inv lm (lim_start now)"
  by (simp add: lim_inv_def lim_start_def evict_def window_charge_def)

lemma lim_inv_admit:
  assumes inv: "lim_inv lm s" and now: "ls_last s \<le> now" and est: "0 \<le> est"
    and check: "check_and_reserve lm tenant est now request (ls_rows s) = (Inr d, rows')" "ld_allowed d"
  shows "lim_inv lm \<lparr>ls_last = now, ls_rows = rows', ls_log = ls_log s @ [\<lparr>en_row = last rows', en_reserved = est\<rparr>]\<rparr>"
proof -
  define row where "row = \<lparr>ur_tenant = tenant, ur_request = request, ur_tokens = est,
    ur_created = now, ur_settled = False\<rparr>"
  note ok = check_allowed [OF check, folded row_def]
  let ?log = "ls_log s @ [\<lparr>en_row = row, en_reserved = est\<rparr>]"
  have "evict lm t rows' = evict lm t (map en_row ?log)" if "now \<le> t" for t
    using lim_invD(1) [OF inv, of t] now that by (simp add: ok(2) evict_append evict_evict)
  moreover have "window_charge lm q t ?log \<le> max 0 (lm_limit lm)" for q t
  proof (cases "q = tenant \<and> now \<le> t \<and> cutoff lm t < now")
    case True
    have "window_charge lm q t (ls_log s) \<le> total_tokens (window_rows lm q now (map en_row (ls_log s)))"
      using True lim_invD(3) [OF inv] by (intro window_charge_le_rows) auto
    also have "window_rows lm q now (map en_row (ls_log s)) = window_rows lm q now (ls_rows s)"
      using lim_invD(1) [OF inv now] by (simp add: window_rows_evict)
    finally have "window_charge lm q t (ls_log s) + est \<le> lm_limit lm"
      using ok(1) True by simp
    then show ?thesis
      using True by (simp add: window_charge_def in_window_def row_def charged_def)
  next
    case False
    then have "window_charge lm q t ?log = window_charge lm q t (ls_log s)"
      by (auto simp: window_charge_def in_window_def row_def)
    then show ?thesis using lim_invD(6) [OF inv, of q t] by simp
  qed
  moreover have "\<forall>e \<in> set ?log. ur_created (en_row e) \<le> now \<and> 0 \<le> ur_tokens (en_row e) \<and> 0 \<le> en_reserved e \<and>
      (\<not> ur_settled (en_row e) \<longrightarrow> ur_tokens (en_row e) = en_reserved e)"
    using lim_invD(2-5) [OF inv] now est by (fastforce simp: row_def)
  moreover have "last rows' = row" by (simp add: ok(2))
  ultimately show ?thesis by (simp add: lim_inv_def)
qed

lemma lim_inv_settle:
  assumes inv: "lim_inv lm s" and n: "0 \<le> n"
    and fresh: "\<forall>e \<in> set (ls_log s). ur_request (en_row e) = q \<longrightarrow> \<not> ur_settled (en_row e)"
  shows "lim_inv lm (s\<lparr>ls_rows := map (settle_row q n) (ls_rows s), ls_log := map (log_settle q n) (ls_log s)\<rparr>)"
proof -
  have row: "en_row (log_settle q n e) = settle_row q n (en_row e)" "en_reserved (log_settle q n e) = en_reserved e" for e
    by (simp_all add: log_settle_def)
  have "in_window lm tenant t (log_settle q n e) = in_window lm tenant t e" for tenant t e
    by (simp add: in_window_def row settle_row_def)
  moreover have "charged (log_settle q n e) \<le> charged e" if "e \<in> set (ls_log s)" for e
    using fresh that lim_invD(5) [OF inv that] by (auto simp: charged_def row settle_row_def)
  ultimately have "window_charge lm tenant t (map (log_settle q n) (ls_log s)) \<le> window_charge lm tenant t (ls_log s)" for tenant t
    by (intro window_charge_mono) auto
  then have "window_charge lm tenant t (map (log_settle q n) (ls_log s)) \<le> max 0 (lm_limit lm)" for tenant t
    using lim_invD(6) [OF inv] order_trans by blast
  moreover have m: "map en_row (map (log_settle q n) (ls_log s)) = map (settle_row q n) (map en_row (ls_log s))"
    by (simp add: row)
  have "evict lm now (map (settle_row q n) (ls_rows s)) = evict lm now (map en_row (map (log_settle q n) (ls_log s)))"
    if "ls_last s \<le> now" for now
    unfolding m evict_map_settle by (simp add: lim_invD(1) [OF inv that])
  ultimately show ?thesis
    using lim_invD(2-5) [OF inv] n
    by (auto simp: lim_inv_def row settle_row_def)
qed

lemma lim_inv_release:
  assumes inv: "lim_inv lm s"
  shows "lim_inv lm (s\<lparr>ls_rows := filter (\<lambda>r. ur_request r \<noteq> q) (ls_rows s),
    ls_log := filter (\<lambda>e. ur_request (en_row e) \<noteq> q) (ls_log s)\<rparr>)"
proof -
  have "\<forall>e \<in> set (ls_log s). 0 \<le> charged e"
    using lim_invD(3,4) [OF inv] by (simp add: charged_def)
  then have "window_charge lm tenant t (filter P (ls_log s)) \<le> max 0 (lm_limit lm)" for tenant t P
    using window_charge_filter lim_invD(6) [OF inv] order_trans by blast
  moreover have m: "map en_row (filter (\<lambda>e. ur_request (en_row e) \<noteq> q) es) =
      filter (\<lambda>r. ur_request r \<noteq> q) (map en_row es)" for es
    by (simp add: filter_map comp_def)
  have "evict lm now (filter (\<lambda>r. ur_request r \<noteq> q) (ls_rows s)) =
      evict lm now (map en_row (filter (\<lambda>e. ur_request (en_row e) \<noteq> q) (ls_log s)))"
    if "ls_last s \<le> now" for now
    unfolding m evict_filter by (simp add: lim_invD(1) [OF inv that])
  ultimately show ?thesis
    using lim_invD(2-5) [OF inv] by (auto simp: lim_inv_def)
qed

lemma lim_inv_step: "lim_step lm s s' \<Longrightarrow> lim_inv lm s \<Longrightarrow> lim_inv lm s'"
proof (induction rule: lim_step.cases)
  case (admit s now est tenant request d rows')
  then show ?case by (simp add: lim_inv_admit)
next
  case (refuse s now tenant est request d rows')
  then show ?case
    using check_refused(2) [of lm tenant est now request "ls_rows s" d rows']
    by (fastforce simp: lim_inv_def evict_evict)
next
  case (fails tenant est now request s e rows')
  then show ?case using check_error by fastforce
next
  case (settles n s rv rows')
  then show ?case using lim_inv_settle [of lm s n "rv_request rv"] by (simp add: settle_Inr)
next
  case (settle_fails rv n s e rows')
  then show ?case by (simp add: settle_Inl)
next
  case (releases rv s rows')
  then show ?case using lim_inv_release [of lm s "rv_request rv"] by (simp add: release_eq)
qed

lemma lim_inv_steps: "(lim_step lm)\<^sup>*\<^sup>* s s' \<Longrightarrow> lim_inv lm s \<Longrightarrow> lim_inv lm s'"
  by (induction rule: rtranclp_induct) (auto intro: lim_inv_step)

end
