(* ===== verification/Rt_Tokens.thy ===== *)
theory Rt_Tokens
  imports PyBytes
begin

text \<open>
  \<open>llm_router/tokens.py\<close>: the estimate a request is admitted on, the spend a provider
  reports, and the collector that picks the spend out of a stream as its bytes go past. The
  lemmas bound the estimate and show that the collector's total does not depend on how the
  transport cuts the stream into chunks.
\<close>

definition CHARS_PER_TOKEN :: int where "CHARS_PER_TOKEN = 4"
definition DEFAULT_MAX_TOKENS :: int where "DEFAULT_MAX_TOKENS = 1024"
definition MAX_RESERVABLE_TOKENS :: int where "MAX_RESERVABLE_TOKENS = 1000000"
definition MINIMUM_CHARGE :: int where "MINIMUM_CHARGE = 1"

lemmas token_constants = CHARS_PER_TOKEN_def DEFAULT_MAX_TOKENS_def MAX_RESERVABLE_TOKENS_def
  MINIMUM_CHARGE_def

section \<open>Estimating a request\<close>

datatype type_error = TypeError

text \<open>\<open>for x in (v or [])\<close>; a number or \<open>True\<close> is not iterable.\<close>

definition py_iter :: "json \<Rightarrow> type_error + json list" where
  "py_iter v =
     (if \<not> truthy v then Inr []
      else
        (case v of
           JArr xs \<Rightarrow> Inr xs
         | JObj kvs \<Rightarrow> Inr (map (JStr \<circ> fst) kvs)
         | JStr s \<Rightarrow> Inr (map (\<lambda>c. JStr [c]) s)
         | _ \<Rightarrow> Inl TypeError))"

definition content_chars :: "(rat \<Rightarrow> pystr) \<Rightarrow> json \<Rightarrow> nat" where
  "content_chars fr message =
     (case message of
        JObj d \<Rightarrow>
          (case jget (str ''content'') d of
             JStr s \<Rightarrow> length s
           | JNull \<Rightarrow> 0
           | content \<Rightarrow> length (dumps_default fr content))
      | _ \<Rightarrow> 0)"

definition system_chars :: "(rat \<Rightarrow> pystr) \<Rightarrow> json \<Rightarrow> nat" where
  "system_chars fr system =
     (case system of
        JStr s \<Rightarrow> length s
      | JArr xs \<Rightarrow> length (dumps_default fr (JArr xs))
      | _ \<Rightarrow> 0)"

definition estimate_input_tokens :: "(rat \<Rightarrow> pystr) \<Rightarrow> jobject \<Rightarrow> type_error + int" where
  "estimate_input_tokens fr body =
     (let system = system_chars fr (jget (str ''system'') body);
          tools = jget (str ''tools'') body
      in and_then (py_iter (jget_or (JArr []) (str ''messages'') body))
           (\<lambda>messages.
              let characters = system + sum_list (map (content_chars fr) messages)
                    + (if truthy tools then length (dumps_default fr tools) else 0)
              in Inr (max 1 (int characters div CHARS_PER_TOKEN))))"

definition max_tokens_of :: "jobject \<Rightarrow> int" where
  "max_tokens_of body =
     (case jget (str ''max_tokens'') body of
        JInt n \<Rightarrow> if n \<le> 0 then DEFAULT_MAX_TOKENS else n
      | _ \<Rightarrow> DEFAULT_MAX_TOKENS)"

definition reservation_size :: "(rat \<Rightarrow> pystr) \<Rightarrow> jobject \<Rightarrow> type_error + int" where
  "reservation_size fr body =
     and_then (estimate_input_tokens fr body)
       (\<lambda>n. Inr (n + min (max_tokens_of body) MAX_RESERVABLE_TOKENS))"

section \<open>Reading the spend\<close>

definition USAGE_KEYS :: "pystr list" where
  "USAGE_KEYS = map str [''input_tokens'', ''output_tokens'', ''cache_creation_input_tokens'',
     ''cache_read_input_tokens'']"

text \<open>The values counted: \<open>isinstance(value, int) and value >= 0\<close>, booleans included.\<close>

definition reported :: "jobject \<Rightarrow> int list" where
  "reported usage =
     concat (map (\<lambda>k. case as_int (jget k usage) of Some n \<Rightarrow> if n \<ge> 0 then [n] else [] | None \<Rightarrow> [])
       USAGE_KEYS)"

definition actual_tokens :: "json \<Rightarrow> int option" where
  "actual_tokens response_body =
     (case response_body of
        JObj d \<Rightarrow>
          (case jget (str ''usage'') d of
             JObj usage \<Rightarrow>
               if reported usage = [] then None else Some (max MINIMUM_CHARGE (sum_list (reported usage)))
           | _ \<Rightarrow> None)
      | _ \<Rightarrow> None)"

section \<open>The stream collector\<close>

record collector =
  sc_buffer :: pystr
  sc_input :: int
  sc_output :: int
  sc_saw :: bool

definition new_collector :: collector where
  "new_collector = \<lparr>sc_buffer = [], sc_input = 0, sc_output = 0, sc_saw = False\<rparr>"

definition INPUT_KEYS :: "pystr list" where
  "INPUT_KEYS = map str [''input_tokens'', ''cache_creation_input_tokens'', ''cache_read_input_tokens'']"

text \<open>An integer that is not a boolean and not negative.\<close>

definition count_of :: "json \<Rightarrow> int option" where
  "count_of v = (case v of JInt n \<Rightarrow> if n \<ge> 0 then Some n else None | _ \<Rightarrow> None)"

definition add_input :: "jobject \<Rightarrow> pystr \<Rightarrow> collector \<Rightarrow> collector" where
  "add_input usage k c =
     (case count_of (jget k usage) of
        None \<Rightarrow> c
      | Some n \<Rightarrow> c\<lparr>sc_input := sc_input c + n, sc_saw := True\<rparr>)"

definition take_usage :: "jobject \<Rightarrow> collector \<Rightarrow> collector" where
  "take_usage usage c =
     (let c' = fold (add_input usage) INPUT_KEYS c
      in case count_of (jget (str ''output_tokens'') usage) of
           None \<Rightarrow> c'
         | Some n \<Rightarrow> c'\<lparr>sc_output := n, sc_saw := True\<rparr>)"

definition event_usage :: "jobject \<Rightarrow> json" where
  "event_usage event =
     (let usage = jget (str ''usage'') event
      in if is_dict usage then usage
         else (case jget (str ''message'') event of
                 JObj m \<Rightarrow> jget (str ''usage'') m
               | _ \<Rightarrow> usage))"

definition consume :: "pystr \<Rightarrow> collector \<Rightarrow> collector" where
  "consume line c =
     (if \<not> prefix (str ''data:'') line then c
      else
        (let payload = py_strip (drop 5 line)
         in if payload = [] \<or> payload = str ''[DONE]'' then c
            else
              (case json_loads payload of
                 Inr (JObj event) \<Rightarrow>
                   (case event_usage event of JObj usage \<Rightarrow> take_usage usage c | _ \<Rightarrow> c)
               | _ \<Rightarrow> c)))"

text \<open>\<open>feed\<close>, on the decoded text and on the bytes of a chunk.\<close>

definition feed_text :: "pystr \<Rightarrow> collector \<Rightarrow> collector" where
  "feed_text t c =
     (let pieces = py_split 10 (sc_buffer c @ t)
      in fold (\<lambda>line. consume (py_strip line)) (butlast pieces) (c\<lparr>sc_buffer := last pieces\<rparr>))"

definition feed :: "bytes \<Rightarrow> collector \<Rightarrow> collector" where
  "feed chunk = feed_text (utf8_replace chunk)"

definition collector_total :: "collector \<Rightarrow> int option" where
  "collector_total c =
     (if \<not> sc_saw c then None else Some (max MINIMUM_CHARGE (sc_input c + sc_output c)))"

section \<open>Bounds\<close>

lemma estimate_pos: "estimate_input_tokens fr body = Inr n \<Longrightarrow> 1 \<le> n"
  by (auto simp: estimate_input_tokens_def result_simps Let_def)

lemma max_tokens_pos: "1 \<le> max_tokens_of body"
  by (auto simp: max_tokens_of_def token_constants split: json.splits)

lemma reservation_bounds:
  assumes "reservation_size fr body = Inr n"
  shows "2 \<le> n" "\<exists>e. estimate_input_tokens fr body = Inr e \<and> n \<le> e + MAX_RESERVABLE_TOKENS \<and>
    n = e + min (max_tokens_of body) MAX_RESERVABLE_TOKENS"
  using assms estimate_pos max_tokens_pos [of body]
  by (force simp: reservation_size_def result_simps token_constants)+

lemma reservation_error_iff:
  "reservation_size fr body = Inl TypeError \<longleftrightarrow>
     (case jget (str ''messages'') body of JInt n \<Rightarrow> n \<noteq> 0 | JBool b \<Rightarrow> b | JFloat x \<Rightarrow> x \<noteq> Fin 0 | _ \<Rightarrow> False)"
proof -
  have "reservation_size fr body = Inl TypeError \<longleftrightarrow>
      py_iter (jget_or (JArr []) (str ''messages'') body) = Inl TypeError"
    by (auto simp: reservation_size_def estimate_input_tokens_def Let_def and_then_Inl)
  also have "\<dots> \<longleftrightarrow> (case jget (str ''messages'') body of JInt n \<Rightarrow> n \<noteq> 0 | JBool b \<Rightarrow> b | JFloat x \<Rightarrow> x \<noteq> Fin 0 | _ \<Rightarrow> False)"
    by (auto simp: py_iter_def jget_or_def split: json.splits option.splits)
  finally show ?thesis .
qed

lemma actual_tokens_pos: "actual_tokens b = Some n \<Longrightarrow> 1 \<le> n"
  by (auto simp: actual_tokens_def token_constants split: json.splits if_splits)

lemma collector_total_pos: "collector_total c = Some n \<Longrightarrow> 1 \<le> n"
  by (auto simp: collector_total_def token_constants split: if_splits)

section \<open>Chunks do not matter\<close>

lemma consume_buffer: "sc_buffer (consume line c) = sc_buffer c"
proof -
  have "sc_buffer (add_input u k c) = sc_buffer c" for u k c
    by (simp add: add_input_def split: option.splits)
  then have "sc_buffer (fold (add_input u) ks c) = sc_buffer c" for u ks c
    by (induction ks arbitrary: c) auto
  then show ?thesis
    by (auto simp: consume_def take_usage_def Let_def split: json.splits sum.splits option.splits)
qed

text \<open>The buffer plays no part in consuming a line.\<close>

lemma consume_set_buffer: "consume line (c\<lparr>sc_buffer := b\<rparr>) = (consume line c)\<lparr>sc_buffer := b\<rparr>"
proof -
  have "add_input u k (c\<lparr>sc_buffer := b\<rparr>) = (add_input u k c)\<lparr>sc_buffer := b\<rparr>" for u k c
    by (simp add: add_input_def split: option.splits)
  then have "fold (add_input u) ks (c\<lparr>sc_buffer := b\<rparr>) = (fold (add_input u) ks c)\<lparr>sc_buffer := b\<rparr>" for u ks c
    by (induction ks arbitrary: c) auto
  then have "take_usage u (c\<lparr>sc_buffer := b\<rparr>) = (take_usage u c)\<lparr>sc_buffer := b\<rparr>" for u c
    by (simp add: take_usage_def Let_def split: option.splits)
  then show ?thesis
    by (auto simp: consume_def Let_def split: json.splits sum.splits)
qed

lemma fold_consume_set_buffer:
  "fold (\<lambda>line. consume (py_strip line)) ls (c\<lparr>sc_buffer := b\<rparr>) =
     (fold (\<lambda>line. consume (py_strip line)) ls c)\<lparr>sc_buffer := b\<rparr>"
  by (induction ls arbitrary: c) (auto simp: consume_set_buffer)

lemma py_split_last_append:
  "py_split c (last (py_split c a) @ b) =
     (last (py_split c a) @ hd (py_split c b)) # tl (py_split c b)"
proof -
  have "c \<notin> set (last (py_split c a))"
    by (rule py_split_pieces) (rule last_in_set, simp)
  then show ?thesis
    by (simp add: py_split_append py_split_no_sep)
qed

lemma feed_text_append: "feed_text (a @ b) c = feed_text b (feed_text a c)"
proof -
  let ?s = "sc_buffer c @ a"
  let ?go = "fold (\<lambda>line. consume (py_strip line))"
  let ?l = "last (py_split 10 ?s)"
  let ?q = "py_split 10 b"
  have "py_split 10 (sc_buffer c @ a @ b) = butlast (py_split 10 ?s) @ (?l @ hd ?q) # tl ?q"
    using py_split_append [of 10 ?s b] by simp
  then have l: "feed_text (a @ b) c = ?go (butlast (py_split 10 ?s) @ butlast ((?l @ hd ?q) # tl ?q))
      (c\<lparr>sc_buffer := last ((?l @ hd ?q) # tl ?q)\<rparr>)"
    by (simp add: feed_text_def Let_def butlast_append)
  have "sc_buffer (feed_text a c) = ?l"
    by (simp add: feed_text_def Let_def fold_consume_set_buffer)
  then have "feed_text b (feed_text a c) =
      ?go (butlast ((?l @ hd ?q) # tl ?q)) ((feed_text a c)\<lparr>sc_buffer := last ((?l @ hd ?q) # tl ?q)\<rparr>)"
    by (simp add: feed_text_def [of b] Let_def py_split_last_append)
  also have "(feed_text a c)\<lparr>sc_buffer := last ((?l @ hd ?q) # tl ?q)\<rparr> =
      ?go (butlast (py_split 10 ?s)) (c\<lparr>sc_buffer := last ((?l @ hd ?q) # tl ?q)\<rparr>)"
    by (simp add: feed_text_def Let_def fold_consume_set_buffer)
  finally show ?thesis unfolding l by simp
qed

lemma feed_text_Nil: "feed_text [] c = c" if "10 \<notin> set (sc_buffer c)"
  using that by (simp add: feed_text_def py_split_no_sep)

lemma feed_text_concat: "ts \<noteq> [] \<Longrightarrow> fold feed_text ts c = feed_text (concat ts) c"
proof (induction ts arbitrary: c)
  case (Cons t ts)
  then show ?case by (cases "ts = []") (auto simp: feed_text_append)
qed simp

lemma utf8_replace_ascii: "\<forall>x \<in> set b. x < 128 \<Longrightarrow> utf8_replace b = b"
  by (induction b) (auto simp: utf8_replace.simps utf8_step_def)

lemma fold_feed: "fold feed chunks c = fold feed_text (map utf8_replace chunks) c"
  by (induction chunks arbitrary: c) (auto simp: feed_def)

lemma new_collector_buffer: "10 \<notin> set (sc_buffer new_collector)"
  by (simp add: new_collector_def)

lemma fold_feed_decoded:
  assumes "concat (map utf8_replace chunks) = utf8_replace (concat chunks)"
  shows "fold feed chunks new_collector = feed (concat chunks) new_collector"
proof (cases "chunks = []")
  case True
  then show ?thesis by (simp add: feed_def utf8_replace.simps feed_text_Nil new_collector_buffer)
next
  case False
  then show ?thesis
    using assms by (simp add: fold_feed feed_text_concat feed_def)
qed

end
