(* ===== verification/Rt_Providers.thy ===== *)
theory Rt_Providers
  imports Rt_Tokens Http
begin

text \<open>
  \<open>llm_router/providers.py\<close> and \<open>errors.py\<close>: the providers, the classification of a
  status code, one attempt against one provider (with a JSON body, or opening a stream), and the
  only error payload a client ever sees. The HTTP client is an argument: what it does with the
  \<open>n\<close>-th request of a routing.
\<close>

section \<open>Error payloads\<close>

definition RATE_LIMITED :: pystr where "RATE_LIMITED = str ''rate_limit_error''"
definition UPSTREAM_DOWN :: pystr where "UPSTREAM_DOWN = str ''api_error''"
definition BAD_REQUEST :: pystr where "BAD_REQUEST = str ''invalid_request_error''"
definition TIMEOUT :: pystr where "TIMEOUT = str ''timeout_error''"

definition SAFE_MESSAGES :: "(pystr \<times> pystr) list" where
  "SAFE_MESSAGES =
     [(RATE_LIMITED, str ''Token rate limit exceeded for this API key.''),
      (UPSTREAM_DOWN, str ''No model provider was able to serve this request.''),
      (BAD_REQUEST, str ''The request could not be processed.''),
      (TIMEOUT, str ''The request timed out before any provider responded.'')]"

definition gateway_error :: "pystr \<Rightarrow> pystr option \<Rightarrow> jobject \<Rightarrow> json" where
  "gateway_error error_type message detail =
     (let canned = (case map_of SAFE_MESSAGES error_type of
            Some m \<Rightarrow> m | None \<Rightarrow> str ''The request could not be completed.'');
          chosen = (case message of Some m \<Rightarrow> if m = [] then canned else m | None \<Rightarrow> canned)
      in JObj ([(str ''type'', JStr (str ''error'')),
           (str ''error'', JObj [(str ''type'', JStr error_type), (str ''message'', JStr chosen)])]
         @ (if detail = [] then [] else [(str ''gateway'', JObj detail)])))"

section \<open>Providers\<close>

datatype outcome = Success | RateLimited | TimedOut | Unavailable | ClientError

fun outcome_text :: "outcome \<Rightarrow> pystr" where
  "outcome_text Success = str ''success''"
| "outcome_text RateLimited = str ''rate_limited''"
| "outcome_text TimedOut = str ''timeout''"
| "outcome_text Unavailable = str ''unavailable''"
| "outcome_text ClientError = str ''client_error''"

record provider =
  pv_name :: pystr
  pv_url :: pystr
  pv_model :: pystr
  pv_timeout :: pyfloat
  pv_api_key :: "pystr option"
  pv_key_header :: pystr

definition auth_headers :: "provider \<Rightarrow> headers" where
  "auth_headers p =
     (case pv_api_key p of
        Some k \<Rightarrow> if k = [] then [] else [(pv_key_header p, k)]
      | None \<Rightarrow> [])"

record attempt =
  at_provider :: provider
  at_outcome :: outcome
  at_status :: "int option"
  at_body :: json
  at_elapsed :: rat

definition at_succeeded :: "attempt \<Rightarrow> bool" where
  "at_succeeded a \<longleftrightarrow> at_outcome a = Success"

definition should_failover :: "outcome \<Rightarrow> bool" where
  "should_failover oc \<longleftrightarrow> oc \<in> {RateLimited, TimedOut, Unavailable}"

definition classify :: "int \<Rightarrow> outcome" where
  "classify status =
     (if status = 429 then RateLimited
      else if status = 401 \<or> status = 403 then Unavailable
      else if status \<ge> 500 then Unavailable
      else if status \<ge> 400 then ClientError
      else Success)"

lemma classify_complete:
  "classify status = RateLimited \<longleftrightarrow> status = 429"
  "classify status = Unavailable \<longleftrightarrow> status = 401 \<or> status = 403 \<or> 500 \<le> status"
  "classify status = ClientError \<longleftrightarrow> 400 \<le> status \<and> status < 500 \<and> status \<notin> {401, 403, 429}"
  "classify status = Success \<longleftrightarrow> status < 400"
  "classify status \<noteq> TimedOut"
  by (auto simp: classify_def)

section \<open>One attempt\<close>

record outbound =
  ob_url :: pystr
  ob_payload :: jobject
  ob_headers :: headers
  ob_timeout :: pyfloat
  ob_stream :: bool

text \<open>How a call of the HTTP client ends, with the time it took.\<close>

record http_reply =
  rp_status :: int
  rp_headers :: headers
  rp_chunks :: "bytes list"  \<comment> \<open>the body, as the transport delivers it\<close>

datatype client_result =
    Reply http_reply rat
  | ClientTimeout rat  \<comment> \<open>\<open>TimeoutError\<close> or \<open>httpx.TimeoutException\<close>\<close>
  | ClientHttpError rat  \<comment> \<open>any other \<open>httpx.HTTPError\<close>\<close>
  | ClientRaise  \<comment> \<open>any other exception, cancellation included\<close>

type_synonym http_client = "nat \<Rightarrow> outbound \<Rightarrow> client_result"

definition outbound_request :: "bool \<Rightarrow> provider \<Rightarrow> jobject \<Rightarrow> headers \<Rightarrow> outbound" where
  "outbound_request stream p body hs =
     \<lparr>ob_url = pv_url p, ob_payload = AList.update (str ''model'') (JStr (pv_model p)) body,
      ob_headers = dict_merge hs (auth_headers p), ob_timeout = pv_timeout p, ob_stream = stream\<rparr>"

text \<open>\<open>call_provider\<close>; \<open>None\<close> when an exception escapes it.\<close>

definition call_provider :: "http_client \<Rightarrow> nat \<Rightarrow> provider \<Rightarrow> jobject \<Rightarrow> headers \<Rightarrow> attempt option" where
  "call_provider client n p body hs =
     (case client n (outbound_request False p body hs) of
        ClientTimeout t \<Rightarrow> Some
          \<lparr>at_provider = p, at_outcome = TimedOut, at_status = None, at_body = JNull, at_elapsed = t\<rparr>
      | ClientHttpError t \<Rightarrow> Some
          \<lparr>at_provider = p, at_outcome = Unavailable, at_status = None, at_body = JNull, at_elapsed = t\<rparr>
      | ClientRaise \<Rightarrow> None
      | Reply r t \<Rightarrow> Some
          \<lparr>at_provider = p, at_outcome = classify (rp_status r), at_status = Some (rp_status r),
           at_body = (case loads_bytes (concat (rp_chunks r)) of Inl e \<Rightarrow> JNull | Inr v \<Rightarrow> v),
           at_elapsed = t\<rparr>)"

text \<open>\<open>open_provider_stream\<close>: the attempt, and the open response of a success.\<close>

definition open_provider_stream ::
    "http_client \<Rightarrow> nat \<Rightarrow> provider \<Rightarrow> jobject \<Rightarrow> headers \<Rightarrow> (attempt \<times> http_reply option) option" where
  "open_provider_stream client n p body hs =
     (let att = (\<lambda>oc status t. \<lparr>at_provider = p, at_outcome = oc, at_status = status, at_body = JNull,
            at_elapsed = t\<rparr>)
      in case client n (outbound_request True p body hs) of
           ClientTimeout t \<Rightarrow> Some (att TimedOut None t, None)
         | ClientHttpError t \<Rightarrow> Some (att Unavailable None t, None)
         | ClientRaise \<Rightarrow> None
         | Reply r t \<Rightarrow>
             (let oc = classify (rp_status r)
              in Some (att oc (Some (rp_status r)) t, if oc = Success then Some r else None)))"

section \<open>Credentials and the model name\<close>

lemma outbound_model: "jget (str ''model'') (ob_payload (outbound_request stream p body hs)) = JStr (pv_model p)"
  by (simp add: outbound_request_def jget_or_def)

lemma outbound_payload_rest:
  "k \<noteq> str ''model'' \<Longrightarrow> jget k (ob_payload (outbound_request stream p body hs)) = jget k body"
  by (simp add: outbound_request_def jget_or_def)

lemma outbound_credential:
  "pv_api_key p = Some k \<Longrightarrow> k \<noteq> [] \<Longrightarrow> header_get (pv_key_header p) (ob_headers (outbound_request stream p body hs)) = Some k"
  by (simp add: outbound_request_def auth_headers_def header_get_def map_of_dict_merge)

lemma call_provider_outcome:
  "call_provider client n p body hs = Some a \<Longrightarrow> at_provider a = p"
  "call_provider client n p body hs = Some a \<Longrightarrow> at_outcome a = TimedOut \<Longrightarrow> at_status a = None"
  by (auto simp: call_provider_def classify_complete split: client_result.splits)

end
