(* ===== verification/Rt_Router.thy ===== *)
theory Rt_Router
  imports Rt_Limiter Rt_Providers
begin

text \<open>
  \<open>llm_router/router.py\<close>: one request through the router. Quota is reserved, the providers
  are tried in order, and the reservation is settled or released; a stream is handed to the
  client with its reservation open and settled when the relay ends. The table is passed through
  explicitly; an exception that escapes comes with the table as the handlers left it.
\<close>

section \<open>Results\<close>

record route_result =
  rr_status :: int
  rr_body :: json
  rr_headers :: headers
  rr_attempts :: "attempt list"
  rr_stream :: "(http_reply \<times> reservation \<times> int) option"
  rr_media :: "pystr option"

datatype route_exn =
    RouteTypeError  \<comment> \<open>from the estimate, before anything is reserved\<close>
  | RouteStoreError store_error
  | RouteClientRaised

text \<open>\<open>int(x + 0.999)\<close> in double arithmetic.\<close>

definition py_trunc :: "rat \<Rightarrow> int" where
  "py_trunc x = (if 0 \<le> x then \<lfloor>x\<rfloor> else \<lceil>x\<rceil>)"

definition retry_header :: "rat \<Rightarrow> int" where
  "retry_header x = max 1 (py_trunc (fadd x (rnd64 (999 / 1000))))"

definition rate_limit_headers :: "limit_decision \<Rightarrow> headers" where
  "rate_limit_headers d =
     [(str ''x-ratelimit-limit-tokens'', int_digits (ld_limit d)),
      (str ''x-ratelimit-remaining-tokens'', int_digits (ld_remaining d))]
     @ (case ld_retry_after d of None \<Rightarrow> [] | Some x \<Rightarrow> [(str ''retry-after'', int_digits (retry_header x))])"

definition py_round3 :: "rat \<Rightarrow> rat" where
  "py_round3 x = rnd64 (of_int (round_half_even (x * 1000)) / 1000)"

definition refused_result :: "limiter \<Rightarrow> limit_decision \<Rightarrow> int \<Rightarrow> route_result" where
  "refused_result lm d requested =
     \<lparr>rr_status = 429,
      rr_body = gateway_error RATE_LIMITED None
        [(str ''limit_tokens'', JInt (ld_limit d)), (str ''used_tokens'', JInt (ld_used d)),
         (str ''requested_tokens'', JInt requested),
         (str ''window_seconds'', JFloat (Fin (lm_window lm))),
         (str ''retry_after_seconds'',
          JFloat (Fin (py_round3 (case ld_retry_after d of None \<Rightarrow> 0 | Some x \<Rightarrow> x))))],
      rr_headers = rate_limit_headers d, rr_attempts = [], rr_stream = None, rr_media = None\<rparr>"

definition success_headers :: "limit_decision \<Rightarrow> provider \<Rightarrow> attempt list \<Rightarrow> headers" where
  "success_headers d p attempts =
     rate_limit_headers d
     @ [(str ''x-gateway-provider'', pv_name p),
        (str ''x-gateway-attempts'', int_digits (int (length attempts)))]"

definition success_result :: "limit_decision \<Rightarrow> attempt list \<Rightarrow> route_result" where
  "success_result d attempts =
     (let a = last attempts
      in \<lparr>rr_status = 200, rr_body = (if is_dict (at_body a) then at_body a else JObj []),
          rr_headers = success_headers d (at_provider a) attempts,
          rr_attempts = attempts, rr_stream = None, rr_media = None\<rparr>)"

definition opt_int :: "int option \<Rightarrow> json" where
  "opt_int x = (case x of None \<Rightarrow> JNull | Some n \<Rightarrow> JInt n)"

definition client_error_result :: "limit_decision \<Rightarrow> attempt list \<Rightarrow> route_result" where
  "client_error_result d attempts =
     (let failed = last attempts
      in \<lparr>rr_status = (case at_status failed of Some n \<Rightarrow> if n = 0 then 400 else n | None \<Rightarrow> 400),
          rr_body = gateway_error BAD_REQUEST None
            [(str ''provider_status'', opt_int (at_status failed)),
             (str ''attempts'', JInt (int (length attempts)))],
          rr_headers = rate_limit_headers d, rr_attempts = attempts, rr_stream = None, rr_media = None\<rparr>)"

definition timed_out :: "attempt list \<Rightarrow> attempt list" where
  "timed_out attempts = filter (\<lambda>a. at_outcome a = TimedOut) attempts"

definition attempt_report :: "attempt \<Rightarrow> json" where
  "attempt_report a =
     JObj [(str ''provider'', JStr (pv_name (at_provider a))),
       (str ''outcome'', JStr (outcome_text (at_outcome a))),
       (str ''elapsed_ms'', JInt (round_half_even (rnd64 (at_elapsed a * 1000))))]"

definition exhausted_result :: "limit_decision \<Rightarrow> attempt list \<Rightarrow> route_result" where
  "exhausted_result d attempts =
     (let every_timeout = (length (timed_out attempts) = length attempts)
      in \<lparr>rr_status = (if every_timeout then 504 else 502),
          rr_body = gateway_error (if every_timeout then TIMEOUT else UPSTREAM_DOWN) None
            [(str ''attempts'', JArr (map attempt_report attempts))],
          rr_headers = rate_limit_headers d, rr_attempts = attempts, rr_stream = None, rr_media = None\<rparr>)"

section \<open>Trying the providers\<close>

datatype loop_end =
    LoopSucceeded "attempt list"
  | LoopClientError "attempt list"
  | LoopExhausted "attempt list"
  | LoopRaised

fun try_providers :: "http_client \<Rightarrow> jobject \<Rightarrow> headers \<Rightarrow> provider list \<Rightarrow> attempt list \<Rightarrow> loop_end" where
  "try_providers client body hs [] attempts = LoopExhausted attempts"
| "try_providers client body hs (p # ps) attempts =
     (case call_provider client (length attempts) p body hs of
        None \<Rightarrow> LoopRaised
      | Some a \<Rightarrow>
          (let attempts' = attempts @ [a]
           in if at_succeeded a then LoopSucceeded attempts'
              else if \<not> should_failover (at_outcome a) then LoopClientError attempts'
              else try_providers client body hs ps attempts'))"

datatype stream_end =
    StreamOpened "attempt list" http_reply
  | StreamClientError "attempt list"
  | StreamExhausted "attempt list"
  | StreamRaised

fun try_streams :: "http_client \<Rightarrow> jobject \<Rightarrow> headers \<Rightarrow> provider list \<Rightarrow> attempt list \<Rightarrow> stream_end" where
  "try_streams client body hs [] attempts = StreamExhausted attempts"
| "try_streams client body hs (p # ps) attempts =
     (case open_provider_stream client (length attempts) p body hs of
        None \<Rightarrow> StreamRaised
      | Some (a, reply) \<Rightarrow>
          (let attempts' = attempts @ [a]
           in case reply of
                Some r \<Rightarrow> StreamOpened attempts' r
              | None \<Rightarrow>
                  if \<not> should_failover (at_outcome a) then StreamClientError attempts'
                  else try_streams client body hs ps attempts'))"

section \<open>Closing a reservation\<close>

text \<open>
  The \<open>try\<close> block around a settlement: an exception of the store releases the
  reservation and is raised again.
\<close>

definition settle_or_release :: "reservation \<Rightarrow> int \<Rightarrow> table \<Rightarrow> (store_error + unit) \<times> table" where
  "settle_or_release rv n rows =
     (case settle rv n rows of
        (Inr u, rows') \<Rightarrow> (Inr u, rows')
      | (Inl e, rows') \<Rightarrow> (Inl e, snd (release rv rows')))"

text \<open>\<open>_settle\<close>: the reported spend, or the estimate.\<close>

definition charge_of :: "attempt \<Rightarrow> int \<Rightarrow> int" where
  "charge_of a reserved = (case actual_tokens (at_body a) of Some n \<Rightarrow> n | None \<Rightarrow> reserved)"

definition finish :: "reservation \<Rightarrow> int \<Rightarrow> route_result \<Rightarrow> table \<Rightarrow> (route_exn + route_result) \<times> table" where
  "finish rv n result rows =
     (case settle_or_release rv n rows of
        (Inr u, rows') \<Rightarrow> (Inr result, rows')
      | (Inl e, rows') \<Rightarrow> (Inl (RouteStoreError e), rows'))"

definition exhausted ::
    "reservation \<Rightarrow> int \<Rightarrow> limit_decision \<Rightarrow> attempt list \<Rightarrow> table \<Rightarrow> (route_exn + route_result) \<times> table" where
  "exhausted rv reserved d attempts rows =
     (if timed_out attempts \<noteq> [] then finish rv reserved (exhausted_result d attempts) rows
      else (Inr (exhausted_result d attempts), snd (release rv rows)))"

section \<open>Routing\<close>

definition media_type :: "http_reply \<Rightarrow> pystr" where
  "media_type r =
     (let content_type = (case header_get (str ''content-type'') (rp_headers r) of
            Some t \<Rightarrow> t | None \<Rightarrow> str ''text/event-stream'');
          media = py_strip (hd (py_split 59 content_type))
      in if media = [] then str ''text/event-stream'' else media)"

definition stream_result :: "limit_decision \<Rightarrow> attempt list \<Rightarrow> http_reply \<Rightarrow> reservation \<Rightarrow> int \<Rightarrow> route_result" where
  "stream_result d attempts r rv reserved =
     \<lparr>rr_status = 200, rr_body = JObj [],
      rr_headers = success_headers d (at_provider (last attempts)) attempts,
      rr_attempts = attempts, rr_stream = Some (r, rv, reserved), rr_media = Some (media_type r)\<rparr>"

definition route_stream ::
    "http_client \<Rightarrow> provider list \<Rightarrow> jobject \<Rightarrow> headers \<Rightarrow> limit_decision \<Rightarrow> reservation \<Rightarrow> int \<Rightarrow> table
       \<Rightarrow> (route_exn + route_result) \<times> table" where
  "route_stream client providers body hs d rv reserved rows =
     (case try_streams client body hs providers [] of
        StreamOpened attempts r \<Rightarrow> (Inr (stream_result d attempts r rv reserved), rows)
      | StreamClientError attempts \<Rightarrow> finish rv reserved (client_error_result d attempts) rows
      | StreamExhausted attempts \<Rightarrow> exhausted rv reserved d attempts rows
      | StreamRaised \<Rightarrow> (Inl RouteClientRaised, snd (release rv rows)))"

definition route_json ::
    "http_client \<Rightarrow> provider list \<Rightarrow> jobject \<Rightarrow> headers \<Rightarrow> limit_decision \<Rightarrow> reservation \<Rightarrow> int \<Rightarrow> table
       \<Rightarrow> (route_exn + route_result) \<times> table" where
  "route_json client providers body hs d rv reserved rows =
     (case try_providers client body hs providers [] of
        LoopSucceeded attempts \<Rightarrow>
          finish rv (charge_of (last attempts) reserved) (success_result d attempts) rows
      | LoopClientError attempts \<Rightarrow>
          finish rv (charge_of (last attempts) reserved) (client_error_result d attempts) rows
      | LoopExhausted attempts \<Rightarrow> exhausted rv reserved d attempts rows
      | LoopRaised \<Rightarrow> (Inl RouteClientRaised, snd (release rv rows)))"

record router =
  ro_limiter :: limiter
  ro_providers :: "provider list"  \<comment> \<open>the primary and then the fallbacks\<close>
  ro_client :: http_client
  ro_repr :: "rat \<Rightarrow> pystr"

text \<open>\<open>Router.route\<close>, at clock reading \<open>now\<close> and with the fresh id \<open>request\<close>.\<close>

definition route ::
    "router \<Rightarrow> pystr \<Rightarrow> jobject \<Rightarrow> headers \<Rightarrow> rat \<Rightarrow> pystr \<Rightarrow> table \<Rightarrow> (route_exn + route_result) \<times> table" where
  "route ro tenant body hs now request rows =
     (case reservation_size (ro_repr ro) body of
        Inl e \<Rightarrow> (Inl RouteTypeError, rows)
      | Inr needed \<Rightarrow>
          (case check_and_reserve (ro_limiter ro) tenant needed now request rows of
             (Inl e, rows') \<Rightarrow> (Inl (RouteStoreError e), rows')
           | (Inr d, rows') \<Rightarrow>
               (case ld_reservation d of
                  None \<Rightarrow> (Inr (refused_result (ro_limiter ro) d needed), rows')
                | Some rv \<Rightarrow>
                    if truthy (jget (str ''stream'') body)
                    then route_stream (ro_client ro) (ro_providers ro) body hs d rv needed rows'
                    else route_json (ro_client ro) (ro_providers ro) body hs d rv needed rows')))"

text \<open>
  The \<open>finally\<close> of the relay, once the chunks in \<open>delivered\<close> have gone past (all of
  them, or those before the client hung up or the provider failed).
\<close>

definition relay_finish :: "reservation \<Rightarrow> int \<Rightarrow> bytes list \<Rightarrow> table \<Rightarrow> (store_error + unit) \<times> table" where
  "relay_finish rv reserved delivered rows =
     (let actual = (case collector_total (fold feed delivered new_collector) of
            Some n \<Rightarrow> n | None \<Rightarrow> reserved)
      in settle rv actual rows)"

section \<open>The loop of attempts\<close>

text \<open>What the attempts of a loop look like: one per provider, in order, each failed over.\<close>

definition attempts_along :: "provider list \<Rightarrow> attempt list \<Rightarrow> bool" where
  "attempts_along ps as \<longleftrightarrow>
     prefix (map at_provider as) ps \<and> (\<forall>a \<in> set (butlast as). should_failover (at_outcome a))"

definition good_end :: "provider list \<Rightarrow> attempt list \<Rightarrow> loop_end \<Rightarrow> bool" where
  "good_end ps attempts e \<longleftrightarrow>
     (case e of
        LoopSucceeded as \<Rightarrow>
          \<exists>bs. as = attempts @ bs \<and> bs \<noteq> [] \<and> attempts_along ps bs \<and> at_outcome (last bs) = Success
      | LoopClientError as \<Rightarrow>
          \<exists>bs. as = attempts @ bs \<and> bs \<noteq> [] \<and> attempts_along ps bs \<and> at_outcome (last bs) = ClientError
      | LoopExhausted as \<Rightarrow>
          \<exists>bs. as = attempts @ bs \<and> map at_provider bs = ps \<and> (\<forall>a \<in> set bs. should_failover (at_outcome a))
      | LoopRaised \<Rightarrow> True)"

lemma attempts_along_Cons:
  "at_provider a = p \<Longrightarrow> should_failover (at_outcome a) \<or> bs = [] \<Longrightarrow> attempts_along ps bs \<Longrightarrow>
     attempts_along (p # ps) (a # bs)"
  by (auto simp: attempts_along_def)

lemma good_end_step:
  assumes "good_end ps (attempts @ [a]) e" "at_provider a = p" "should_failover (at_outcome a)"
  shows "good_end (p # ps) attempts e"
proof (cases e)
  case (LoopSucceeded as)
  with assms(1) obtain bs where "as = attempts @ a # bs" "bs \<noteq> []" "attempts_along ps bs"
      "at_outcome (last bs) = Success"
    by (auto simp: good_end_def)
  with LoopSucceeded assms show ?thesis
    by (auto simp: good_end_def attempts_along_Cons intro!: exI [of _ "a # bs"])
next
  case (LoopClientError as)
  with assms(1) obtain bs where "as = attempts @ a # bs" "bs \<noteq> []" "attempts_along ps bs"
      "at_outcome (last bs) = ClientError"
    by (auto simp: good_end_def)
  with LoopClientError assms show ?thesis
    by (auto simp: good_end_def attempts_along_Cons intro!: exI [of _ "a # bs"])
next
  case (LoopExhausted as)
  with assms show ?thesis by (auto simp: good_end_def)
qed (simp add: good_end_def)

lemma not_failover: "\<not> at_succeeded a \<Longrightarrow> \<not> should_failover (at_outcome a) \<Longrightarrow> at_outcome a = ClientError"
  by (cases "at_outcome a") (auto simp: at_succeeded_def should_failover_def)

lemma good_end_last:
  "at_provider a = p \<Longrightarrow> at_succeeded a \<Longrightarrow> good_end (p # ps) attempts (LoopSucceeded (attempts @ [a]))"
  "at_provider a = p \<Longrightarrow> \<not> at_succeeded a \<Longrightarrow> \<not> should_failover (at_outcome a) \<Longrightarrow>
     good_end (p # ps) attempts (LoopClientError (attempts @ [a]))"
  by (auto simp: good_end_def attempts_along_def at_succeeded_def dest!: not_failover [unfolded at_succeeded_def])

lemma try_providers_good: "good_end ps attempts (try_providers client body hs ps attempts)"
proof (induction ps arbitrary: attempts)
  case Nil
  then show ?case by (simp add: good_end_def)
next
  case (Cons p ps)
  show ?case
  proof (cases "call_provider client (length attempts) p body hs")
    case None
    then show ?thesis by (simp add: good_end_def)
  next
    case (Some a)
    then have "at_provider a = p" by (rule call_provider_outcome(1))
    with Some Cons.IH show ?thesis
      by (auto simp: Let_def good_end_last intro: good_end_step)
  qed
qed

lemmas try_providers_end = try_providers_good [of _ "[]", unfolded good_end_def]

section \<open>Reservations are closed\<close>

text \<open>The requests whose row is still a reservation.\<close>

definition open_requests :: "table \<Rightarrow> pystr set" where
  "open_requests rows = ur_request ` set (filter (\<lambda>r. \<not> ur_settled r) rows)"

text \<open>
  What the router relies on: a settlement that succeeds and a release close the reservation,
  and a settlement that fails changes nothing.
\<close>

locale reservation_store =
  fixes opened :: "'s \<Rightarrow> 'q set"
    and key :: "'r \<Rightarrow> 'q"
    and settle_op :: "'r \<Rightarrow> int \<Rightarrow> 's \<Rightarrow> ('e + unit) \<times> 's"
    and release_op :: "'r \<Rightarrow> 's \<Rightarrow> ('e + unit) \<times> 's"
  assumes settle_closes: "settle_op r n s = (Inr u, s') \<Longrightarrow> opened s' = opened s - {key r}"
    and settle_failed: "settle_op r n s = (Inl e, s') \<Longrightarrow> s' = s"
    and release_closes: "opened (snd (release_op r s)) = opened s - {key r}"
begin

definition close_op :: "'r \<Rightarrow> int \<Rightarrow> 's \<Rightarrow> ('e + unit) \<times> 's" where
  "close_op r n s =
     (case settle_op r n s of
        (Inr u, s') \<Rightarrow> (Inr u, s')
      | (Inl e, s') \<Rightarrow> (Inl e, snd (release_op r s')))"

lemma close_closes: "opened (snd (close_op r n s)) = opened s - {key r}"
proof (cases "settle_op r n s")
  case (Pair res s')
  then show ?thesis
    by (cases res) (auto simp: close_op_def release_closes dest: settle_closes settle_failed)
qed

end

lemma open_requests_settle: "open_requests (map (settle_row q n) rows) = open_requests rows - {q}"
  by (induction rows) (auto simp: open_requests_def settle_row_def)

lemma open_requests_release: "open_requests (filter (\<lambda>r. ur_request r \<noteq> q) rows) = open_requests rows - {q}"
  by (induction rows) (auto simp: open_requests_def)

interpretation limiter_store: reservation_store open_requests rv_request settle release
  by unfold_locales (auto simp: settle_Inr settle_Inl release_eq open_requests_settle open_requests_release)

lemma settle_or_release_closes: "open_requests (snd (settle_or_release rv n rows)) = open_requests rows - {rv_request rv}"
  using limiter_store.close_closes [of rv n rows]
  by (simp add: limiter_store.close_op_def settle_or_release_def)

lemma finish_snd: "snd (finish rv n result rows) = snd (settle_or_release rv n rows)"
  by (simp add: finish_def split: prod.split sum.split)

lemma finish_closes: "open_requests (snd (finish rv n result rows)) = open_requests rows - {rv_request rv}"
  by (simp add: finish_snd settle_or_release_closes)

lemma exhausted_closes: "open_requests (snd (exhausted rv reserved d attempts rows)) = open_requests rows - {rv_request rv}"
  by (simp add: exhausted_def finish_closes limiter_store.release_closes)

lemma route_json_closes: "open_requests (snd (route_json client ps body hs d rv reserved rows)) = open_requests rows - {rv_request rv}"
  by (simp add: route_json_def finish_closes exhausted_closes limiter_store.release_closes split: loop_end.split)

lemma finish_result: "fst (finish rv n q rows) = Inr res \<Longrightarrow> res = q"
  by (simp add: finish_def split: prod.splits sum.splits)

lemma no_stream [simp]:
  "rr_stream (exhausted_result d as) = None" "rr_stream (client_error_result d as) = None"
  "rr_stream (success_result d as) = None" "rr_stream (refused_result lm d n) = None"
  by (simp_all add: exhausted_result_def client_error_result_def success_result_def refused_result_def Let_def)

lemma exhausted_result_eq: "fst (exhausted rv n d as rows) = Inr res \<Longrightarrow> res = exhausted_result d as"
  by (auto simp: exhausted_def dest: finish_result split: if_splits)

text \<open>A stream leaves the table alone and its reservation open; anything else closes it.\<close>

lemma route_stream_cases:
  obtains (stream) as r where
      "route_stream client ps body hs d rv reserved rows = (Inr (stream_result d as r rv reserved), rows)"
  | (closed) "open_requests (snd (route_stream client ps body hs d rv reserved rows)) = open_requests rows - {rv_request rv}"
      "\<And>res. fst (route_stream client ps body hs d rv reserved rows) = Inr res \<Longrightarrow> rr_stream res = None"
proof (cases "try_streams client body hs ps []")
  case (StreamOpened as r)
  then show ?thesis using stream by (simp add: route_stream_def)
next
  case (StreamClientError as)
  then show ?thesis
    using closed finish_result by (fastforce simp: route_stream_def finish_closes)
next
  case (StreamExhausted as)
  then show ?thesis
    using closed exhausted_result_eq by (fastforce simp: route_stream_def exhausted_closes)
next
  case StreamRaised
  then show ?thesis
    using closed by (simp add: route_stream_def limiter_store.release_closes)
qed

lemma route_json_no_stream: "fst (route_json client ps body hs d rv reserved rows) = Inr res \<Longrightarrow> rr_stream res = None"
  by (auto simp: route_json_def dest!: finish_result exhausted_result_eq split: loop_end.splits)

section \<open>The stream loop has the same shape\<close>

fun loop_of :: "stream_end \<Rightarrow> loop_end" where
  "loop_of (StreamOpened as r) = LoopSucceeded as"
| "loop_of (StreamClientError as) = LoopClientError as"
| "loop_of (StreamExhausted as) = LoopExhausted as"
| "loop_of StreamRaised = LoopRaised"

lemma open_provider_stream_outcome:
  assumes "open_provider_stream client n p body hs = Some (a, reply)"
  shows "at_provider a = p" "reply \<noteq> None \<longleftrightarrow> at_succeeded a" "at_body a = JNull"
  using assms
  by (auto simp: open_provider_stream_def Let_def at_succeeded_def split: client_result.splits if_splits)

lemma try_streams_good: "good_end ps attempts (loop_of (try_streams client body hs ps attempts))"
proof (induction ps arbitrary: attempts)
  case Nil
  then show ?case by (simp add: good_end_def)
next
  case (Cons p ps)
  show ?case
  proof (cases "open_provider_stream client (length attempts) p body hs")
    case None
    then show ?thesis by (simp add: good_end_def)
  next
    case (Some ar)
    obtain a reply where ar: "ar = (a, reply)" by (cases ar)
    note open_provider_stream_outcome [OF Some [unfolded ar]]
    with Some ar Cons.IH show ?thesis
      by (cases reply) (auto simp: Let_def good_end_last intro: good_end_step)
  qed
qed

text \<open>The attempts a loop ends with.\<close>

fun end_attempts :: "loop_end \<Rightarrow> attempt list option" where
  "end_attempts (LoopSucceeded as) = Some as"
| "end_attempts (LoopClientError as) = Some as"
| "end_attempts (LoopExhausted as) = Some as"
| "end_attempts LoopRaised = None"

lemma good_end_along: "good_end ps [] e \<Longrightarrow> end_attempts e = Some as \<Longrightarrow> attempts_along ps as"
  by (cases e) (auto simp: good_end_def attempts_along_def dest: in_set_butlastD)

section \<open>Results and their attempts\<close>

text \<open>Every result of a routing, by how its loop ended.\<close>

definition result_of :: "limit_decision \<Rightarrow> loop_end \<Rightarrow> route_result \<Rightarrow> bool" where
  "result_of d e res \<longleftrightarrow>
     (case e of
        LoopSucceeded as \<Rightarrow> rr_status res = 200 \<and> rr_attempts res = as
      | LoopClientError as \<Rightarrow> res = client_error_result d as
      | LoopExhausted as \<Rightarrow> res = exhausted_result d as
      | LoopRaised \<Rightarrow> False)"

lemma route_json_result:
  "fst (route_json client ps body hs d rv reserved rows) = Inr res \<Longrightarrow>
     result_of d (try_providers client body hs ps []) res"
  by (auto simp: route_json_def result_of_def success_result_def Let_def
      dest!: finish_result exhausted_result_eq split: loop_end.splits)

lemma route_stream_result:
  "fst (route_stream client ps body hs d rv reserved rows) = Inr res \<Longrightarrow>
     result_of d (loop_of (try_streams client body hs ps [])) res"
  by (auto simp: route_stream_def result_of_def stream_result_def
      dest!: finish_result exhausted_result_eq split: stream_end.splits)

lemma result_of_along: "good_end ps [] e \<Longrightarrow> result_of d e res \<Longrightarrow> attempts_along ps (rr_attempts res)"
  using good_end_along [of ps e]
  by (cases e) (auto simp: result_of_def client_error_result_def exhausted_result_def Let_def)

definition every_timed_out :: "attempt list \<Rightarrow> bool" where
  "every_timed_out as \<longleftrightarrow> (\<forall>a \<in> set as. at_outcome a = TimedOut)"

lemma timed_out_length: "length (timed_out as) = length as \<longleftrightarrow> every_timed_out as"
proof -
  have "length (filter P xs) = length xs \<longleftrightarrow> (\<forall>x \<in> set xs. P x)" for P and xs :: "attempt list"
    by (metis filter_True length_filter_less less_irrefl)
  then show ?thesis by (simp add: timed_out_def every_timed_out_def)
qed

text \<open>An attempt as the status code classifies it.\<close>

definition classified :: "attempt \<Rightarrow> bool" where
  "classified a \<longleftrightarrow> (case at_status a of
      Some n \<Rightarrow> at_outcome a = classify n | None \<Rightarrow> at_outcome a \<in> {TimedOut, Unavailable})"

lemma call_provider_classified: "call_provider client n p body hs = Some a \<Longrightarrow> classified a"
  by (auto simp: call_provider_def classified_def split: client_result.splits)

lemma open_provider_stream_classified: "open_provider_stream client n p body hs = Some (a, r) \<Longrightarrow> classified a"
  by (auto simp: open_provider_stream_def classified_def Let_def split: client_result.splits if_splits)

lemma try_providers_classified:
  "\<forall>a \<in> set attempts. classified a \<Longrightarrow> end_attempts (try_providers client body hs ps attempts) = Some as \<Longrightarrow>
     \<forall>a \<in> set as. classified a"
proof (induction ps arbitrary: attempts)
  case Nil
  then show ?case by simp
next
  case (Cons p ps)
  then obtain a where a: "call_provider client (length attempts) p body hs = Some a"
    by (cases "call_provider client (length attempts) p body hs") auto
  then have ok: "\<forall>x \<in> set (attempts @ [a]). classified x"
    using Cons.prems(1) call_provider_classified by auto
  from Cons.prems(2) a have "as = attempts @ [a] \<or>
      end_attempts (try_providers client body hs ps (attempts @ [a])) = Some as"
    by (simp add: Let_def split: if_splits)
  with Cons.IH [OF ok] ok show ?case by blast
qed

lemma try_streams_classified:
  "\<forall>a \<in> set attempts. classified a \<Longrightarrow>
     end_attempts (loop_of (try_streams client body hs ps attempts)) = Some as \<Longrightarrow> \<forall>a \<in> set as. classified a"
proof (induction ps arbitrary: attempts)
  case Nil
  then show ?case by simp
next
  case (Cons p ps)
  then obtain a r where a: "open_provider_stream client (length attempts) p body hs = Some (a, r)"
    by (cases "open_provider_stream client (length attempts) p body hs") auto
  then have ok: "\<forall>x \<in> set (attempts @ [a]). classified x"
    using Cons.prems(1) open_provider_stream_classified by auto
  from Cons.prems(2) a have "as = attempts @ [a] \<or>
      end_attempts (loop_of (try_streams client body hs ps (attempts @ [a]))) = Some as"
    by (simp add: Let_def split: if_splits option.splits)
  with Cons.IH [OF ok] ok show ?case by blast
qed

lemma client_error_status:
  assumes "classified a" "at_outcome a = ClientError"
  shows "\<exists>n. at_status a = Some n \<and> 400 \<le> n \<and> n < 500 \<and> n \<notin> {401, 403, 429}"
  using assms classify_complete(3) by (auto simp: classified_def split: option.splits)

text \<open>The status of a result, for a router with at least one provider.\<close>

lemma result_status:
  assumes good: "good_end ps [] e" and cls: "\<And>as. end_attempts e = Some as \<Longrightarrow> \<forall>a \<in> set as. classified a"
    and res: "result_of d e res" and ps: "ps \<noteq> []"
  shows "rr_attempts res \<noteq> []"
    and "rr_status res = 200 \<longleftrightarrow> at_outcome (last (rr_attempts res)) = Success"
    and "rr_status res = 504 \<longleftrightarrow> every_timed_out (rr_attempts res)"
    and "rr_status res = 502 \<longleftrightarrow> (\<forall>a \<in> set (rr_attempts res). should_failover (at_outcome a)) \<and> \<not> every_timed_out (rr_attempts res)"
proof -
  show "rr_attempts res \<noteq> []"
    using good res ps
    by (cases e) (auto simp: result_of_def good_end_def client_error_result_def exhausted_result_def Let_def)
  have *: "(rr_status res = 200 \<longleftrightarrow> at_outcome (last (rr_attempts res)) = Success) \<and>
    (rr_status res = 504 \<longleftrightarrow> every_timed_out (rr_attempts res)) \<and>
    (rr_status res = 502 \<longleftrightarrow> (\<forall>a \<in> set (rr_attempts res). should_failover (at_outcome a)) \<and> \<not> every_timed_out (rr_attempts res))"
  proof (cases e)
    case (LoopSucceeded as)
    with good res have "as \<noteq> []" "at_outcome (last as) = Success" "rr_status res = 200" "rr_attempts res = as"
      by (auto simp: good_end_def result_of_def)
    moreover have "last as \<in> set as" using calculation by simp
    then have "\<not> every_timed_out as" "\<not> (\<forall>a \<in> set as. should_failover (at_outcome a))"
      using calculation by (auto simp: every_timed_out_def should_failover_def intro!: bexI [of _ "last as"])
    ultimately show ?thesis by simp
  next
    case (LoopClientError as)
    with good res have as: "as \<noteq> []" "at_outcome (last as) = ClientError" "res = client_error_result d as"
      by (auto simp: good_end_def result_of_def)
    then have l: "last as \<in> set as" by simp
    then obtain n where "at_status (last as) = Some n" "400 \<le> n" "n < 500"
      using client_error_status cls [of as] LoopClientError as(2) by auto
    then have "rr_status res = n" "n \<noteq> 200" "n \<noteq> 502" "n \<noteq> 504" "rr_attempts res = as"
      by (auto simp: as(3) client_error_result_def Let_def)
    moreover have "\<not> every_timed_out as" "\<not> (\<forall>a \<in> set as. should_failover (at_outcome a))"
      using as(2) l by (auto simp: every_timed_out_def should_failover_def intro!: bexI [of _ "last as"])
    ultimately show ?thesis using as(2) by simp
  next
    case (LoopExhausted as)
    with good res have as: "\<forall>a \<in> set as. should_failover (at_outcome a)" "res = exhausted_result d as" "map at_provider as = ps"
      by (auto simp: good_end_def result_of_def)
    then have "as \<noteq> []" "rr_attempts res = as" using ps by (auto simp: exhausted_result_def Let_def)
    moreover have "at_outcome (last as) \<noteq> Success"
      using as(1) last_in_set [OF \<open>as \<noteq> []\<close>] by (auto simp: should_failover_def)
    ultimately show ?thesis
      using as(1) by (auto simp: as(2) exhausted_result_def Let_def timed_out_length)
  next
    case LoopRaised
    with res show ?thesis by (simp add: result_of_def)
  qed
  then show "rr_status res = 200 \<longleftrightarrow> at_outcome (last (rr_attempts res)) = Success"
    and "rr_status res = 504 \<longleftrightarrow> every_timed_out (rr_attempts res)"
    and "rr_status res = 502 \<longleftrightarrow> (\<forall>a \<in> set (rr_attempts res). should_failover (at_outcome a)) \<and> \<not> every_timed_out (rr_attempts res)"
    by blast+
qed

text \<open>A result of \<open>route\<close>: refused by the limiter, or the end of one of the two loops.\<close>

lemma route_result_cases:
  assumes "route ro tenant body hs now request rows = (Inr res, rows')"
  obtains (refused) n d rows1 where "reservation_size (ro_repr ro) body = Inr n"
      "check_and_reserve (ro_limiter ro) tenant n now request rows = (Inr d, rows')" "\<not> ld_allowed d"
      "res = refused_result (ro_limiter ro) d n"
  | (looped) n d rows1 e where "reservation_size (ro_repr ro) body = Inr n"
      "check_and_reserve (ro_limiter ro) tenant n now request rows = (Inr d, rows1)" "ld_allowed d"
      "e = (if truthy (jget (str ''stream'') body)
            then loop_of (try_streams (ro_client ro) body hs (ro_providers ro) [])
            else try_providers (ro_client ro) body hs (ro_providers ro) [])"
      "result_of d e res" "good_end (ro_providers ro) [] e"
      "\<And>as. end_attempts e = Some as \<Longrightarrow> \<forall>a \<in> set as. classified a"
proof -
  obtain n d rows1 where n: "reservation_size (ro_repr ro) body = Inr n"
      and c: "check_and_reserve (ro_limiter ro) tenant n now request rows = (Inr d, rows1)"
    using assms by (auto simp: route_def split: sum.splits prod.splits)
  show ?thesis
  proof (cases "ld_allowed d")
    case False
    then show ?thesis
      using assms n c check_refused(4) [OF c False] by (intro refused [OF n]) (auto simp: route_def)
  next
    case True
    note rv = check_allowed(3) [OF c True]
    show ?thesis
    proof (rule looped [OF n c True refl])
      show "result_of d (if truthy (jget (str ''stream'') body)
          then loop_of (try_streams (ro_client ro) body hs (ro_providers ro) [])
          else try_providers (ro_client ro) body hs (ro_providers ro) []) res"
      proof (cases "truthy (jget (str ''stream'') body)")
        case True
        then have "fst (route_stream (ro_client ro) (ro_providers ro) body hs d
            \<lparr>rv_request = request, rv_tenant = tenant, rv_estimated = n\<rparr> n rows1) = Inr res"
          using assms n c rv by (simp add: route_def)
        with True route_stream_result show ?thesis by simp
      next
        case False
        then have "fst (route_json (ro_client ro) (ro_providers ro) body hs d
            \<lparr>rv_request = request, rv_tenant = tenant, rv_estimated = n\<rparr> n rows1) = Inr res"
          using assms n c rv by (simp add: route_def)
        with False route_json_result show ?thesis by simp
      qed
    next
      show "good_end (ro_providers ro) [] (if truthy (jget (str ''stream'') body)
          then loop_of (try_streams (ro_client ro) body hs (ro_providers ro) [])
          else try_providers (ro_client ro) body hs (ro_providers ro) [])"
        by (simp add: try_streams_good try_providers_good)
    next
      fix as
      assume "end_attempts (if truthy (jget (str ''stream'') body)
          then loop_of (try_streams (ro_client ro) body hs (ro_providers ro) [])
          else try_providers (ro_client ro) body hs (ro_providers ro) []) = Some as"
      then show "\<forall>a \<in> set as. classified a"
        using try_streams_classified [of "[]"] try_providers_classified [of "[]"] by (simp split: if_splits)
    qed
  qed
qed

end
