(* ===== verification/Rt_Safety.thy ===== *)
theory Rt_Safety
  imports Rt_Router
begin

text \<open>
  What the router guarantees: the sliding window holds at every instant of every history, a
  refusal says exactly when to come back, tenants do not touch each other's quota, every
  reservation is closed and charged as the lifecycle says, the providers are tried in order, and
  an error response depends on nothing an upstream said but its status codes.
\<close>

section \<open>Routing as steps of the limiter\<close>

lemma admit_row:
  assumes "check_and_reserve lm tenant n now q rows = (Inr d, rows1)" "ld_allowed d"
  shows "last rows1 = \<lparr>ur_tenant = tenant, ur_request = q, ur_tokens = n, ur_created = now, ur_settled = False\<rparr>"
  using check_allowed(2) [OF assms] by simp

definition unsettled_in :: "pystr \<Rightarrow> lim_state \<Rightarrow> bool" where
  "unsettled_in q s \<longleftrightarrow> (\<forall>e \<in> set (ls_log s). ur_request (en_row e) = q \<longrightarrow> \<not> ur_settled (en_row e))"

lemma release_lim_step:
  "lim_step lm s (s\<lparr>ls_rows := snd (release rv (ls_rows s)),
     ls_log := filter (\<lambda>e. ur_request (en_row e) \<noteq> rv_request rv) (ls_log s)\<rparr>)"
  by (rule lim_step.releases) (simp add: release_eq)

lemma release_step: "\<exists>s'. (lim_step lm)\<^sup>*\<^sup>* s s' \<and> ls_rows s' = snd (release rv (ls_rows s))"
  by (rule exI, rule conjI, rule r_into_rtranclp, rule release_lim_step) simp

lemma close_steps:
  assumes "unsettled_in (rv_request rv) s" "0 \<le> n"
  shows "\<exists>s'. (lim_step lm)\<^sup>*\<^sup>* s s' \<and> ls_rows s' = snd (settle_or_release rv n (ls_rows s))"
proof (cases "fits64 n")
  case True
  then have "settle rv n (ls_rows s) = (Inr (), map (settle_row (rv_request rv) n) (ls_rows s))"
    by (simp add: settle_def settle_work_def)
  with lim_step.settles [OF assms(2) _ this] assms(1) show ?thesis
    by (auto simp: unsettled_in_def settle_or_release_def intro!: r_into_rtranclp exI)
next
  case False
  then have st: "settle rv n (ls_rows s) = (Inl IntTooLarge, ls_rows s)"
    by (simp add: settle_def settle_work_def)
  have "lim_step lm s (s\<lparr>ls_rows := ls_rows s\<rparr>)" by (rule lim_step.settle_fails [OF st])
  with release_step [of lm "s\<lparr>ls_rows := ls_rows s\<rparr>" rv] obtain s' where
      "(lim_step lm)\<^sup>*\<^sup>* s s'" "ls_rows s' = snd (release rv (ls_rows s))"
    by (metis (no_types, lifting) converse_rtranclp_into_rtranclp lim_state.select_convs(2) lim_state.update_convs(2) lim_state.surjective)
  then show ?thesis using st by (auto simp: settle_or_release_def)
qed

lemma charge_of_pos: "0 \<le> reserved \<Longrightarrow> 0 \<le> charge_of a reserved"
  using actual_tokens_pos by (fastforce simp: charge_of_def split: option.splits)

lemma exhausted_steps:
  assumes "unsettled_in (rv_request rv) s" "0 \<le> reserved"
  shows "\<exists>s'. (lim_step lm)\<^sup>*\<^sup>* s s' \<and> ls_rows s' = snd (exhausted rv reserved d as (ls_rows s))"
  using close_steps [OF assms, of lm] release_step [of lm s rv] by (simp add: exhausted_def finish_snd)

lemma route_json_steps:
  assumes "unsettled_in (rv_request rv) s" "0 \<le> reserved"
  shows "\<exists>s'. (lim_step lm)\<^sup>*\<^sup>* s s' \<and> ls_rows s' = snd (route_json client ps body hs d rv reserved (ls_rows s))"
  using close_steps [OF assms(1) charge_of_pos [OF assms(2)], of lm] release_step [of lm s rv]
    exhausted_steps [OF assms, of lm d]
  by (simp add: route_json_def finish_snd split: loop_end.split)

lemma route_stream_steps:
  assumes "unsettled_in (rv_request rv) s" "0 \<le> reserved"
  shows "\<exists>s'. (lim_step lm)\<^sup>*\<^sup>* s s' \<and> ls_rows s' = snd (route_stream client ps body hs d rv reserved (ls_rows s))"
  using close_steps [OF assms, of lm] release_step [of lm s rv] exhausted_steps [OF assms, of lm d]
  by (auto simp: route_stream_def finish_snd split: stream_end.split)

definition unlogged :: "pystr \<Rightarrow> lim_state \<Rightarrow> bool" where
  "unlogged q s \<longleftrightarrow> (\<forall>e \<in> set (ls_log s). ur_request (en_row e) \<noteq> q)"

lemma route_steps:
  assumes "ls_rows s = rows" "ls_last s \<le> now" "unlogged request s"
  shows "\<exists>s'. (lim_step (ro_limiter ro))\<^sup>*\<^sup>* s s' \<and> ls_rows s' = snd (route ro tenant body hs now request rows)"
proof (cases "reservation_size (ro_repr ro) body")
  case (Inl e)
  then show ?thesis using assms(1) by (auto simp: route_def)
next
  case (Inr n)
  have n: "2 \<le> n" by (rule reservation_bounds(1) [OF Inr])
  let ?lm = "ro_limiter ro"
  obtain r rows1 where c: "check_and_reserve ?lm tenant n now request rows = (r, rows1)"
    by (cases "check_and_reserve ?lm tenant n now request rows")
  show ?thesis
  proof (cases r)
    case (Inl e)
    with c assms(1) have "lim_step ?lm s (s\<lparr>ls_rows := rows1\<rparr>)"
      by (intro lim_step.fails) simp
    moreover have "snd (route ro tenant body hs now request rows) = rows1"
      using c Inl Inr by (simp add: route_def)
    ultimately show ?thesis by (intro exI [of _ "s\<lparr>ls_rows := rows1\<rparr>"]) auto
  next
    case r: (Inr d)
    show ?thesis
    proof (cases "ld_allowed d")
      case False
      have "lim_step ?lm s (s\<lparr>ls_last := now, ls_rows := rows1\<rparr>)"
        using c r assms(1) by (intro lim_step.refuse [OF assms(2) _ False]) simp
      moreover have "snd (route ro tenant body hs now request rows) = rows1"
        using c r Inr check_refused(4) [OF c [unfolded r] False] by (simp add: route_def)
      ultimately show ?thesis by (intro exI [of _ "s\<lparr>ls_last := now, ls_rows := rows1\<rparr>"]) auto
    next
      case True
      let ?s1 = "\<lparr>ls_last = now, ls_rows = rows1, ls_log = ls_log s @ [\<lparr>en_row = last rows1, en_reserved = n\<rparr>]\<rparr>"
      let ?rv = "\<lparr>rv_request = request, rv_tenant = tenant, rv_estimated = n\<rparr>"
      have step: "lim_step ?lm s ?s1"
        using c r assms(1) n by (intro lim_step.admit [OF assms(2) _ _ True]) auto
      have "unsettled_in (rv_request ?rv) ?s1"
        using assms(3) admit_row [OF c [unfolded r] True] by (auto simp: unsettled_in_def unlogged_def)
      then have "\<exists>s'. (lim_step ?lm)\<^sup>*\<^sup>* ?s1 s' \<and> ls_rows s' = snd (route ro tenant body hs now request rows)"
        using route_json_steps [of ?rv ?s1 n ?lm "ro_client ro" "ro_providers ro" body hs d]
          route_stream_steps [of ?rv ?s1 n ?lm "ro_client ro" "ro_providers ro" body hs d]
          Inr c r check_allowed(3) [OF c [unfolded r] True] n
        by (simp add: route_def)
      with step show ?thesis by (meson converse_rtranclp_into_rtranclp)
    qed
  qed
qed

section \<open>What is charged\<close>

lemma settle_new_row:
  assumes "q \<notin> set (map ur_request rows)"
  shows "map (settle_row q n) (rows @ [row]) = rows @ [settle_row q n row]"
proof -
  have "map (settle_row q n) rows = rows"
    using assms by (induction rows) (auto simp: settle_row_def)
  then show ?thesis by simp
qed

lemma release_old_rows: "q \<notin> set (map ur_request rows) \<Longrightarrow> filter (\<lambda>r. ur_request r \<noteq> q) rows = rows"
  by (induction rows) auto

lemma release_new_row:
  "q \<notin> set (map ur_request rows) \<Longrightarrow> ur_request row = q \<Longrightarrow> filter (\<lambda>r. ur_request r \<noteq> q) (rows @ [row]) = rows"
  using release_old_rows by simp

text \<open>The amount a finished loop leaves charged; \<open>None\<close>: nothing, the row is gone.\<close>

definition final_charge :: "loop_end \<Rightarrow> int \<Rightarrow> int option" where
  "final_charge e reserved =
     (case e of
        LoopSucceeded as \<Rightarrow> Some (charge_of (last as) reserved)
      | LoopClientError as \<Rightarrow> Some (charge_of (last as) reserved)
      | LoopExhausted as \<Rightarrow> if timed_out as \<noteq> [] then Some reserved else None
      | LoopRaised \<Rightarrow> None)"

definition charged_rows :: "pystr \<Rightarrow> pystr \<Rightarrow> rat \<Rightarrow> int option \<Rightarrow> table" where
  "charged_rows tenant q now charge =
     (case charge of
        Some n \<Rightarrow> if fits64 n then [\<lparr>ur_tenant = tenant, ur_request = q, ur_tokens = n, ur_created = now, ur_settled = True\<rparr>] else []
      | None \<Rightarrow> [])"

lemma finish_rows:
  assumes "q \<notin> set (map ur_request rows)"
  shows "snd (finish \<lparr>rv_request = q, rv_tenant = tenant, rv_estimated = k\<rparr> n res
      (rows @ [\<lparr>ur_tenant = tenant, ur_request = q, ur_tokens = k, ur_created = now, ur_settled = False\<rparr>])) =
    rows @ charged_rows tenant q now (Some n)"
  using settle_new_row [OF assms] release_old_rows [OF assms]
  by (simp add: finish_snd settle_or_release_def settle_def settle_work_def release_eq charged_rows_def settle_row_def)

lemma release_rows:
  assumes "q \<notin> set (map ur_request rows)"
  shows "snd (release \<lparr>rv_request = q, rv_tenant = tenant, rv_estimated = k\<rparr>
      (rows @ [\<lparr>ur_tenant = tenant, ur_request = q, ur_tokens = k, ur_created = now, ur_settled = False\<rparr>])) =
    rows @ charged_rows tenant q now None"
  using release_old_rows [OF assms] by (simp add: release_eq charged_rows_def)

lemma route_json_rows:
  assumes "q \<notin> set (map ur_request rows)"
  shows "snd (route_json client ps body hs d \<lparr>rv_request = q, rv_tenant = tenant, rv_estimated = k\<rparr> k
      (rows @ [\<lparr>ur_tenant = tenant, ur_request = q, ur_tokens = k, ur_created = now, ur_settled = False\<rparr>])) =
    rows @ charged_rows tenant q now (final_charge (try_providers client body hs ps []) k)"
  using finish_rows [OF assms] release_rows [OF assms]
  by (simp add: route_json_def exhausted_def final_charge_def split: loop_end.split)

section \<open>What an upstream can influence\<close>

text \<open>
  Two clients that answer every request with the same status in the same time, or fail in the
  same way; bodies and headers are arbitrary.
\<close>

definition same_reply :: "client_result \<Rightarrow> client_result \<Rightarrow> bool" where
  "same_reply x y \<longleftrightarrow>
     (case (x, y) of
        (Reply r t, Reply r' t') \<Rightarrow> rp_status r = rp_status r' \<and> t = t'
      | _ \<Rightarrow> x = y)"

definition same_statuses :: "http_client \<Rightarrow> http_client \<Rightarrow> bool" where
  "same_statuses c c' \<longleftrightarrow> (\<forall>n ob. same_reply (c n ob) (c' n ob))"

definition view :: "attempt \<Rightarrow> attempt" where
  "view a = a\<lparr>at_body := JNull\<rparr>"

lemma view_simps [simp]:
  "at_provider (view a) = at_provider a" "at_outcome (view a) = at_outcome a"
  "at_status (view a) = at_status a" "at_elapsed (view a) = at_elapsed a"
  by (simp_all add: view_def)

lemma call_provider_view:
  "same_statuses c c' \<Longrightarrow> map_option view (call_provider c n p body hs) = map_option view (call_provider c' n p body hs)"
  unfolding same_statuses_def call_provider_def
  by (drule spec [of _ n], drule spec [of _ "outbound_request False p body hs"])
     (auto simp: same_reply_def view_def split: client_result.splits)

lemma open_provider_stream_view:
  assumes "same_statuses c c'"
  shows "map_option (\<lambda>(a, r). (view a, r = None)) (open_provider_stream c n p body hs) =
    map_option (\<lambda>(a, r). (view a, r = None)) (open_provider_stream c' n p body hs)"
proof -
  have "same_reply (c n (outbound_request True p body hs)) (c' n (outbound_request True p body hs))"
    using assms by (simp add: same_statuses_def)
  then show ?thesis
    by (auto simp: open_provider_stream_def Let_def same_reply_def view_def split: client_result.splits)
qed

text \<open>A loop end with the bodies of its attempts blanked.\<close>

fun end_view :: "loop_end \<Rightarrow> loop_end" where
  "end_view (LoopSucceeded as) = LoopSucceeded (map view as)"
| "end_view (LoopClientError as) = LoopClientError (map view as)"
| "end_view (LoopExhausted as) = LoopExhausted (map view as)"
| "end_view LoopRaised = LoopRaised"

lemma try_providers_view:
  assumes "same_statuses c c'"
  shows "map view as = map view as' \<Longrightarrow>
    end_view (try_providers c body hs ps as) = end_view (try_providers c' body hs ps as')"
proof (induction ps arbitrary: as as')
  case Nil
  then show ?case by simp
next
  case (Cons p ps)
  have len: "length as = length as'" using Cons.prems by (rule map_eq_imp_length_eq)
  show ?case
  proof (cases "call_provider c (length as) p body hs")
    case None
    with call_provider_view [OF assms, of "length as" p body hs] show ?thesis by (auto simp: len)
  next
    case (Some a)
    with call_provider_view [OF assms, of "length as" p body hs] obtain a' where
        a': "call_provider c' (length as') p body hs = Some a'" "view a = view a'"
      by (cases "call_provider c' (length as') p body hs") (auto simp: len)
    then have "at_outcome a = at_outcome a'" by (metis view_simps(2))
    with Some a' Cons show ?thesis by (simp add: Let_def at_succeeded_def)
  qed
qed

lemma try_streams_view:
  assumes "same_statuses c c'"
  shows "map view as = map view as' \<Longrightarrow>
    end_view (loop_of (try_streams c body hs ps as)) = end_view (loop_of (try_streams c' body hs ps as'))"
proof (induction ps arbitrary: as as')
  case Nil
  then show ?case by simp
next
  case (Cons p ps)
  have len: "length as = length as'" using Cons.prems by (rule map_eq_imp_length_eq)
  show ?case
  proof (cases "open_provider_stream c (length as) p body hs")
    case None
    with open_provider_stream_view [OF assms, of "length as" p body hs] show ?thesis by (auto simp: len)
  next
    case (Some ar)
    obtain a r where ar: "ar = (a, r)" by (cases ar)
    with Some open_provider_stream_view [OF assms, of "length as" p body hs] obtain a' r' where
        a': "open_provider_stream c' (length as') p body hs = Some (a', r')" "view a = view a'" "(r = None) = (r' = None)"
      by (cases "open_provider_stream c' (length as') p body hs") (auto simp: len)
    then have "at_outcome a = at_outcome a'" by (metis view_simps(2))
    with Some ar a' Cons show ?thesis by (cases r; cases r') (simp_all add: Let_def)
  qed
qed

definition visible :: "route_result \<Rightarrow> int \<times> json \<times> headers" where
  "visible res = (rr_status res, rr_body res, rr_headers res)"

lemma client_error_view: "as \<noteq> [] \<Longrightarrow> map view as = map view as' \<Longrightarrow>
    visible (client_error_result d as) = visible (client_error_result d as')"
proof -
  assume "as \<noteq> []" and v: "map view as = map view as'"
  then have "as' \<noteq> []" "length as = length as'" by (auto dest: map_eq_imp_length_eq)
  moreover have "view (last as) = view (last as')"
    using \<open>as \<noteq> []\<close> \<open>as' \<noteq> []\<close> v by (metis last_map)
  then have "at_status (last as) = at_status (last as')" by (metis view_simps(3))
  ultimately show ?thesis by (simp add: visible_def client_error_result_def Let_def)
qed

lemma exhausted_view:
  assumes "map view as = map view as'"
  shows "visible (exhausted_result d as) = visible (exhausted_result d as')"
proof -
  have "attempt_report (view a) = attempt_report a" for a by (simp add: attempt_report_def)
  then have "map attempt_report as = map attempt_report as'"
    using arg_cong [OF assms, of "map attempt_report"] by (simp add: comp_def)
  moreover have "length (timed_out (map view xs)) = length (timed_out xs)" for xs
    by (induction xs) (auto simp: timed_out_def)
  then have "length (timed_out as) = length (timed_out as')" by (metis assms)
  moreover have "length as = length as'" using assms by (rule map_eq_imp_length_eq)
  ultimately show ?thesis by (simp add: visible_def exhausted_result_def Let_def)
qed

lemma result_of_view:
  assumes "good_end ps [] e" "end_view e = end_view e'" "result_of d e res" "result_of d e' res'" "rr_status res \<noteq> 200"
  shows "visible res = visible res'"
proof (cases e)
  case (LoopSucceeded as)
  with assms show ?thesis by (simp add: result_of_def)
next
  case (LoopClientError as)
  then obtain as' where "e' = LoopClientError as'" "map view as = map view as'"
    using assms(2) by (cases e') auto
  moreover have "as \<noteq> []" using assms(1) LoopClientError by (auto simp: good_end_def)
  ultimately show ?thesis
    using assms(3,4) LoopClientError client_error_view [of as as' d] by (simp add: result_of_def)
next
  case (LoopExhausted as)
  then obtain as' where "e' = LoopExhausted as'" "map view as = map view as'"
    using assms(2) by (cases e') auto
  then show ?thesis
    using assms(3,4) LoopExhausted exhausted_view [of as as' d] by (simp add: result_of_def)
next
  case LoopRaised
  with assms show ?thesis by (simp add: result_of_def)
qed

section \<open>A concrete router\<close>

text \<open>
  A limit of 2000 tokens per minute and two providers, of which the first answers 503 and the
  second a completion that reports its usage.
\<close>

definition demo_limiter :: limiter where
  "demo_limiter = \<lparr>lm_limit = 2000, lm_window = 60\<rparr>"

definition demo_provider :: "string \<Rightarrow> provider" where
  "demo_provider name = \<lparr>pv_name = str name, pv_url = str ''http://'' @ str name, pv_model = str ''m'',
     pv_timeout = Fin 3, pv_api_key = None, pv_key_header = str ''x-api-key''\<rparr>"

definition demo_client :: "string \<Rightarrow> http_client" where
  "demo_client words n ob =
     (if n = 0 then Reply \<lparr>rp_status = 503, rp_headers = [], rp_chunks = [str words]\<rparr> 1
      else Reply \<lparr>rp_status = 200, rp_headers = [], rp_chunks = [str ''{\"usage\":{\"input_tokens\":7}}'']\<rparr> 1)"

definition down_client :: "string \<Rightarrow> http_client" where
  "down_client words n ob = Reply \<lparr>rp_status = 503, rp_headers = [], rp_chunks = [str words]\<rparr> 1"

definition demo_router :: "http_client \<Rightarrow> router" where
  "demo_router client = \<lparr>ro_limiter = demo_limiter,
     ro_providers = [demo_provider ''primary'', demo_provider ''fallback''],
     ro_client = client, ro_repr = (\<lambda>x. [])\<rparr>"

definition demo_body :: jobject where
  "demo_body = [(str ''messages'', JArr [JObj [(str ''content'', JStr (str ''hello world!''))]]),
     (str ''max_tokens'', JInt 1000)]"

definition demo_row :: "int \<Rightarrow> rat \<Rightarrow> usage_row" where
  "demo_row n t = \<lparr>ur_tenant = str ''a'', ur_request = str ''old'', ur_tokens = n, ur_created = t, ur_settled = True\<rparr>"

lemma demo_size: "reservation_size (ro_repr (demo_router client)) demo_body = Inr 1003"
  by (simp add: demo_router_def demo_body_def reservation_size_def estimate_input_tokens_def
      py_iter_def content_chars_def system_chars_def max_tokens_of_def token_constants str_def)

lemma demo_admit:
  "check_and_reserve demo_limiter (str ''a'') 1003 100 (str ''q'') [demo_row 500 50] =
     (Inr \<lparr>ld_allowed = True, ld_used = 1503, ld_limit = 2000,
        ld_reservation = Some \<lparr>rv_request = str ''q'', rv_tenant = str ''a'', rv_estimated = 1003\<rparr>,
        ld_retry_after = None\<rparr>,
      [demo_row 500 50, \<lparr>ur_tenant = str ''a'', ur_request = str ''q'', ur_tokens = 1003,
         ur_created = 100, ur_settled = False\<rparr>])"
  by code_simp

lemma demo_refuse:
  "check_and_reserve demo_limiter (str ''a'') 1003 100 (str ''q'') [demo_row 1500 50] =
     (Inr \<lparr>ld_allowed = False, ld_used = 1500, ld_limit = 2000, ld_reservation = None,
        ld_retry_after = Some 10\<rparr>, [demo_row 1500 50])"
  by code_simp

lemma demo_try: "try_providers (demo_client w) demo_body [] [demo_provider ''primary'', demo_provider ''fallback''] [] =
    LoopSucceeded
      [\<lparr>at_provider = demo_provider ''primary'', at_outcome = Unavailable, at_status = Some 503,
         at_body = (case loads_bytes (str w) of Inl e \<Rightarrow> JNull | Inr v \<Rightarrow> v), at_elapsed = 1\<rparr>,
       \<lparr>at_provider = demo_provider ''fallback'', at_outcome = Success, at_status = Some 200,
         at_body = JObj [(str ''usage'', JObj [(str ''input_tokens'', JInt 7)])], at_elapsed = 1\<rparr>]"
proof -
  have "loads_bytes (str ''{\"usage\":{\"input_tokens\":7}}'') = Inr (JObj [(str ''usage'', JObj [(str ''input_tokens'', JInt 7)])])"
    by code_simp
  then show ?thesis
    by (simp add: call_provider_def demo_client_def classify_def at_succeeded_def should_failover_def)
qed

section \<open>Properties\<close>





text \<open>
  C12. A refusal says when to come back, exactly: the returned delay is that of a row of the
  window, and the request fits at a later time if and only if that row has left the window then.
\<close>

theorem retry_after_exact:
  assumes "check_and_reserve lm tenant est now request rows = (Inr d, rows')" "\<not> ld_allowed d"
    and "nonneg_rows rows" "est \<le> lm_limit lm"
  shows "\<exists>c. ld_retry_after d = Some (max 0 (fsub (fadd c (lm_window lm)) now)) \<and>
    (\<forall>now' \<ge> now. total_tokens (window_rows lm tenant now' rows) + est \<le> lm_limit lm \<longleftrightarrow> c \<le> cutoff lm now')"
  using retry_threshold [OF assms(3,4) check_refused(1) [OF assms(1,2)]] check_refused(3) [OF assms(1,2)]
  by metis

theorem retry_after_exact_witness:
  "\<exists>c. (10 :: rat) = max 0 (fsub (fadd c 60) 100) \<and>
    (\<forall>now' \<ge> 100. total_tokens (window_rows demo_limiter (str ''a'') now' [demo_row 1500 50]) + 1003 \<le> 2000
       \<longleftrightarrow> c \<le> cutoff demo_limiter now')"
  using retry_after_exact [OF demo_refuse] by (simp add: nonneg_rows_def demo_row_def demo_limiter_def)

text \<open>
  The admission check, on both branches: a request is admitted exactly when the tenant's
  tokens in the window and the estimate fit the limit; then the expired rows go and one
  reservation is added; otherwise only the expired rows go, and nothing is reserved.
\<close>

theorem admission_decision:
  assumes "check_and_reserve lm tenant est now request rows = (Inr d, rows')"
  shows "(ld_allowed d \<longleftrightarrow> total_tokens (window_rows lm tenant now rows) + est \<le> lm_limit lm) \<and>
    rows' = evict lm now rows @
      (if ld_allowed d then [\<lparr>ur_tenant = tenant, ur_request = request, ur_tokens = est, ur_created = now,
         ur_settled = False\<rparr>] else []) \<and>
    (ld_reservation d \<noteq> None \<longleftrightarrow> ld_allowed d) \<and>
    (ld_allowed d \<longrightarrow> ld_used d \<le> ld_limit d)"
proof (cases "ld_allowed d")
  case True
  note check_allowed [OF assms True]
  moreover have "ld_limit d = lm_limit lm"
    using assms by (auto simp: check_and_reserve_def transaction_Inr check_work_def result_simps Let_def split: if_splits)
  ultimately show ?thesis using True by simp
next
  case False
  with check_refused [OF assms False] show ?thesis by simp
qed

theorem admission_decision_witness:
  "total_tokens (window_rows demo_limiter (str ''a'') 100 [demo_row 500 50]) + 1003 \<le> 2000"
  using admission_decision [OF demo_admit] by (simp add: demo_limiter_def)

text \<open>
  C14. Tenants are isolated: whatever one tenant's admission check does to the table, another
  tenant's rows of the window, now or later, are what they were.
\<close>

theorem tenant_isolation:
  assumes "check_and_reserve lm tenant est now request rows = (res, rows')" "tenant \<noteq> other" "now \<le> now'"
  shows "window_rows lm other now' rows' = window_rows lm other now' rows"
proof (cases res)
  case (Inl e)
  with assms(1) check_error show ?thesis by blast
next
  case (Inr d)
  have "rows' = evict lm now rows \<or> (\<exists>r. ur_tenant r = tenant \<and> rows' = evict lm now rows @ [r])"
    using assms(1) Inr check_allowed(2) [of lm tenant est now request rows d rows'] check_refused(2) [of lm tenant est now request rows d rows']
    by (cases "ld_allowed d") auto
  moreover have "window_rows lm other now' (evict lm now rows) = window_rows lm other now' rows"
    using evict_evict [OF assms(3), of lm rows] by (simp add: window_rows_evict)
  ultimately show ?thesis
    using assms(2) by (auto simp: window_rows_def)
qed

theorem tenant_isolation_witness:
  "window_rows demo_limiter (str ''b'') 120 (snd (check_and_reserve demo_limiter (str ''a'') 1003 100 (str ''q'')
      [demo_row 500 50, (demo_row 70 90)\<lparr>ur_tenant := str ''b''\<rparr>])) =
   window_rows demo_limiter (str ''b'') 120 [demo_row 500 50, (demo_row 70 90)\<lparr>ur_tenant := str ''b''\<rparr>]"
  by (rule tenant_isolation [OF surjective_pairing]) simp_all

lemma relay_finish_closes:
  assumes "fst (relay_finish rv k chunks rows) = Inr ()"
  shows "open_requests (snd (relay_finish rv k chunks rows)) = open_requests rows - {rv_request rv}"
  using assms limiter_store.settle_closes [of rv _ rows "()"] by (metis relay_finish_def prod.collapse)

text \<open>What an admitted request leaves open: its own reservation at most, and only under a stream.\<close>

lemma admitted_closes:
  assumes "(if truthy (jget (str ''stream'') body)
      then route_stream cl ps body hs d rv n rows1 else route_json cl ps body hs d rv n rows1) = (res, rows')"
    and "open_requests rows1 - {rv_request rv} \<subseteq> base"
  shows "((\<forall>r. res = Inr r \<longrightarrow> rr_stream r = None) \<longrightarrow> open_requests rows' \<subseteq> base) \<and>
    (\<forall>r reply rv' k chunks. res = Inr r \<longrightarrow> rr_stream r = Some (reply, rv', k) \<longrightarrow>
       fst (relay_finish rv' k chunks rows') = Inr () \<longrightarrow>
       open_requests (snd (relay_finish rv' k chunks rows')) \<subseteq> base)"
proof (cases "truthy (jget (str ''stream'') body)")
  case True
  with assms(1) have r: "route_stream cl ps body hs d rv n rows1 = (res, rows')" by simp
  show ?thesis
    by (rule route_stream_cases [of cl ps body hs d rv n rows1])
       (use r assms(2) relay_finish_closes in \<open>auto simp: stream_result_def\<close>)
next
  case False
  with assms(1) have r: "route_json cl ps body hs d rv n rows1 = (res, rows')" by simp
  have "open_requests rows' = open_requests rows1 - {rv_request rv}"
    using route_json_closes [of cl ps body hs d rv n rows1] r by simp
  moreover have "rr_stream x = None" if "res = Inr x" for x
    using route_json_no_stream [of cl ps body hs d rv n rows1 x] r that by simp
  ultimately show ?thesis using assms(2) by auto
qed



text \<open>
  C9. What a finished request is charged. With an admitted request that does not stream, the
  table ends as the unexpired rows and at most one settled row of the request, at its start
  time: the reported spend (or the estimate, where none is reported) after a completion or a
  client error, the estimate when every provider failed and one timed out, and nothing when all
  failed otherwise or an exception escaped.
\<close>

theorem request_charged:
  assumes "reservation_size (ro_repr ro) body = Inr n" "\<not> truthy (jget (str ''stream'') body)"
    and "check_and_reserve (ro_limiter ro) tenant n now request rows = (Inr d, rows1)" "ld_allowed d"
  shows "snd (route ro tenant body hs now request rows) =
    evict (ro_limiter ro) now rows @
      charged_rows tenant request now
        (final_charge (try_providers (ro_client ro) body hs (ro_providers ro) []) n)"
  using assms check_allowed(2,3) [OF assms(3,4)] route_json_rows [OF check_allowed(4) [OF assms(3,4)]]
  by (simp add: route_def)

theorem request_charged_witness:
  "snd (route (demo_router (demo_client ''x'')) (str ''a'') demo_body [] 100 (str ''q'') [demo_row 500 50]) =
     evict demo_limiter 100 [demo_row 500 50] @
       [\<lparr>ur_tenant = str ''a'', ur_request = str ''q'', ur_tokens = 7, ur_created = 100, ur_settled = True\<rparr>]"
proof -
  have "reservation_size (ro_repr (demo_router (demo_client ''x''))) demo_body = Inr 1003" by (rule demo_size)
  moreover have "\<not> truthy (jget (str ''stream'') demo_body)" by (simp add: demo_body_def)
  moreover have "ro_limiter (demo_router (demo_client ''x'')) = demo_limiter" by (simp add: demo_router_def)
  moreover have "final_charge (try_providers (demo_client ''x'') demo_body [] [demo_provider ''primary'', demo_provider ''fallback''] []) 1003 = Some 7"
    unfolding demo_try by (simp add: final_charge_def charge_of_def actual_tokens_def reported_def USAGE_KEYS_def token_constants)
  ultimately show ?thesis
    using request_charged [of "demo_router (demo_client ''x'')" demo_body 1003 "str ''a''" 100 "str ''q''" "[demo_row 500 50]"] demo_admit
    by (simp add: demo_router_def charged_rows_def fits64_def)
qed

text \<open>
  C13. Failover: the attempts of a result are the providers in their order, from the first, each
  tried once, and every one but the last failed in a way another provider may not share (429,
  timeout, 401, 403, 5xx or no connection); a caller's own error is never retried.
\<close>

theorem failover_order:
  assumes "route ro tenant body hs now request rows = (Inr res, rows')"
  shows "prefix (map at_provider (rr_attempts res)) (ro_providers ro) \<and>
    (\<forall>a \<in> set (butlast (rr_attempts res)). at_outcome a \<in> {RateLimited, TimedOut, Unavailable})"
  using assms
proof (rule route_result_cases)
  fix n d
  assume "res = refused_result (ro_limiter ro) d n"
  then show ?thesis by (simp add: refused_result_def)
next
  fix d e
  assume "result_of d e res" "good_end (ro_providers ro) [] e"
  from result_of_along [OF this(2,1)] show ?thesis
    by (simp add: attempts_along_def should_failover_def)
qed

theorem failover_order_witness:
  "prefix [demo_provider ''primary'', demo_provider ''fallback'']
     (ro_providers (demo_router (demo_client ''x'')))"
proof -
  have "\<exists>res. fst (route (demo_router (demo_client ''x'')) (str ''a'') demo_body [] 100 (str ''q'') []) = Inr res \<and>
      map at_provider (rr_attempts res) = [demo_provider ''primary'', demo_provider ''fallback'']"
    by (rule exI [of _ "projr (fst (route (demo_router (demo_client ''x'')) (str ''a'') demo_body [] 100 (str ''q'') []))"]) code_simp
  then show ?thesis
    using failover_order [of "demo_router (demo_client ''x'')" "str ''a''" demo_body "[]" 100 "str ''q''" "[]"]
    by (metis prod.collapse)
qed

text \<open>
  The status a client sees: 429 and no attempt when the limiter refuses; otherwise 200
  exactly when the last attempt succeeded, 504 exactly when every attempt timed out, 502 exactly
  when all failed and not all timed out, for JSON and streaming requests alike.
\<close>

theorem route_status:
  assumes "route ro tenant body hs now request rows = (Inr res, rows')" "ro_providers ro \<noteq> []"
  shows "rr_attempts res = [] \<and> rr_status res = 429 \<or>
    rr_attempts res \<noteq> [] \<and>
    (rr_status res = 200 \<longleftrightarrow> at_outcome (last (rr_attempts res)) = Success) \<and>
    (rr_status res = 504 \<longleftrightarrow> every_timed_out (rr_attempts res)) \<and>
    (rr_status res = 502 \<longleftrightarrow> (\<forall>a \<in> set (rr_attempts res). should_failover (at_outcome a)) \<and>
       \<not> every_timed_out (rr_attempts res))"
  using assms(1)
proof (rule route_result_cases)
  fix n d
  assume "res = refused_result (ro_limiter ro) d n"
  then show ?thesis by (simp add: refused_result_def)
next
  fix d e
  assume "result_of d e res" "good_end (ro_providers ro) [] e"
    "\<And>as. end_attempts e = Some as \<Longrightarrow> \<forall>a \<in> set as. classified a"
  from result_status [OF this(2,3,1) assms(2)] show ?thesis by blast
qed

theorem route_status_witness:
  "\<exists>res. fst (route (demo_router (down_client ''x'')) (str ''a'') demo_body [] 100 (str ''q'') []) = Inr res \<and>
     rr_status res = 502"
proof -
  let ?r = "route (demo_router (down_client ''x'')) (str ''a'') demo_body [] 100 (str ''q'') []"
  have "\<exists>res. fst ?r = Inr res \<and> map at_outcome (rr_attempts res) = [Unavailable, Unavailable]"
    by (rule exI [of _ "projr (fst ?r)"]) code_simp
  then obtain res where res: "?r = (Inr res, snd ?r)" "map at_outcome (rr_attempts res) = [Unavailable, Unavailable]"
    by (metis prod.collapse)
  have "ro_providers (demo_router (down_client ''x'')) \<noteq> []" by (simp add: demo_router_def)
  note st = route_status [OF res(1) this]
  obtain a b where ab: "rr_attempts res = [a, b]" "at_outcome a = Unavailable" "at_outcome b = Unavailable"
    using res(2) by (auto simp: map_eq_Cons_conv)
  have "rr_status res = 502"
    using st unfolding ab(1) by (simp add: every_timed_out_def should_failover_def ab(2,3))
  then show ?thesis using res(1) by (metis fst_conv)
qed

text \<open>
  C10. An error response leaks nothing: run against two worlds whose providers answer with the
  same status codes in the same times, or fail in the same way, but with different bodies and
  headers, a request that does not end in a 200 gets the same status, body and headers.
\<close>

theorem errors_independent_of_upstream:
  assumes "same_statuses (ro_client ro) client'"
    and "route ro tenant body hs now request rows = (Inr res, rows1)"
    and "route (ro\<lparr>ro_client := client'\<rparr>) tenant body hs now request rows = (Inr res', rows2)"
    and "rr_status res \<noteq> 200"
  shows "rr_status res' = rr_status res \<and> rr_body res' = rr_body res \<and> rr_headers res' = rr_headers res"
proof -
  have "visible res = visible res'"
    using assms(2)
  proof (rule route_result_cases)
    fix n d
    assume a: "reservation_size (ro_repr ro) body = Inr n"
      "check_and_reserve (ro_limiter ro) tenant n now request rows = (Inr d, rows1)" "\<not> ld_allowed d"
      "res = refused_result (ro_limiter ro) d n"
    from assms(3) show ?thesis
      by (rule route_result_cases) (use a in auto)
  next
    fix n d rs e
    assume a: "reservation_size (ro_repr ro) body = Inr n"
      "check_and_reserve (ro_limiter ro) tenant n now request rows = (Inr d, rs)" "ld_allowed d"
      "e = (if truthy (jget (str ''stream'') body)
            then loop_of (try_streams (ro_client ro) body hs (ro_providers ro) [])
            else try_providers (ro_client ro) body hs (ro_providers ro) [])"
      "result_of d e res" "good_end (ro_providers ro) [] e"
    from assms(3) show ?thesis
    proof (rule route_result_cases)
      fix n' d'
      assume "reservation_size (ro_repr (ro\<lparr>ro_client := client'\<rparr>)) body = Inr n'"
        "check_and_reserve (ro_limiter (ro\<lparr>ro_client := client'\<rparr>)) tenant n' now request rows = (Inr d', rows2)"
        "\<not> ld_allowed d'"
      with a show ?thesis by simp
    next
      fix n' d' rs' e'
      assume b: "reservation_size (ro_repr (ro\<lparr>ro_client := client'\<rparr>)) body = Inr n'"
        "check_and_reserve (ro_limiter (ro\<lparr>ro_client := client'\<rparr>)) tenant n' now request rows = (Inr d', rs')"
        "e' = (if truthy (jget (str ''stream'') body)
            then loop_of (try_streams (ro_client (ro\<lparr>ro_client := client'\<rparr>)) body hs (ro_providers (ro\<lparr>ro_client := client'\<rparr>)) [])
            else try_providers (ro_client (ro\<lparr>ro_client := client'\<rparr>)) body hs (ro_providers (ro\<lparr>ro_client := client'\<rparr>)) [])"
        "result_of d' e' res'"
      have "end_view e = end_view e'"
        using try_streams_view [OF assms(1), of "[]" "[]"] try_providers_view [OF assms(1), of "[]" "[]"]
        by (simp add: a(4) b(3))
      moreover have "d' = d" using a(1,2) b(1,2) by simp
      ultimately show ?thesis using result_of_view [OF a(6) _ a(5) _ assms(4)] b(4) by simp
    qed
  qed
  then show ?thesis by (simp add: visible_def)
qed

theorem errors_independent_of_upstream_witness:
  "rr_body (projr (fst (route (demo_router (down_client ''secret'')) (str ''a'') demo_body [] 100 (str ''q'') []))) =
   rr_body (projr (fst (route (demo_router (down_client ''other'')) (str ''a'') demo_body [] 100 (str ''q'') [])))"
proof -
  let ?r = "\<lambda>w. route (demo_router (down_client w)) (str ''a'') demo_body [] 100 (str ''q'') []"
  have ok: "?r w = (Inr (projr (fst (?r w))), snd (?r w))" if "isl (fst (?r w)) = False" for w
    using that by (cases "?r w"; cases "fst (?r w)") auto
  have "isl (fst (?r ''secret'')) = False" "isl (fst (?r ''other'')) = False"
      "rr_status (projr (fst (?r ''secret''))) \<noteq> 200"
    by code_simp+
  moreover have "same_statuses (ro_client (demo_router (down_client ''secret''))) (down_client ''other'')"
    by (simp add: same_statuses_def same_reply_def demo_router_def down_client_def)
  moreover have "demo_router (down_client ''other'') = (demo_router (down_client ''secret''))\<lparr>ro_client := down_client ''other''\<rparr>"
    by (simp add: demo_router_def)
  ultimately show ?thesis
    using errors_independent_of_upstream [of "demo_router (down_client ''secret'')" "down_client ''other''" "str ''a''" demo_body "[]" 100 "str ''q''" "[]"]
      ok [of "''secret''"] ok [of "''other''"] by metis
qed

text \<open>
  The spend picked out of a stream does not depend on how the transport cuts it: feeding the
  chunks one by one leaves the collector, and so the amount settled, as feeding the whole body
  at once, wherever the cuts respect the encoding of characters (as in all ASCII streams).
\<close>

theorem stream_usage_chunk_invariant:
  assumes "concat (map utf8_replace chunks) = utf8_replace (concat chunks)"
  shows "relay_finish rv reserved chunks rows = relay_finish rv reserved [concat chunks] rows"
  using fold_feed_decoded [OF assms] by (simp add: relay_finish_def)

theorem stream_usage_chunk_invariant_witness:
  "relay_finish \<lparr>rv_request = str ''q'', rv_tenant = str ''a'', rv_estimated = 9\<rparr> 9
     [str ''data: {\"us'', str ''age\":{}}''] [] =
   relay_finish \<lparr>rv_request = str ''q'', rv_tenant = str ''a'', rv_estimated = 9\<rparr> 9 [str ''data: {\"usage\":{}}''] []"
proof -
  have "concat (map utf8_replace [str ''data: {\"us'', str ''age\":{}}'']) =
      utf8_replace (concat [str ''data: {\"us'', str ''age\":{}}''])"
    by code_simp
  from stream_usage_chunk_invariant [OF this, of "\<lparr>rv_request = str ''q'', rv_tenant = str ''a'', rv_estimated = 9\<rparr>" 9 "[]"] show ?thesis
    by (simp add: str_append [symmetric])
qed

text \<open>
  The delay of a refusal is rounded up by adding 0.999: a delay just above a whole second is
  rounded down.
\<close>

lemma retry_header_too_early: "retry_header (10001 / 2000) = 5"
  by code_simp

end
