(* ===== verification/Rt_App.thy ===== *)
theory Rt_App
  imports Rt_Router
begin

text \<open>
  \<open>llm_router/auth.py\<close>, \<open>config.py\<close> and \<open>app.py\<close>: API keys and tenants, the
  configuration and its validation at boot, and the handlers. \<open>hashlib.sha256\<close> is an
  argument of the functions that use it; \<open>urlparse(url).hostname\<close> is modelled.
\<close>

section \<open>API keys and tenants\<close>

definition DEMO_TENANTS :: "(pystr \<times> pystr) list" where
  "DEMO_TENANTS = [(str ''demo-key-alpha'', str ''tenant-alpha''), (str ''demo-key-beta'', str ''tenant-beta'')]"

text \<open>\<open>sha\<close>: the hexadecimal digest of some bytes.\<close>

definition key_fingerprint :: "(bytes \<Rightarrow> pystr) \<Rightarrow> pystr \<Rightarrow> pystr" where
  "key_fingerprint sha api_key = str ''anon-'' @ take 32 (sha (utf8_encode api_key))"

definition tenant_entry :: "pystr \<Rightarrow> (pystr \<times> pystr) list \<Rightarrow> (pystr \<times> pystr) list" where
  "tenant_entry entry table =
     (let (api_key, separator, tenant_id) = py_partition 61 (py_strip entry)
      in if separator \<and> py_strip api_key \<noteq> [] \<and> py_strip tenant_id \<noteq> []
         then AList.update (py_strip api_key) (py_strip tenant_id) table
         else table)"

definition parse_tenant_table :: "pystr option \<Rightarrow> (pystr \<times> pystr) list" where
  "parse_tenant_table configured =
     (case configured of
        None \<Rightarrow> []
      | Some c \<Rightarrow> if c = [] then [] else fold tenant_entry (py_split 44 c) [])"

definition extract_api_key :: "pystr option \<Rightarrow> pystr option \<Rightarrow> pystr + pystr" where
  "extract_api_key x_api_key authorization =
     (let first = (case x_api_key of Some k \<Rightarrow> k | None \<Rightarrow> []);
          second = (case authorization of Some k \<Rightarrow> k | None \<Rightarrow> []);
          candidate = (if first \<noteq> [] then first else second);
          candidate' = py_strip (if py_lower (take 7 candidate) = str ''bearer '' then drop 7 candidate else candidate)
      in if candidate' = []
         then Inl (str ''An API key is required, via x-api-key or Authorization: Bearer.'')
         else Inr candidate')"

definition resolve_tenant :: "(bytes \<Rightarrow> pystr) \<Rightarrow> pystr \<Rightarrow> (pystr \<times> pystr) list \<Rightarrow> bool \<Rightarrow> pystr + pystr" where
  "resolve_tenant sha api_key table allow_unauthenticated =
     (let candidate = utf8_encode api_key
      in case last_match (\<lambda>known. candidate = utf8_encode known) None table of
           Some tenant \<Rightarrow> Inr tenant
         | None \<Rightarrow>
             if allow_unauthenticated then Inr (key_fingerprint sha api_key)
             else Inl (str ''Invalid or unknown API key.''))"

section \<open>Configuration\<close>

definition rpartition_after :: "nat \<Rightarrow> pystr \<Rightarrow> pystr" where
  "rpartition_after c s = rev (takeWhile (\<lambda>x. x \<noteq> c) (rev s))"

definition is_alpha :: "nat \<Rightarrow> bool" where
  "is_alpha c \<longleftrightarrow> 65 \<le> c \<and> c \<le> 90 \<or> 97 \<le> c \<and> c \<le> 122"

definition scheme_char :: "nat \<Rightarrow> bool" where
  "scheme_char c \<longleftrightarrow> is_alpha c \<or> 48 \<le> c \<and> c \<le> 57 \<or> c \<in> {43, 45, 46}"

text \<open>
  \<open>urlparse(url).hostname or ""\<close>: what follows the scheme, up to the path, without user and
  port. (\<open>urlsplit\<close> raises on unbalanced brackets, which are read here as they stand.)
\<close>

definition url_hostname :: "pystr \<Rightarrow> pystr" where
  "url_hostname url0 =
     (let url = filter (\<lambda>c. c \<notin> {9, 10, 13}) (dropWhile (\<lambda>c. c \<le> 32) url0);
          (before, colon, after) = py_partition 58 url;
          rest = (if colon \<and> before \<noteq> [] \<and> is_alpha (hd before) \<and> (\<forall>c \<in> set before. scheme_char c)
                  then after else url)
      in if \<not> prefix (str ''//'') rest then []
         else
           (let netloc = takeWhile (\<lambda>c. c \<notin> {47, 63, 35}) (drop 2 rest);
                hostinfo = rpartition_after 64 netloc;
                (_, bracket, bracketed) = py_partition 91 hostinfo;
                host = (if bracket then fst (py_partition 93 bracketed) else fst (py_partition 58 hostinfo));
                (name, zone_mark, zone) = py_partition 37 host
            in py_lower name @ (if zone_mark then 37 # zone else [])))"

definition is_loopback :: "provider \<Rightarrow> bool" where
  "is_loopback p =
     (let host = py_lower (url_hostname (pv_url p))
      in host \<in> str ` {''127.0.0.1'', ''localhost'', ''::1''} \<or> suffix (str ''.test'') host)"

record rt_config =
  rc_database_path :: pystr
  rc_token_limit :: int
  rc_window_seconds :: pyfloat
  rc_primary :: provider
  rc_fallbacks :: "provider list"
  rc_tenants :: "(pystr \<times> pystr) list"
  rc_allow_unauthenticated :: bool

datatype config_error =
    MissingCredential pystr  \<comment> \<open>the provider's name\<close>
  | NoTenants
  | NotPositive

fun nonpositive :: "pyfloat \<Rightarrow> bool" where
  "nonpositive (Fin x) = (x \<le> 0)"
| "nonpositive NegInf = True"
| "nonpositive _ = False"

definition has_credential :: "provider \<Rightarrow> bool" where
  "has_credential p \<longleftrightarrow> (case pv_api_key p of Some k \<Rightarrow> k \<noteq> [] | None \<Rightarrow> False)"

fun first_uncredentialed :: "provider list \<Rightarrow> provider option" where
  "first_uncredentialed [] = None"
| "first_uncredentialed (p # ps) =
     (if \<not> is_loopback p \<and> \<not> has_credential p then Some p else first_uncredentialed ps)"

definition validate :: "rt_config \<Rightarrow> config_error + unit" where
  "validate cfg =
     (case first_uncredentialed (rc_primary cfg # rc_fallbacks cfg) of
        Some p \<Rightarrow> Inl (MissingCredential (pv_name p))
      | None \<Rightarrow>
          if rc_tenants cfg = [] \<and> \<not> rc_allow_unauthenticated cfg then Inl NoTenants
          else if rc_token_limit cfg \<le> 0 \<or> nonpositive (rc_window_seconds cfg) then Inl NotPositive
          else Inr ())"

definition env_provider :: "py_runtime \<Rightarrow> string \<Rightarrow> string \<Rightarrow> string \<Rightarrow> string \<Rightarrow> string \<Rightarrow> provider option" where
  "env_provider rt name variable url model timeout =
     map_option
       (\<lambda>t. \<lparr>pv_name = str name,
          pv_url = getenv rt (variable @ ''_URL'') url,
          pv_model = getenv rt (variable @ ''_MODEL'') model,
          pv_timeout = t,
          pv_api_key = (case rt_environ rt (str (variable @ ''_API_KEY'')) of
             Some k \<Rightarrow> if k = [] then None else Some k | None \<Rightarrow> None),
          pv_key_header = getenv rt (variable @ ''_API_KEY_HEADER'') ''x-api-key''\<rparr>)
       (rt_float rt (getenv rt (variable @ ''_TIMEOUT'') timeout))"

text \<open>\<open>Config.from_env\<close>; \<open>None\<close> is a \<open>ValueError\<close>.\<close>

definition rt_config_from_env :: "py_runtime \<Rightarrow> rt_config option" where
  "rt_config_from_env rt =
     (let tenants = parse_tenant_table (rt_environ rt (str ''LLM_ROUTER_TENANTS''))
      in case (py_int (getenv rt ''LLM_ROUTER_TOKEN_LIMIT'' ''50000''),
               case rt_environ rt (str ''LLM_ROUTER_WINDOW_SECONDS'') of
                 None \<Rightarrow> Some (Fin 60) | Some t \<Rightarrow> rt_float rt t,
               env_provider rt ''primary'' ''LLM_PRIMARY'' ''http://127.0.0.1:8101/v1/messages'' ''claude-opus-5'' ''3.0'',
               env_provider rt ''fallback'' ''LLM_FALLBACK'' ''http://127.0.0.1:8102/v1/messages'' ''claude-sonnet-5'' ''10.0'') of
           (Some limit, Some window, Some p, Some f) \<Rightarrow> Some
             \<lparr>rc_database_path = getenv rt ''LLM_ROUTER_DB'' ''./data/router.sqlite'',
              rc_token_limit = limit, rc_window_seconds = window, rc_primary = p, rc_fallbacks = [f],
              rc_tenants = (if tenants = [] then DEMO_TENANTS else tenants),
              rc_allow_unauthenticated = py_lower (getenv rt ''LLM_ROUTER_ALLOW_UNAUTHENTICATED'' '''')
                \<in> str ` {''1'', ''true'', ''yes''}\<rparr>
         | _ \<Rightarrow> None)"

section \<open>The handlers\<close>

definition DROP_HEADERS :: "pystr list" where
  "DROP_HEADERS = map str [''host'', ''content-length'', ''connection'', ''transfer-encoding'',
     ''keep-alive'', ''authorization'', ''x-api-key'']"

definition MAX_BODY_BYTES :: int where "MAX_BODY_BYTES = 4194304"

record rt_app =
  ra_config :: rt_config
  ra_router :: router
  ra_sha :: "bytes \<Rightarrow> pystr"

definition authenticate :: "rt_app \<Rightarrow> http_request \<Rightarrow> pystr + pystr" where
  "authenticate app request =
     and_then (extract_api_key (header_get (str ''x-api-key'') (rq_headers request))
                (header_get (str ''authorization'') (rq_headers request)))
       (\<lambda>api_key. resolve_tenant (ra_sha app) api_key (rc_tenants (ra_config app))
          (rc_allow_unauthenticated (ra_config app)))"

datatype rt_response =
    RtJson int json headers
  | RtStream route_result
  | RtUnhandled  \<comment> \<open>an exception escapes: the server answers with a 500\<close>

definition rt_error :: "int \<Rightarrow> pystr \<Rightarrow> rt_response" where
  "rt_error status message = RtJson status (gateway_error BAD_REQUEST (Some message) []) []"

definition forwarded_headers :: "headers \<Rightarrow> headers" where
  "forwarded_headers hs = dict_of (filter (\<lambda>(k, v). py_lower k \<notin> set DROP_HEADERS) hs)"

text \<open>\<open>json.loads(raw) if raw else {}\<close>.\<close>

definition request_body :: "bytes \<Rightarrow> json_error + json" where
  "request_body raw = (if raw = [] then Inr (JObj []) else loads_bytes raw)"

definition handle_messages :: "rt_app \<Rightarrow> http_request \<Rightarrow> rat \<Rightarrow> pystr \<Rightarrow> table \<Rightarrow> rt_response \<times> table" where
  "handle_messages app request now request_id rows =
     (case authenticate app request of
        Inl detail \<Rightarrow> (rt_error 401 detail, rows)
      | Inr tenant \<Rightarrow>
          (case read_bounded_body MAX_BODY_BYTES request of
             BadContentLength \<Rightarrow> (RtUnhandled, rows)
           | BodyTooLarge \<Rightarrow> (rt_error 413 (str ''Request body exceeds the configured limit.''), rows)
           | BodyRead raw \<Rightarrow>
               (case request_body raw of
                  Inl e \<Rightarrow>
                    if is_decode_error e then (rt_error 400 (str ''Request body must be valid JSON.''), rows)
                    else (RtUnhandled, rows)
                | Inr v \<Rightarrow>
                    (case v of
                       JObj body \<Rightarrow>
                         if \<not> truthy (jget (str ''messages'') body)
                         then (rt_error 400 (str ''Request body must be an object containing 'messages'.''), rows)
                         else
                           (case route (ra_router app) tenant body (forwarded_headers (rq_headers request)) now request_id rows of
                              (Inl e, rows') \<Rightarrow> (RtUnhandled, rows')
                            | (Inr res, rows') \<Rightarrow>
                                ((if rr_stream res \<noteq> None then RtStream res
                                  else RtJson (rr_status res) (rr_body res) (rr_headers res)), rows'))
                     | _ \<Rightarrow> (rt_error 400 (str ''Request body must be an object containing 'messages'.''), rows)))))"

definition handle_usage :: "rt_app \<Rightarrow> http_request \<Rightarrow> rat \<Rightarrow> table \<Rightarrow> rt_response" where
  "handle_usage app request now rows =
     (case authenticate app request of
        Inl detail \<Rightarrow> rt_error 401 detail
      | Inr tenant \<Rightarrow>
          (let lm = ro_limiter (ra_router app)
           in case usage lm tenant now rows of
                Inl e \<Rightarrow> RtUnhandled
              | Inr used \<Rightarrow>
                  RtJson 200 (JObj [(str ''used_tokens'', JInt used), (str ''limit_tokens'', JInt (lm_limit lm)),
                    (str ''remaining_tokens'', JInt (max 0 (lm_limit lm - used)))]) []))"

definition rt_handle_health :: "rt_app \<Rightarrow> rt_response" where
  "rt_handle_health app =
     RtJson 200 (JObj [(str ''status'', JStr (str ''ok'')),
       (str ''providers'', JArr (map (JStr \<circ> pv_name) (ro_providers (ra_router app))))]) []"

section \<open>Lemmas\<close>

lemma first_uncredentialed_None:
  "first_uncredentialed ps = None \<longleftrightarrow> (\<forall>p \<in> set ps. is_loopback p \<or> has_credential p)"
  by (induction ps) auto

lemma validate_ok:
  "validate cfg = Inr () \<longleftrightarrow>
     (\<forall>p \<in> set (rc_primary cfg # rc_fallbacks cfg). is_loopback p \<or> has_credential p) \<and>
     (rc_tenants cfg \<noteq> [] \<or> rc_allow_unauthenticated cfg) \<and>
     0 < rc_token_limit cfg \<and> \<not> nonpositive (rc_window_seconds cfg)"
  using first_uncredentialed_None [of "rc_primary cfg # rc_fallbacks cfg"]
  by (auto simp: validate_def simp del: first_uncredentialed.simps split: option.splits)

lemma forwarded_headers_lookup:
  "header_get k (forwarded_headers hs) = (if py_lower k \<in> set DROP_HEADERS then None else header_get k (rev hs))"
  by (simp add: header_get_def forwarded_headers_def map_of_dict_of rev_filter
      map_of_filter_key [where P = "\<lambda>k. py_lower k \<notin> set DROP_HEADERS"])

lemma tenant_entry_distinct: "distinct (map fst t) \<Longrightarrow> distinct (map fst (tenant_entry e t))"
  by (simp add: tenant_entry_def Let_def distinct_update split: prod.splits)

lemma parse_tenant_table_distinct: "distinct (map fst (parse_tenant_table c))"
proof -
  have "distinct (map fst t) \<Longrightarrow> distinct (map fst (fold tenant_entry es t))" for es t
    by (induction es arbitrary: t) (auto simp: tenant_entry_distinct)
  then show ?thesis by (simp add: parse_tenant_table_def split: option.splits)
qed

lemma resolve_tenant_table:
  assumes "valid_str api_key" "valid_table table" "distinct (map fst table)"
  shows "resolve_tenant sha api_key table allow =
    (case map_of table api_key of
       Some t \<Rightarrow> Inr t
     | None \<Rightarrow> if allow then Inr (key_fingerprint sha api_key) else Inl (str ''Invalid or unknown API key.''))"
  using matched_eq_lookup [OF assms] by (simp add: resolve_tenant_def Let_def split: option.splits)

section \<open>Concrete configurations\<close>

definition demo_provider_key :: "pystr \<Rightarrow> provider" where
  "demo_provider_key key = \<lparr>pv_name = str ''p'', pv_url = str ''http://127.0.0.1:1/'', pv_model = str ''m'',
     pv_timeout = Fin 3, pv_api_key = Some key, pv_key_header = str ''x-api-key''\<rparr>"

definition demo_remote :: provider where
  "demo_remote = \<lparr>pv_name = str ''p'', pv_url = str ''https://u@api.example.com:443/v1'', pv_model = str ''m'',
     pv_timeout = Fin 3, pv_api_key = Some (str ''sk-1''), pv_key_header = str ''x-api-key''\<rparr>"

definition demo_config :: "provider \<Rightarrow> rt_config" where
  "demo_config p = \<lparr>rc_database_path = str ''x'', rc_token_limit = 10, rc_window_seconds = Fin 60,
     rc_primary = p, rc_fallbacks = [], rc_tenants = DEMO_TENANTS, rc_allow_unauthenticated = False\<rparr>"

definition demo_app :: rt_app where
  "demo_app = \<lparr>ra_config = demo_config demo_remote,
     ra_router = \<lparr>ro_limiter = \<lparr>lm_limit = 10, lm_window = 60\<rparr>, ro_providers = [demo_remote],
       ro_client = (\<lambda>n ob. ClientRaise), ro_repr = (\<lambda>x. [])\<rparr>,
     ra_sha = (\<lambda>b. [])\<rparr>"

section \<open>Properties\<close>

text \<open>
  C15. The caller's credential stops at the router: whatever the client sent as
  \<open>authorization\<close> or \<open>x-api-key\<close>, in any case of the name, the header of that name a
  provider receives is the gateway's own key for that provider, or absent.
\<close>

theorem provider_credentials:
  assumes "py_lower k \<in> str ` {''authorization'', ''x-api-key''}"
  shows "header_get k (ob_headers (outbound_request stream p body (forwarded_headers hs))) =
    (if has_credential p \<and> pv_key_header p = k then pv_api_key p else None)"
proof -
  have drop: "py_lower k \<in> set DROP_HEADERS" using assms by (auto simp: DROP_HEADERS_def)
  have "header_get k (forwarded_headers hs) = None"
    using drop by (simp add: forwarded_headers_lookup)
  then show ?thesis
    by (auto simp: outbound_request_def header_get_def map_of_dict_merge auth_headers_def has_credential_def
        map_add_def split: option.splits)
qed

theorem provider_credentials_witness:
  "header_get (str ''X-Api-Key'') (ob_headers (outbound_request False (demo_provider_key (str ''gw'')) []
     (forwarded_headers [(str ''X-Api-Key'', str ''mine'')]))) = None"
proof -
  have "py_lower (str ''X-Api-Key'') \<in> str ` {''authorization'', ''x-api-key''}"
    by code_simp
  from provider_credentials [OF this, of False "demo_provider_key (str ''gw'')" "[]" "[(str ''X-Api-Key'', str ''mine'')]"]
  show ?thesis by (simp add: demo_provider_key_def)
qed

text \<open>
  Boot validation is exact: a configuration is served when every provider that is not
  loopback has a credential, there are tenants (or anonymous ones are allowed) and the limit and
  the window are positive, and is refused otherwise; so no request to a remote provider of a
  served configuration goes out without the gateway's key.
\<close>

theorem validate_iff:
  "(validate cfg = Inr () \<longleftrightarrow>
     (\<forall>p \<in> set (rc_primary cfg # rc_fallbacks cfg). is_loopback p \<or> has_credential p) \<and>
     (rc_tenants cfg \<noteq> [] \<or> rc_allow_unauthenticated cfg) \<and>
     0 < rc_token_limit cfg \<and> \<not> nonpositive (rc_window_seconds cfg)) \<and>
   (\<forall>p \<in> set (rc_primary cfg # rc_fallbacks cfg). validate cfg = Inr () \<longrightarrow> \<not> is_loopback p \<longrightarrow>
     (\<forall>stream body hs. header_get (pv_key_header p) (ob_headers (outbound_request stream p body hs)) = pv_api_key p))"
proof -
  have "header_get (pv_key_header p) (ob_headers (outbound_request stream p body hs)) = pv_api_key p"
    if "has_credential p" for p stream body hs
    using that outbound_credential [of p _ stream body hs] by (auto simp: has_credential_def split: option.splits)
  then show ?thesis using validate_ok [of cfg] by blast
qed

theorem validate_iff_witness:
  "\<not> is_loopback demo_remote \<and> validate (demo_config demo_remote) = Inr () \<and>
     header_get (str ''x-api-key'') (ob_headers (outbound_request False demo_remote [] [])) = Some (str ''sk-1'')"
proof -
  have nl: "\<not> is_loopback demo_remote" by code_simp
  moreover have "validate (demo_config demo_remote) = Inr ()" by code_simp
  moreover have "demo_remote \<in> set (rc_primary (demo_config demo_remote) # rc_fallbacks (demo_config demo_remote))"
    by (simp add: demo_config_def)
  ultimately have "header_get (pv_key_header demo_remote) (ob_headers (outbound_request False demo_remote [] [])) = pv_api_key demo_remote"
    using validate_iff [of "demo_config demo_remote"] by blast
  with nl \<open>validate _ = _\<close> show ?thesis by (simp add: demo_remote_def)
qed

text \<open>
  Nothing is spent on a request that is not admitted to the router: without a recognised
  key, with a body over the limit, or with one that is not an object holding messages, the table
  is untouched whatever the providers would do, and the answer is a 401, 413 or 400 (or a 500
  where the parser raises).
\<close>

theorem unrouted_requests_free:
  assumes "(\<exists>detail. authenticate app request = Inl detail) \<or>
    (\<forall>raw. read_bounded_body MAX_BODY_BYTES request \<noteq> BodyRead raw) \<or>
    (\<exists>raw. read_bounded_body MAX_BODY_BYTES request = BodyRead raw \<and>
       (\<forall>body. request_body raw = Inr (JObj body) \<longrightarrow> \<not> truthy (jget (str ''messages'') body)))"
  shows "snd (handle_messages app request now q rows) = rows \<and>
    (\<exists>message. fst (handle_messages app request now q rows) \<in> {rt_error 401 message, rt_error 413 message, rt_error 400 message, RtUnhandled}) \<and>
    (\<forall>detail. authenticate app request = Inl detail \<longrightarrow> fst (handle_messages app request now q rows) = rt_error 401 detail)"
  using assms
  by (auto simp: handle_messages_def split: sum.splits body_result.splits json.splits)

theorem unrouted_requests_free_witness:
  "snd (handle_messages demo_app \<lparr>rq_method = str ''POST'', rq_headers = [], rq_chunks = []\<rparr> 0 (str ''q'') []) = []"
proof -
  have "\<exists>detail. authenticate demo_app \<lparr>rq_method = str ''POST'', rq_headers = [], rq_chunks = []\<rparr> = Inl detail"
    by (simp add: authenticate_def header_get_def extract_api_key_def py_lower_def py_strip_def str_def)
  then show ?thesis using unrouted_requests_free by blast
qed

text \<open>
  A \<open>messages\<close> value that is a number or \<open>true\<close> passes the check of the handler and
  makes the estimate raise, before anything is reserved.
\<close>

lemma number_of_messages_raises:
  "reservation_size fr [(str ''messages'', JInt 5)] = Inl TypeError"
  by (simp add: reservation_error_iff)

end
