(* ===== verification/PyRepr.thy ===== *)
theory PyRepr
  imports PyJson_Roundtrip
begin

text \<open>
  The decimal text of a double. \<open>float_repr\<close> is \<open>repr(x)\<close>: the shortest decimal that reads
  back as \<open>x\<close>, searched by the number of decimal places (\<open>find_scale\<close>); \<open>fmt2\<close> is
  \<open>f"{x:.2f}"\<close>; \<open>decimal_exponent\<close> is \<open>Decimal(text).as_tuple().exponent\<close>.

  The search succeeds because a double has a finite decimal expansion (\<open>find_scale_reads\<close>:
  the fuel \<open>scale_fuel\<close> reaches it); the text reads back as the number (\<open>float_repr_reads\<close>),
  and it has at most two decimals exactly for the fixed points of \<open>round(x, 2)\<close>
  (\<open>two_places_iff\<close>).
\<close>

section \<open>The shortest decimal\<close>

definition scaled :: "rat \<Rightarrow> int \<Rightarrow> int" where
  "scaled x k = round_half_even (x * 10 powi k)"

definition reads_at :: "rat \<Rightarrow> int \<Rightarrow> bool" where
  "reads_at x k \<longleftrightarrow> rnd64 (of_int (scaled x k) / 10 powi k) = x"

fun find_scale :: "nat \<Rightarrow> int \<Rightarrow> rat \<Rightarrow> int" where
  "find_scale 0 k x = k"
| "find_scale (Suc n) k x = (if reads_at x k then k else find_scale n (k + 1) x)"

text \<open>
  The search starts at one significant digit for a number of at least 1, at no decimal place for
  a smaller one, and need not pass the last binary place.
\<close>

definition scale_start :: "rat \<Rightarrow> int" where
  "scale_start x = (if 1 \<le> x then 1 - int (length (nat_digits (nat \<lfloor>x\<rfloor>))) else 0)"

definition scale_fuel :: "rat \<Rightarrow> nat" where
  "scale_fuel x = length (nat_digits (nat \<lfloor>x\<rfloor>)) + nat (53 - ilog2 x)"

definition decimal_scale :: "rat \<Rightarrow> int" where
  "decimal_scale x = find_scale (scale_fuel x) (scale_start x) x"

definition zero_pad :: "nat \<Rightarrow> pystr \<Rightarrow> pystr" where
  "zero_pad n s = replicate (n - length s) 48 @ s"

definition fixed_text :: "nat \<Rightarrow> int \<Rightarrow> pystr" where
  "fixed_text m k =
     (if k \<le> 0 then nat_digits (m * 10 ^ nat (- k)) @ [46, 48]
      else nat_digits (m div 10 ^ nat k) @ 46 # zero_pad (nat k) (nat_digits (m mod 10 ^ nat k)))"

definition strip_zeros :: "pystr \<Rightarrow> pystr" where
  "strip_zeros s = rev (dropWhile (\<lambda>c. c = 48) (rev s))"

definition scientific_text :: "pystr \<Rightarrow> int \<Rightarrow> pystr" where
  "scientific_text ds e =
     (case strip_zeros ds of
        [] \<Rightarrow> []
      | d # rest \<Rightarrow>
          d # (if rest = [] then [] else 46 # rest) @
          101 # (if e < 0 then 45 else 43) # zero_pad 2 (nat_digits (nat \<bar>e\<bar>)))"

definition positive_repr :: "rat \<Rightarrow> pystr" where
  "positive_repr x =
     (let k = decimal_scale x; m = nat (scaled x k); ds = nat_digits m;
          e = int (length ds) - 1 - k
      in if - 4 \<le> e \<and> e < 16 then fixed_text m k else scientific_text ds e)"

definition float_repr :: "rat \<Rightarrow> pystr" where
  "float_repr x =
     (if x = 0 then str ''0.0''
      else if x < 0 then 45 # positive_repr (- x) else positive_repr x)"

text \<open>\<open>f"{x:.2f}"\<close>, from the exact value.\<close>

definition fmt2 :: "rat \<Rightarrow> pystr" where
  "fmt2 x =
     (let m = nat \<bar>round_half_even (100 * x)\<bar>
      in (if x < 0 then [45] else []) @ nat_digits (m div 100) @ 46 # zero_pad 2 (nat_digits (m mod 100)))"

text \<open>The exponent of the decimal a text denotes.\<close>

definition decimal_exponent :: "pystr \<Rightarrow> int" where
  "decimal_exponent s =
     (let (fs, s1) = scan_fraction (dropWhile is_digit (if prefix [45] s then tl s else s));
          (ex, _) = scan_exponent s1
      in (case ex of None \<Rightarrow> 0 | Some e \<Rightarrow> e) - (case fs of None \<Rightarrow> 0 | Some f \<Rightarrow> int (length f)))"

section \<open>The search\<close>

lemma find_scale_start: "k \<le> find_scale n k x"
proof (induction n arbitrary: k)
  case (Suc n)
  from this [of "k + 1"] show ?case by simp
qed simp

lemma find_scale_reads:
  assumes "reads_at x j" "k \<le> j" "j \<le> k + int n"
  shows "reads_at x (find_scale n k x)"
  using assms
proof (induction n arbitrary: k)
  case (Suc n)
  show ?case
  proof (cases "reads_at x k")
    case False
    with Suc.prems have "k + 1 \<le> j" by (cases "k = j") auto
    with Suc False show ?thesis by simp
  qed simp
qed auto

lemma find_scale_least: "k \<le> j \<Longrightarrow> j < find_scale n k x \<Longrightarrow> \<not> reads_at x j"
proof (induction n arbitrary: k)
  case (Suc n)
  show ?case
  proof (cases "j = k")
    case False
    with Suc.prems have "k + 1 \<le> j" "j < find_scale n (k + 1) x"
      by (auto split: if_splits)
    then show ?thesis by (rule Suc.IH)
  qed (use Suc.prems in auto)
qed simp

lemma reads_at_integer:
  assumes "x * 10 ^ q = of_int z" "rnd64 x = x"
  shows "reads_at x (int q)"
proof -
  have "of_int z / 10 ^ q = x" using assms(1) by (simp add: field_simps)
  with assms show ?thesis by (simp add: reads_at_def scaled_def)
qed

text \<open>At the last binary place the decimal is exact.\<close>

lemma reads_at_exact:
  assumes "rnd64 x = x" "0 < x"
  shows "reads_at x (int (nat (52 - ilog2 x)))"
proof -
  let ?q = "nat (52 - ilog2 x)"
  obtain r where r: "x = of_int r * 2 powi (ilog2 x - 52)"
    using assms by (metis rnd64_def abs_of_pos less_irrefl)
  have "\<exists>z. x * 10 ^ ?q = of_int z"
  proof (cases "ilog2 x \<le> 52")
    case True
    have "(2 :: rat) powi (ilog2 x - 52) * 2 ^ ?q = 1"
      using True by (simp flip: power_int_of_nat power_int_add)
    moreover have "(10 :: rat) ^ ?q = 2 ^ ?q * 5 ^ ?q"
      by (simp flip: power_mult_distrib)
    ultimately have "(2 :: rat) powi (ilog2 x - 52) * 10 ^ ?q = 5 ^ ?q"
      by (metis mult.assoc mult_1)
    then have "x * 10 ^ ?q = of_int r * 5 ^ ?q"
      by (subst r) (simp add: mult.assoc)
    then have "x * 10 ^ ?q = of_int (r * 5 ^ ?q)" by simp
    then show ?thesis by blast
  next
    case False
    then have "x * 10 ^ ?q = of_int (r * 2 ^ nat (ilog2 x - 52))"
      by (subst r) (simp add: power_int_def)
    then show ?thesis by blast
  qed
  with assms(1) show ?thesis by (blast intro: reads_at_integer)
qed

lemma decimal_scale_reads:
  assumes "rnd64 x = x" "0 < x"
  shows "reads_at x (decimal_scale x)"
proof -
  have "0 < length (nat_digits n)" for n by simp
  from this [of "nat \<lfloor>x\<rfloor>"] show ?thesis
    unfolding decimal_scale_def
    by (intro find_scale_reads [OF reads_at_exact [OF assms]])
      (auto simp: scale_start_def scale_fuel_def simp del: length_greater_0_conv)
qed

lemma scaled_pos:
  assumes "0 < x" "reads_at x k"
  shows "0 < scaled x k"
proof -
  have "0 \<le> scaled x k"
    using round_half_even_mono [of 0 "x * 10 powi k"] assms(1)
    by (simp add: scaled_def round_half_even_def)
  moreover have "scaled x k \<noteq> 0"
    using assms by (auto simp: reads_at_def)
  ultimately show ?thesis by simp
qed

section \<open>Reading the text\<close>

lemma zero_pad_digits: "\<forall>c \<in> set s. is_digit c \<Longrightarrow> \<forall>c \<in> set (zero_pad n s). is_digit c"
  by (auto simp: zero_pad_def is_digit_def)

lemma digits_value_zeros: "digits_value acc (replicate n 48) = acc * 10 ^ n"
  by (induction n arbitrary: acc) auto

lemma digits_value_acc: "digits_value acc s = acc * 10 ^ length s + digits_value 0 s"
proof (induction s arbitrary: acc)
  case (Cons c s)
  show ?case
    using Cons [of "10 * acc + (c - 48)"] Cons [of "c - 48"] by (simp add: algebra_simps)
qed simp

lemma digits_value_zero_pad: "digits_value acc (zero_pad n s) = acc * 10 ^ length (zero_pad n s) + digits_value 0 s"
  using digits_value_acc [of "acc * 10 ^ (n - length s)" s]
  by (simp add: zero_pad_def digits_value_append digits_value_zeros power_add)

lemma length_nat_digits: "0 < k \<Longrightarrow> n < 10 ^ k \<Longrightarrow> length (nat_digits n) \<le> k"
proof (induction n arbitrary: k rule: nat_digits.induct)
  case (1 n)
  show ?case
  proof (cases "n < 10")
    case True
    with 1(2) show ?thesis by (simp add: nat_digits.simps [of n])
  next
    case False
    with 1(3) have "1 < k" by (cases k; cases "k - 1") auto
    then obtain j where j: "k = Suc j" "0 < j" by (cases k) auto
    with 1(3) have "n div 10 < 10 ^ j" by (simp add: less_mult_imp_div_less mult.commute)
    from 1(1) [OF False j(2) this] False j show ?thesis by (simp add: nat_digits.simps [of n])
  qed
qed

lemma length_zero_pad: "length (zero_pad n s) = max n (length s)"
  by (simp add: zero_pad_def)

text \<open>A number with a point in it.\<close>

lemma scan_point:
  assumes "number_ends r" "f \<noteq> []" "\<forall>c \<in> set f. is_digit c"
  shows "scan_number (nat_digits n @ 46 # f @ r) =
    Some (Inr (JFloat (float_of_rat (of_nat (digits_value n f) * 10 powi (- int (length f)))), r))"
    and "scan_number (45 # nat_digits n @ 46 # f @ r) =
    Some (Inr (JFloat (float_of_rat (- of_nat (digits_value n f) * 10 powi (- int (length f)))), r))"
proof -
  obtain c t where ct: "nat_digits n = c # t" by (cases "nat_digits n") auto
  have d: "is_digit c" "\<forall>c \<in> set t. is_digit c" using nat_digits_is_digit [of n] by (simp_all add: ct)
  have c45: "c \<noteq> 45" "\<not> is_digit 46" using d by (auto simp: is_digit_def)
  have zero: "t = []" if "c = 48"
  proof (cases "n = 0")
    case True
    with ct show ?thesis by (simp add: nat_digits.simps)
  next
    case False
    with hd_nat_digits [of n] that ct show ?thesis by simp
  qed
  have r: "takeWhile is_digit r = []" "dropWhile is_digit r = r"
    using assms(1) by (cases r; simp add: number_ends_def)+
  have sf: "scan_fraction (46 # f @ r) = (Some f, r)"
    using assms(2,3) by (cases f) (auto simp: scan_fraction_def starts_digit_def takeWhile_append2 dropWhile_append2 r)
  have val: "digits_value 0 (c # t @ f) = digits_value n f"
    using digits_value_append [of 0 "c # t" f] digits_value_nat_digits [of n]
    by (simp add: ct del: digits_value_nat_digits)
  have span: "takeWhile is_digit (t @ 46 # f @ r) = t" "dropWhile is_digit (t @ 46 # f @ r) = 46 # f @ r"
    using d(2) c45(2) by (auto simp: takeWhile_append2 dropWhile_append2)
  show "scan_number (nat_digits n @ 46 # f @ r) =
      Some (Inr (JFloat (float_of_rat (of_nat (digits_value n f) * 10 powi (- int (length f)))), r))"
    using zero d(1) c45 span sf val number_ends_scan(2) [OF assms(1)]
    by (cases "c = 48") (auto simp: scan_number_def ct simp del: digits_value.simps)
  show "scan_number (45 # nat_digits n @ 46 # f @ r) =
      Some (Inr (JFloat (float_of_rat (- of_nat (digits_value n f) * 10 powi (- int (length f)))), r))"
    using zero d(1) c45 span sf val number_ends_scan(2) [OF assms(1)]
    by (cases "c = 48") (auto simp: scan_number_def ct simp del: digits_value.simps)
qed

lemma nat_less_power_digits: "n < 10 ^ length (nat_digits n)"
proof (induction n rule: nat_digits.induct)
  case (1 n)
  show ?case
  proof (cases "n < 10")
    case True
    then show ?thesis by (simp add: nat_digits.simps [of n])
  next
    case False
    from 1 [OF this] have "n div 10 + 1 \<le> 10 ^ length (nat_digits (n div 10))" by simp
    then have "(n div 10 + 1) * 10 \<le> 10 ^ length (nat_digits (n div 10)) * 10" by (rule mult_le_mono1)
    with False show ?thesis by (simp add: nat_digits.simps [of n])
  qed
qed

lemma scaled_mono: "x \<le> y \<Longrightarrow> scaled x k \<le> scaled y k"
  by (simp add: scaled_def round_half_even_mono mult_right_mono)

lemma scaled_power: "0 \<le> j + k \<Longrightarrow> scaled (10 powi j) k = 10 ^ nat (j + k)"
proof -
  assume "0 \<le> j + k"
  then have "(10 :: rat) powi (j + k) = of_int (10 ^ nat (j + k))"
    by (simp add: power_int_def)
  then have "(10 :: rat) powi j * 10 powi k = of_int (10 ^ nat (j + k))"
    by (simp add: power_int_add)
  then show ?thesis by (simp only: scaled_def round_half_even_of_int)
qed

lemma decimal_scale_start: "scale_start x \<le> decimal_scale x"
  by (simp add: decimal_scale_def find_scale_start)

lemma positive_scale_bound:
  assumes x: "rnd64 x = x" "10 powi - 4 \<le> x" "x < 10 ^ 16"
  defines "k \<equiv> decimal_scale x"
  shows "- 4 \<le> int (length (nat_digits (nat (scaled x k)))) - 1 - k"
    and "int (length (nat_digits (nat (scaled x k)))) - 1 - k < 16"
proof -
  let ?M = "nat (scaled x k)"
  have x0: "0 < x" using x(2) by (rule less_le_trans [rotated]) simp
  have reads: "reads_at x k" unfolding k_def by (rule decimal_scale_reads [OF x(1) x0])
  have pos: "0 < scaled x k" by (rule scaled_pos [OF x0 reads])
  have "nat \<lfloor>x\<rfloor> < 10 ^ 16" using x0 x(3) by (simp add: nat_less_iff floor_less_iff)
  then have "length (nat_digits (nat \<lfloor>x\<rfloor>)) \<le> 16" by (rule length_nat_digits [rotated]) simp
  then have start: "- 15 \<le> k"
    using decimal_scale_start [of x] by (auto simp: k_def scale_start_def split: if_splits)
  have len: "0 < length (nat_digits ?M)" by simp
  have lower: "k - 3 \<le> int (length (nat_digits ?M))"
  proof (cases "k \<le> 4")
    case True
    with len show ?thesis by linarith
  next
    case False
    then have "scaled (10 powi - 4) k = 10 ^ nat (- 4 + k)" by (intro scaled_power) simp
    then have "10 ^ nat (- 4 + k) \<le> scaled x k"
      using scaled_mono [OF x(2), of k] by (simp only:)
    then have "10 ^ nat (k - 4) \<le> ?M" using pos by (simp add: le_nat_iff)
    then have "(10 :: nat) ^ nat (k - 4) < 10 ^ length (nat_digits ?M)"
      using nat_less_power_digits [of ?M] by linarith
    then have "nat (k - 4) < length (nat_digits ?M)" by simp
    then show ?thesis by linarith
  qed
  have "scaled x k \<le> scaled (10 powi 16) k"
    using x(3) by (intro scaled_mono) simp
  also have "\<dots> = 10 ^ nat (16 + k)" using start by (intro scaled_power) simp
  finally have le: "scaled x k \<le> 10 ^ nat (16 + k)" .
  have "scaled x k \<noteq> 10 ^ nat (16 + k)"
  proof
    assume "scaled x k = 10 ^ nat (16 + k)"
    then have "of_int (scaled x k) / 10 powi k = (10 :: rat) powi (16 + k) / 10 powi k"
      using start by (simp add: power_int_def)
    also have "\<dots> = 10 ^ 16" by (simp add: power_int_add)
    finally have "x = rnd64 (10 ^ 16)" using reads by (simp add: reads_at_def)
    also have "\<dots> = 10 ^ 16" by code_simp
    finally show False using x(3) by simp
  qed
  with le pos have "?M < 10 ^ nat (16 + k)" by (simp add: nat_less_iff)
  then have "length (nat_digits ?M) \<le> nat (16 + k)"
    using start by (intro length_nat_digits) auto
  with lower start show "- 4 \<le> int (length (nat_digits ?M)) - 1 - k" "int (length (nat_digits ?M)) - 1 - k < 16"
    by linarith+
qed

lemma positive_repr_fixed:
  assumes "rnd64 x = x" "10 powi - 4 \<le> x" "x < 10 ^ 16"
  shows "positive_repr x = fixed_text (nat (scaled x (decimal_scale x))) (decimal_scale x)"
  unfolding positive_repr_def Let_def
  by (rule if_P) (use positive_scale_bound [OF assms] in blast)

lemma fixed_text_scan:
  assumes "number_ends r"
  shows "scan_number (fixed_text m k @ r) = Some (Inr (JFloat (float_of_rat (of_nat m / 10 powi k)), r))"
    and "scan_number (45 # fixed_text m k @ r) = Some (Inr (JFloat (float_of_rat (- (of_nat m / 10 powi k))), r))"
proof -
  have pad: "digits_value (m div 10 ^ n) (zero_pad n (nat_digits (m mod 10 ^ n))) = m"
      "length (zero_pad n (nat_digits (m mod 10 ^ n))) = n" if "0 < n" for n
    using length_nat_digits [OF that, of "m mod 10 ^ n"]
    by (simp_all add: digits_value_zero_pad length_zero_pad max_def div_mult_mod_eq)
  have ds: "\<forall>c \<in> set (zero_pad n (nat_digits q)). is_digit c" for n q
    by (rule zero_pad_digits [OF nat_digits_is_digit])
  have ne: "zero_pad n (nat_digits q) \<noteq> []" for n q by (simp add: zero_pad_def)
  have neg: "(10 :: rat) ^ nat (- k) = inverse (10 powi k)" if "k \<le> 0"
  proof -
    have "(10 :: rat) ^ nat (- k) = 10 powi (- k)" using that by (simp add: power_int_def)
    then show ?thesis by (simp only: power_int_minus)
  qed
  define n f where "n = (if k \<le> 0 then m * 10 ^ nat (- k) else m div 10 ^ nat k)"
    and "f = (if k \<le> 0 then [48] else zero_pad (nat k) (nat_digits (m mod 10 ^ nat k)))"
  have shape: "fixed_text m k = nat_digits n @ 46 # f"
    by (simp add: fixed_text_def n_def f_def)
  have f: "f \<noteq> []" "\<forall>c \<in> set f. is_digit c"
    using ds ne by (auto simp: f_def is_digit_def [of 48])
  have val: "of_nat (digits_value n f) * 10 powi (- int (length f)) = (of_nat m / 10 powi k :: rat)"
  proof (cases "k \<le> 0")
    case True
    have "of_nat (digits_value n f) * 10 powi (- int (length f)) = (of_nat n :: rat)"
      using True by (simp add: f_def)
    also have "\<dots> = of_nat m / 10 powi k"
      using True by (simp add: n_def neg divide_inverse)
    finally show ?thesis .
  next
    case False
    then have "digits_value n f = m" "int (length f) = k"
      using pad [of "nat k"] by (simp_all add: n_def f_def)
    then show ?thesis by (simp add: power_int_minus divide_inverse)
  qed
  show "scan_number (fixed_text m k @ r) = Some (Inr (JFloat (float_of_rat (of_nat m / 10 powi k)), r))"
    using scan_point(1) [OF assms f, of n] by (simp add: shape val)
  show "scan_number (45 # fixed_text m k @ r) = Some (Inr (JFloat (float_of_rat (- (of_nat m / 10 powi k))), r))"
    using scan_point(2) [OF assms f, of n] by (simp add: shape val)
qed

lemma fixed_text_start: "\<exists>c t. fixed_text m k = c # t \<and> is_digit c"
proof -
  have *: "\<exists>c t. nat_digits n = c # t \<and> is_digit c" for n
    using nat_digits_is_digit [of n] by (cases "nat_digits n") auto
  from * [of "m * 10 ^ nat (- k)"] * [of "m div 10 ^ nat k"] show ?thesis
    by (auto simp: fixed_text_def)
qed

text \<open>The range of the fixed notation, which every amount and balance is in.\<close>

definition fixed_range :: "rat \<Rightarrow> bool" where
  "fixed_range x \<longleftrightarrow> rnd64 x = x \<and> (x = 0 \<or> 10 powi - 4 \<le> \<bar>x\<bar> \<and> \<bar>x\<bar> < 10 ^ 16)"

lemma float_of_rat_reads:
  assumes "reads_at x k" "0 < x" "x < 10 ^ 16"
  shows "float_of_rat (of_nat (nat (scaled x k)) / 10 powi k) = Fin x"
    and "float_of_rat (- (of_nat (nat (scaled x k)) / 10 powi k)) = Fin (- x)"
proof -
  have m: "(of_nat (nat (scaled x k)) :: rat) = of_int (scaled x k)"
    using scaled_pos [OF assms(2,1)] by (simp add: of_nat_nat)
  have r: "rnd64 (of_int (scaled x k) / 10 powi k) = x" using assms(1) by (simp add: reads_at_def)
  have b: "(10 :: rat) ^ 16 < 2 ^ 1024" by simp
  show "float_of_rat (of_nat (nat (scaled x k)) / 10 powi k) = Fin x"
    using assms(2,3) b by (simp add: float_of_rat_def m r)
  show "float_of_rat (- (of_nat (nat (scaled x k)) / 10 powi k)) = Fin (- x)"
    using assms(2,3) b rnd64_uminus [of "of_int (scaled x k) / 10 powi k"]
    by (simp add: float_of_rat_def m r)
qed

theorem float_repr_reads:
  assumes "fixed_range x"
  shows "repr_ok float_repr x"
proof -
  consider "x = 0" | "0 < x" | "x < 0" by linarith
  then show ?thesis
  proof cases
    case 1
    have "scan_number ([48, 46, 48] @ r) = Some (Inr (JFloat (Fin 0), r))" if "number_ends r" for r
      using scan_point(1) [OF that, of "[48]" 0]
      by (simp add: nat_digits.simps is_digit_def float_of_rat_def)
    then show ?thesis
      by (simp add: repr_ok_def float_repr_def 1 str_def is_digit_def)
  next
    case 2
    then have x: "rnd64 x = x" "10 powi - 4 \<le> x" "x < 10 ^ 16"
      using assms by (auto simp: fixed_range_def)
    show ?thesis
      using fixed_text_start [of "nat (scaled x (decimal_scale x))" "decimal_scale x"] 2
      by (auto simp: repr_ok_def float_repr_def positive_repr_fixed [OF x] fixed_text_scan
          float_of_rat_reads [OF decimal_scale_reads [OF x(1) 2] 2 x(3)])
  next
    case 3
    let ?x = "- x"
    have x: "rnd64 ?x = ?x" "10 powi - 4 \<le> ?x" "?x < 10 ^ 16" "0 < ?x"
      using assms 3 by (auto simp: fixed_range_def rnd64_uminus)
    show ?thesis
      using fixed_text_start [of "nat (scaled ?x (decimal_scale ?x))" "decimal_scale ?x"] 3
      by (auto simp: repr_ok_def float_repr_def positive_repr_fixed [OF x(1-3)] fixed_text_scan starts_digit_def
          float_of_rat_reads [OF decimal_scale_reads [OF x(1,4)] x(4,3)])
  qed
qed

section \<open>Cents\<close>

text \<open>Once a decimal reads back, every longer one does, far from the limit of 53 bits.\<close>

lemma reads_at_mono:
  assumes "reads_at x k" "k \<le> j" "0 < x" "x * 10 powi j \<le> 10 ^ 14"
  shows "reads_at x j"
proof -
  let ?y = "of_int (scaled x k) / 10 powi k :: rat"
  have y: "rnd64 ?y = x" using assms(1) by (simp add: reads_at_def)
  have y0: "0 < ?y" using scaled_pos [OF assms(3,1)] by simp
  have err: "\<bar>x - ?y\<bar> \<le> ?y / 2 ^ 53" using rnd64_error_pos [OF y0] y by simp
  have "?y / 2 ^ 53 \<le> ?y / 2" using y0 by (intro divide_left_mono) auto
  with err y0 have y2: "?y \<le> 2 * x" by (simp add: abs_if split: if_splits)
  let ?N = "scaled x k * 10 ^ nat (j - k)"
  have "(10 :: rat) ^ nat (j - k) = 10 powi (j - k)"
    using assms(2) by (simp add: power_int_def)
  then have "(10 :: rat) ^ nat (j - k) = 10 powi j / 10 powi k"
    by (simp add: power_int_diff)
  then have N: "of_int ?N = ?y * 10 powi j" by simp
  have "\<bar>of_int ?N - x * 10 powi j\<bar> = \<bar>x - ?y\<bar> * 10 powi j"
  proof -
    have "?y * 10 powi j - x * 10 powi j = - (x - ?y) * 10 powi j" by (simp add: algebra_simps)
    then show ?thesis unfolding N by (simp add: abs_mult abs_minus_commute)
  qed
  also have "\<dots> \<le> 2 * x / 2 ^ 53 * 10 powi j"
    using err y2 by (intro mult_right_mono) (auto elim: order_trans intro: divide_right_mono)
  also have "\<dots> = x * 10 powi j * (2 / 2 ^ 53)" by simp
  also have "\<dots> \<le> 10 ^ 14 * (2 / 2 ^ 53)" using assms(4) by (intro mult_right_mono) auto
  also have "\<dots> < 1 / 2" by simp
  finally have "scaled x j = ?N" unfolding scaled_def by (rule round_half_even_unique)
  then have "of_int (scaled x j) / 10 powi j = ?y" using N by simp
  with y show ?thesis by (simp add: reads_at_def)
qed

lemma reads_at_2: "reads_at x 2 \<longleftrightarrow> py_round2 x = x"
  by (simp add: reads_at_def scaled_def py_round2_def mult.commute)

lemma scale_start_le: "scale_start x \<le> 0"
proof -
  have "0 < length (nat_digits n)" for n by simp
  from this [of "nat \<lfloor>x\<rfloor>"] show ?thesis
    by (simp add: scale_start_def del: length_greater_0_conv)
qed

lemma decimal_scale_le_2:
  assumes "rnd64 x = x" "0 < x" "x \<le> 10 ^ 12"
  shows "decimal_scale x \<le> 2 \<longleftrightarrow> py_round2 x = x"
proof
  assume "decimal_scale x \<le> 2"
  then show "py_round2 x = x"
    using reads_at_mono [OF decimal_scale_reads [OF assms(1,2)], of 2] assms(2,3)
    by (simp add: reads_at_2)
next
  assume "py_round2 x = x"
  then have "reads_at x 2" by (simp add: reads_at_2)
  then show "decimal_scale x \<le> 2"
    using find_scale_least [of "scale_start x" 2 "scale_fuel x" x] scale_start_le [of x]
    by (force simp: decimal_scale_def)
qed

lemma decimal_exponent_point:
  assumes "f \<noteq> []" "\<forall>c \<in> set f. is_digit c"
  shows "decimal_exponent (nat_digits n @ 46 # f) = - int (length f)"
proof -
  have "\<not> prefix [45] (nat_digits n @ 46 # f)"
    using nat_digits_is_digit [of n] by (cases "nat_digits n") (auto simp: is_digit_def)
  moreover have "dropWhile is_digit (nat_digits n @ 46 # f) = 46 # f"
    using nat_digits_is_digit [of n] by (simp add: dropWhile_append2 is_digit_def [of 46])
  moreover have "scan_fraction (46 # f) = (Some f, [])"
    using assms by (cases f) (auto simp: scan_fraction_def starts_digit_def takeWhile_eq_all_conv)
  ultimately show ?thesis
    by (simp add: decimal_exponent_def scan_exponent_def)
qed

lemma decimal_exponent_fixed: "decimal_exponent (fixed_text m k) = - max 1 k"
proof (cases "k \<le> 0")
  case True
  then show ?thesis
    using decimal_exponent_point [of "[48]" "m * 10 ^ nat (- k)"]
    by (simp add: fixed_text_def is_digit_def)
next
  case False
  then have "length (nat_digits (m mod 10 ^ nat k)) \<le> nat k"
    by (intro length_nat_digits) auto
  with False show ?thesis
    using decimal_exponent_point [of "zero_pad (nat k) (nat_digits (m mod 10 ^ nat k))" "m div 10 ^ nat k"]
      zero_pad_digits [OF nat_digits_is_digit]
    by (auto simp: fixed_text_def length_zero_pad max_def zero_pad_def)
qed

lemma digits_value_all_zero: "\<forall>c \<in> set s. c = 48 \<Longrightarrow> digits_value 0 s = 0"
  by (induction s) auto

lemma strip_zeros_digits: "set (strip_zeros s) \<subseteq> set s"
  by (auto simp: strip_zeros_def dest: set_dropWhileD)

lemma strip_zeros_ne: "digits_value 0 s \<noteq> 0 \<Longrightarrow> strip_zeros s \<noteq> []"
  using digits_value_all_zero by (force simp: strip_zeros_def dropWhile_eq_Nil_conv)

lemma decimal_exponent_scientific:
  assumes "\<forall>c \<in> set ds. is_digit c" "digits_value 0 ds \<noteq> 0" "e < 0"
  shows "decimal_exponent (scientific_text ds e) \<le> e"
proof -
  obtain d rest where d: "strip_zeros ds = d # rest"
    using strip_zeros_ne [OF assms(2)] by (cases "strip_zeros ds") auto
  have digits: "is_digit d" "\<forall>c \<in> set rest. is_digit c"
    using strip_zeros_digits [of ds] assms(1) by (auto simp: d)
  define p where "p = zero_pad 2 (nat_digits (nat \<bar>e\<bar>))"
  have p: "\<forall>c \<in> set p. is_digit c" "p \<noteq> []" "int (digits_value 0 p) = - e"
    using zero_pad_digits [OF nat_digits_is_digit] assms(3)
    by (auto simp: p_def digits_value_zero_pad zero_pad_def digits_value_append digits_value_zeros)
  have ex: "scan_exponent (101 # 45 # p) = (Some e, [])"
  proof -
    have run: "takeWhile is_digit p = p" "dropWhile is_digit p = []" "starts_digit p"
      using p by (auto simp: takeWhile_eq_all_conv starts_digit_def split: list.splits)
    show ?thesis using p(3) by (simp add: scan_exponent_def run)
  qed
  have "\<not> prefix [45] (d # t)" for t using digits(1) by (auto simp: is_digit_def)
  moreover have "scan_fraction (46 # rest @ 101 # 45 # p) = (Some rest, 101 # 45 # p)" if "rest \<noteq> []"
    using that digits(2)
    by (cases rest) (auto simp: scan_fraction_def starts_digit_def takeWhile_append2 dropWhile_append2 is_digit_def [of 101])
  moreover have "scan_fraction (101 # 45 # p) = (None, 101 # 45 # p)"
    by (simp add: scan_fraction_def)
  moreover have "scientific_text ds e = d # (if rest = [] then [] else 46 # rest) @ 101 # 45 # p"
    using assms(3) by (simp add: scientific_text_def d p_def)
  ultimately show ?thesis
    using digits(1) ex
    by (cases "rest = []") (simp_all add: decimal_exponent_def is_digit_def [of 46] is_digit_def [of 101])
qed

text \<open>What the amount check of the refund tool decides.\<close>

theorem two_places_iff:
  assumes "rnd64 x = x" "0 < x" "x \<le> 10 ^ 12"
  shows "- decimal_exponent (float_repr x) > 2 \<longleftrightarrow> py_round2 x \<noteq> x"
proof -
  let ?k = "decimal_scale x"
  let ?M = "nat (scaled x ?k)"
  let ?e = "int (length (nat_digits ?M)) - 1 - ?k"
  have repr: "float_repr x = (if - 4 \<le> ?e \<and> ?e < 16 then fixed_text ?M ?k else scientific_text (nat_digits ?M) ?e)"
    using assms(2) by (simp add: float_repr_def positive_repr_def Let_def)
  have "- decimal_exponent (float_repr x) > 2 \<longleftrightarrow> 2 < ?k"
  proof (cases "- 4 \<le> ?e \<and> ?e < 16")
    case True
    then have "float_repr x = fixed_text ?M ?k" unfolding repr by (rule if_P)
    then show ?thesis by (simp add: decimal_exponent_fixed max_def)
  next
    case False
    then have sci: "float_repr x = scientific_text (nat_digits ?M) ?e" unfolding repr by (rule if_not_P)
    have len: "0 < length (nat_digits ?M)" by simp
    have "?e < 16"
    proof (cases "10 powi - 4 \<le> x")
      case True
      show ?thesis by (rule positive_scale_bound(2) [OF assms(1) True]) (use assms(3) in simp)
    next
      case False
      then have "x < 10 powi 0" by simp
      then have "scale_start x = 0" by (simp add: scale_start_def)
      then have k: "0 \<le> ?k" using decimal_scale_start [of x] by simp
      have "scaled x ?k \<le> 10 ^ nat (0 + ?k)"
        using scaled_mono [of x "10 powi 0" ?k] scaled_power [of 0 ?k] k \<open>x < 10 powi 0\<close> by simp
      then have "?M \<le> 10 ^ nat ?k" by (simp add: nat_le_iff)
      then have "?M < 10 ^ (nat ?k + 1)"
        by (rule le_less_trans) simp
      then have "length (nat_digits ?M) \<le> nat ?k + 1" by (intro length_nat_digits) auto
      with k show ?thesis by linarith
    qed
    with False have e: "?e < - 4" by linarith
    then have "4 < ?k" using len by linarith
    moreover have "digits_value 0 (nat_digits ?M) \<noteq> 0"
      using scaled_pos [OF assms(2) decimal_scale_reads [OF assms(1,2)]] by simp
    then have "decimal_exponent (float_repr x) \<le> ?e"
      unfolding sci using e by (intro decimal_exponent_scientific nat_digits_is_digit) auto
    ultimately show ?thesis using e by linarith
  qed
  also have "\<dots> \<longleftrightarrow> py_round2 x \<noteq> x"
    using decimal_scale_le_2 [OF assms] by linarith
  finally show ?thesis .
qed

text \<open>A double is rounded to itself.\<close>

lemma rnd64_exact:
  assumes "y = of_int n * 2 powi e" "ilog2 y - 52 \<le> e" "0 < y"
  shows "rnd64 y = y"
proof -
  let ?f = "ilog2 y - 52"
  have "(2 :: rat) ^ nat (e - ?f) = 2 powi (e - ?f)" using assms(2) by (simp add: power_int_def)
  then have "(2 :: rat) ^ nat (e - ?f) = 2 powi e / 2 powi ?f" by (simp add: power_int_diff)
  then have "y / 2 powi ?f = of_int (n * 2 ^ nat (e - ?f))" by (simp add: assms(1))
  then have "of_int (round_half_even (y / 2 powi ?f)) = y / 2 powi ?f"
    by (simp only: round_half_even_of_int)
  then show ?thesis using assms(3) by (simp add: rnd64_def Let_def)
qed

lemma rnd64_idem_pos:
  assumes "0 < x" shows "rnd64 (rnd64 x) = rnd64 x"
proof -
  let ?l = "ilog2 x"
  let ?y = "rnd64 x"
  have y: "?y = of_int (round_half_even (x / 2 powi (?l - 52))) * 2 powi (?l - 52)"
    using assms by (simp add: rnd64_def Let_def)
  have lo: "2 powi ?l \<le> ?y"
    by (rule rnd64_pow_multiple(2) [OF assms]) (use ilog2_bounds(1) [OF assms] in auto)
  then have y0: "0 < ?y" by (rule less_le_trans [rotated]) simp
  have hi: "?y \<le> 2 powi (?l + 1)"
    by (rule rnd64_pow_multiple(1) [OF assms]) (use ilog2_bounds(2) [OF assms] in auto)
  show ?thesis
  proof (cases "?y = 2 powi (?l + 1)")
    case True
    have "2 powi ilog2 ?y \<le> ?y" by (rule ilog2_bounds(1) [OF y0])
    also have "\<dots> < 2 powi (?l + 2)" unfolding True by (intro power_int_strict_increasing) auto
    finally have "ilog2 ?y < ?l + 2" by (rule powi_2_less_imp)
    then show ?thesis
      using True by (intro rnd64_exact [OF _ _ y0, of 1 "?l + 1"]) auto
  next
    case False
    with hi have "ilog2 ?y < ?l + 1"
      using ilog2_bounds(1) [OF y0] powi_2_less_imp [of "ilog2 ?y" "?l + 1"] by linarith
    then show ?thesis by (intro rnd64_exact [OF y _ y0]) simp
  qed
qed

lemma rnd64_idem [simp]: "rnd64 (rnd64 x) = rnd64 x"
  using rnd64_idem_pos [of x] rnd64_idem_pos [of "- x"]
  by (cases x "0 :: rat" rule: linorder_cases) (auto simp: rnd64_uminus)

lemma fixed_range_cents:
  assumes "0 \<le> c" "c \<le> cents_bound"
  shows "fixed_range (cents c)"
proof (cases "c = 0")
  case False
  have close: "\<bar>cents c - of_int c / 100\<bar> \<le> 1 / 4000" by (rule cents_close [OF assms])
  have "(1 :: rat) \<le> of_int c" "(of_int c :: rat) \<le> of_int (10 ^ 11)"
    using assms False by (simp_all only: cents_bound_def of_int_1_le_iff of_int_le_iff)
  then have "10 powi - 4 \<le> cents c" "cents c < 10 ^ 16"
    using close by (auto simp: abs_if split: if_splits)
  moreover have "rnd64 (cents c) = cents c"
    by (simp add: cents_def)
  ultimately show ?thesis by (auto simp: fixed_range_def)
qed (simp add: fixed_range_def)

end
