(* ===== verification/Srv_Schemas.thy ===== *)
theory Srv_Schemas
  imports PyRepr Unicode
begin

text \<open>
  \<open>customer_mcp/schemas.py\<close>: the two input models of the customer server and the validation
  of a call's arguments against them.

  What the source leaves to pydantic is a parameter (\<open>pydantic\<close>): the conversion of a JSON
  number to a float, the digits its regular expressions accept, and the text and type of its
  own issues. \<open>pydantic_ok\<close> states what the code relies on of it. Everything the source
  declares is modelled: the fields and their order, the bounds of a field in the order pydantic
  documents them, the validators before and after, and the refusal of unknown fields.
\<close>

definition MAX_REFUND_AMOUNT :: rat where "MAX_REFUND_AMOUNT = 100000"

definition MIN_REASON_LENGTH :: nat where "MIN_REASON_LENGTH = 10"

definition MAX_REASON_LENGTH :: nat where "MAX_REASON_LENGTH = 2000"

definition MAX_IDEMPOTENCY_KEY_LENGTH :: nat where "MAX_IDEMPOTENCY_KEY_LENGTH = 128"

lemmas schema_limits =
  MAX_REFUND_AMOUNT_def MIN_REASON_LENGTH_def MAX_REASON_LENGTH_def MAX_IDEMPOTENCY_KEY_LENGTH_def

definition UNSEEN_CATEGORIES :: "string list" where
  "UNSEEN_CATEGORIES = [''Cc'', ''Cf'', ''Zs'', ''Zl'', ''Zp'']"

definition visible_length :: "unicode_db \<Rightarrow> pystr \<Rightarrow> nat" where
  "visible_length db s = length (filter (\<lambda>c. ucd_category db c \<notin> set UNSEEN_CATEGORIES) s)"

section \<open>Fields\<close>

datatype issue_kind =
    Missing
  | ExtraForbidden
  | StringType
  | StringUnicode
  | StringTooLong
  | PatternMismatch
  | FloatType
  | FiniteNumber
  | GreaterThan
  | LessThanEqual
  | ValueIssue pystr  \<comment> \<open>a \<open>ValueError\<close> of a validator\<close>

record pydantic =
  pd_float :: "json \<Rightarrow> pyfloat option"
  pd_digit :: "nat \<Rightarrow> bool"
  pd_type :: "issue_kind \<Rightarrow> pystr"
  pd_msg :: "issue_kind \<Rightarrow> pystr"

text \<open>
  A float is a double; a JSON float is taken as it is and a small integer exactly; null, arrays
  and objects are no numbers; the digits include 0 to 9.
\<close>

definition pydantic_ok :: "pydantic \<Rightarrow> bool" where
  "pydantic_ok pd \<longleftrightarrow>
     (\<forall>j x. pd_float pd j = Some (Fin x) \<longrightarrow> rnd64 x = x) \<and>
     (\<forall>x. rnd64 x = x \<longrightarrow> pd_float pd (JFloat (Fin x)) = Some (Fin x)) \<and>
     (\<forall>i. \<bar>i\<bar> < 2 ^ 53 \<longrightarrow> pd_float pd (JInt i) = Some (Fin (of_int i))) \<and>
     (\<forall>c. 48 \<le> c \<and> c \<le> 57 \<longrightarrow> pd_digit pd c)"

definition str_field :: "json \<Rightarrow> issue_kind + pystr" where
  "str_field j =
     (case j of JStr s \<Rightarrow> if valid_str s then Inr s else Inl StringUnicode | _ \<Rightarrow> Inl StringType)"

definition CUSTOMER_PREFIX :: pystr where "CUSTOMER_PREFIX = str ''CUST-''"

text \<open>\<open>^CUST-\d{5}$\<close>.\<close>

definition customer_id_matches :: "pydantic \<Rightarrow> pystr \<Rightarrow> bool" where
  "customer_id_matches pd s \<longleftrightarrow>
     prefix CUSTOMER_PREFIX s \<and> length s = 10 \<and> (\<forall>c \<in> set (drop 5 s). pd_digit pd c)"

definition customer_id_field :: "pydantic \<Rightarrow> json \<Rightarrow> issue_kind + pystr" where
  "customer_id_field pd j =
     and_then (str_field j) (\<lambda>s. if customer_id_matches pd s then Inr s else Inl PatternMismatch)"

definition reject_non_numeric :: "json \<Rightarrow> issue_kind + json" where
  "reject_non_numeric j =
     (case j of
        JBool b \<Rightarrow> Inl (ValueIssue (str ''must be a number, not a boolean''))
      | JStr s \<Rightarrow> Inl (ValueIssue (str ''must be a JSON number, not a string''))
      | _ \<Rightarrow> Inr j)"

text \<open>The declared bounds: \<open>allow_inf_nan=False\<close>, \<open>le\<close> and \<open>gt\<close>.\<close>

definition amount_bounds :: "pydantic \<Rightarrow> json \<Rightarrow> issue_kind + rat" where
  "amount_bounds pd j =
     (case pd_float pd j of
        None \<Rightarrow> Inl FloatType
      | Some (Fin x) \<Rightarrow>
          if MAX_REFUND_AMOUNT < x then Inl LessThanEqual
          else if x \<le> 0 then Inl GreaterThan else Inr x
      | Some _ \<Rightarrow> Inl FiniteNumber)"

definition two_decimals :: "rat \<Rightarrow> issue_kind + rat" where
  "two_decimals x =
     (if - decimal_exponent (float_repr x) > 2
      then Inl (ValueIssue (str ''must have at most 2 decimal places (currency precision)''))
      else Inr x)"

definition amount_field :: "pydantic \<Rightarrow> json \<Rightarrow> issue_kind + rat" where
  "amount_field pd j =
     and_then (reject_non_numeric j) (\<lambda>v. and_then (amount_bounds pd v) two_decimals)"

definition meaningful_reason :: "unicode_db \<Rightarrow> pystr \<Rightarrow> issue_kind + pystr" where
  "meaningful_reason db s =
     (let stripped = py_strip s; visible = visible_length db stripped
      in if visible < MIN_REASON_LENGTH
         then Inl (ValueIssue
           (str ''must be at least '' @ nat_digits MIN_REASON_LENGTH @ str '' visible characters (got '' @
            nat_digits visible @ str ''; whitespace, control and zero-width characters do not count)''))
         else Inr stripped)"

definition reason_field :: "unicode_db \<Rightarrow> json \<Rightarrow> issue_kind + pystr" where
  "reason_field db j =
     and_then (str_field j)
       (\<lambda>s. if MAX_REASON_LENGTH < length s then Inl StringTooLong else meaningful_reason db s)"

definition usable_idempotency_key :: "unicode_db \<Rightarrow> pystr \<Rightarrow> issue_kind + pystr option" where
  "usable_idempotency_key db s =
     (if visible_length db (py_strip s) = 0
      then Inl (ValueIssue (str ''must contain at least one visible character when provided''))
      else Inr (Some (py_strip s)))"

definition idempotency_key_field :: "unicode_db \<Rightarrow> json \<Rightarrow> issue_kind + pystr option" where
  "idempotency_key_field db j =
     (if j = JNull then Inr None
      else and_then (str_field j)
        (\<lambda>s. if MAX_IDEMPOTENCY_KEY_LENGTH < length s then Inl StringTooLong
             else usable_idempotency_key db s))"

lemmas field_defs =
  customer_id_field_def amount_field_def reason_field_def idempotency_key_field_def

section \<open>Models\<close>

record refund_input =
  ri_customer :: pystr
  ri_amount :: rat
  ri_reason :: pystr
  ri_key :: "pystr option"

definition required :: "string \<Rightarrow> (json \<Rightarrow> issue_kind + 'a) \<Rightarrow> jobject \<Rightarrow> issue_kind + 'a" where
  "required name f args =
     (case map_of args (str name) of None \<Rightarrow> Inl Missing | Some v \<Rightarrow> f v)"

definition optional :: "string \<Rightarrow> 'a \<Rightarrow> (json \<Rightarrow> issue_kind + 'a) \<Rightarrow> jobject \<Rightarrow> issue_kind + 'a" where
  "optional name dflt f args =
     (case map_of args (str name) of None \<Rightarrow> Inr dflt | Some v \<Rightarrow> f v)"

definition field_issue :: "string \<Rightarrow> issue_kind + 'a \<Rightarrow> (pystr \<times> issue_kind) list" where
  "field_issue name r = (case r of Inl e \<Rightarrow> [(str name, e)] | Inr x \<Rightarrow> [])"

text \<open>\<open>extra="forbid"\<close>.\<close>

definition extra_issues :: "string list \<Rightarrow> jobject \<Rightarrow> (pystr \<times> issue_kind) list" where
  "extra_issues names args =
     map (\<lambda>k. (k, ExtraForbidden)) (filter (\<lambda>k. k \<notin> str ` set names) (map fst args))"

definition validate_customer :: "pydantic \<Rightarrow> jobject \<Rightarrow> (pystr \<times> issue_kind) list + pystr" where
  "validate_customer pd args =
     (let c = required ''customer_id'' (customer_id_field pd) args;
          issues = field_issue ''customer_id'' c @ extra_issues [''customer_id''] args
      in if issues = [] then Inr (projr c) else Inl issues)"

definition validate_refund ::
  "pydantic \<Rightarrow> unicode_db \<Rightarrow> jobject \<Rightarrow> (pystr \<times> issue_kind) list + refund_input"
where
  "validate_refund pd db args =
     (let c = required ''customer_id'' (customer_id_field pd) args;
          a = required ''amount'' (amount_field pd) args;
          r = required ''reason'' (reason_field db) args;
          k = optional ''idempotency_key'' None (idempotency_key_field db) args;
          issues = field_issue ''customer_id'' c @ field_issue ''amount'' a @ field_issue ''reason'' r @
            field_issue ''idempotency_key'' k @
            extra_issues [''customer_id'', ''amount'', ''reason'', ''idempotency_key''] args
      in if issues = []
         then Inr \<lparr>ri_customer = projr c, ri_amount = projr a, ri_reason = projr r, ri_key = projr k\<rparr>
         else Inl issues)"

section \<open>What is accepted\<close>

lemma and_then_iff: "and_then r f = Inr y \<longleftrightarrow> (\<exists>x. r = Inr x \<and> f x = Inr y)"
  by (rule and_then_Inr)

lemma str_field_Inr: "str_field j = Inr s \<longleftrightarrow> j = JStr s \<and> valid_str s"
  by (auto simp: str_field_def split: json.splits)

lemma customer_id_field_Inr:
  "customer_id_field pd j = Inr s \<longleftrightarrow> j = JStr s \<and> valid_str s \<and> customer_id_matches pd s"
  by (auto simp: customer_id_field_def and_then_iff str_field_Inr)

lemma meaningful_reason_Inr:
  "meaningful_reason db s = Inr r \<longleftrightarrow> r = py_strip s \<and> MIN_REASON_LENGTH \<le> visible_length db r"
  by (auto simp: meaningful_reason_def Let_def)

lemma reason_field_Inr:
  "reason_field db j = Inr r \<longleftrightarrow>
     (\<exists>s. j = JStr s \<and> valid_str s \<and> length s \<le> MAX_REASON_LENGTH \<and> r = py_strip s \<and>
        MIN_REASON_LENGTH \<le> visible_length db r)"
  by (auto simp: reason_field_def and_then_iff str_field_Inr meaningful_reason_Inr) (metis not_less)

lemma idempotency_key_field_Inr:
  "idempotency_key_field db j = Inr k \<longleftrightarrow>
     j = JNull \<and> k = None \<or>
     (\<exists>s. j = JStr s \<and> valid_str s \<and> length s \<le> MAX_IDEMPOTENCY_KEY_LENGTH \<and>
        k = Some (py_strip s) \<and> 0 < visible_length db (py_strip s))"
  by (auto simp: idempotency_key_field_def and_then_iff str_field_Inr usable_idempotency_key_def)

text \<open>An amount of whole cents, from one cent to the maximum.\<close>

definition whole_cents :: "rat \<Rightarrow> bool" where
  "whole_cents x \<longleftrightarrow> (\<exists>c. 1 \<le> c \<and> c \<le> 10 ^ 7 \<and> x = cents c)"

lemma cents_MAX: "cents (10 ^ 7) = MAX_REFUND_AMOUNT"
  by code_simp

lemma whole_cents_iff:
  "whole_cents x \<longleftrightarrow> rnd64 x = x \<and> 0 < x \<and> x \<le> MAX_REFUND_AMOUNT \<and> py_round2 x = x"
proof
  assume "whole_cents x"
  then obtain c where c: "1 \<le> c" "c \<le> 10 ^ 7" "x = cents c" by (auto simp: whole_cents_def)
  have "cents 0 < cents c" by (rule cents_less_iff [THEN iffD2]) (use c in \<open>auto simp: cents_bound_def\<close>)
  moreover have "cents c \<le> cents (10 ^ 7)" by (rule cents_mono [OF c(2)])
  moreover have "py_round2 (cents c) = cents c" by (rule py_round2_cents) (use c in \<open>auto simp: cents_bound_def\<close>)
  ultimately show "rnd64 x = x \<and> 0 < x \<and> x \<le> MAX_REFUND_AMOUNT \<and> py_round2 x = x"
    unfolding cents_MAX by (simp add: c(3) cents_def)
next
  assume x: "rnd64 x = x \<and> 0 < x \<and> x \<le> MAX_REFUND_AMOUNT \<and> py_round2 x = x"
  let ?c = "round_half_even (100 * x)"
  have xc: "x = cents ?c" using x by (simp add: py_round2_def cents_def)
  have "?c \<le> round_half_even (of_int (10 ^ 7))"
    using x by (intro round_half_even_mono) (simp add: MAX_REFUND_AMOUNT_def)
  then have "?c \<le> 10 ^ 7" by (simp only: round_half_even_of_int)
  moreover have "0 \<le> ?c" using x round_half_even_mono [of 0 "100 * x"] by (simp add: round_half_even_def)
  moreover have "?c \<noteq> 0" using x xc by auto
  ultimately show "whole_cents x" using xc by (auto simp: whole_cents_def intro!: exI [of _ ?c])
qed

definition json_number :: "json \<Rightarrow> bool" where
  "json_number j \<longleftrightarrow> \<not> is_bool j \<and> as_str j = None"

lemma amount_field_Inr:
  assumes "pydantic_ok pd"
  shows "amount_field pd j = Inr x \<longleftrightarrow> json_number j \<and> pd_float pd j = Some (Fin x) \<and> whole_cents x"
proof -
  have "reject_non_numeric j = Inr v \<longleftrightarrow> json_number j \<and> v = j" for v
    by (cases j) (auto simp: reject_non_numeric_def json_number_def)
  moreover have "amount_bounds pd v = Inr y \<longleftrightarrow> pd_float pd v = Some (Fin y) \<and> 0 < y \<and> y \<le> MAX_REFUND_AMOUNT" for v y
    by (auto simp: amount_bounds_def split: option.splits pyfloat.splits)
  ultimately have unfolded: "amount_field pd j = Inr x \<longleftrightarrow>
      json_number j \<and> (\<exists>y. pd_float pd j = Some (Fin y) \<and> 0 < y \<and> y \<le> MAX_REFUND_AMOUNT \<and> two_decimals y = Inr x)"
    by (auto simp: amount_field_def and_then_iff)
  have decimals: "two_decimals y = Inr x \<longleftrightarrow> x = y \<and> py_round2 y = y"
    if "rnd64 y = y" "0 < y" "y \<le> MAX_REFUND_AMOUNT" for y
    using two_places_iff [of y] that by (auto simp: two_decimals_def MAX_REFUND_AMOUNT_def)
  have double: "rnd64 y = y" if "pd_float pd j = Some (Fin y)" for y
    using assms that by (auto simp: pydantic_ok_def)
  show ?thesis
  proof
    assume "amount_field pd j = Inr x"
    then obtain y where "json_number j" "pd_float pd j = Some (Fin y)" "0 < y" "y \<le> MAX_REFUND_AMOUNT"
        "two_decimals y = Inr x"
      using unfolded by blast
    then show "json_number j \<and> pd_float pd j = Some (Fin x) \<and> whole_cents x"
      using double decimals by (simp add: whole_cents_iff)
  next
    assume "json_number j \<and> pd_float pd j = Some (Fin x) \<and> whole_cents x"
    then show "amount_field pd j = Inr x"
      using decimals [of x] by (auto simp: unfolded whole_cents_iff)
  qed
qed

lemma field_issue_Nil: "field_issue name r = [] \<longleftrightarrow> (\<exists>x. r = Inr x)"
  by (cases r) (auto simp: field_issue_def)

lemma extra_issues_Nil: "extra_issues names args = [] \<longleftrightarrow> fst ` set args \<subseteq> str ` set names"
  by (auto simp: extra_issues_def filter_empty_conv)

lemma required_Inr: "required name f args = Inr x \<longleftrightarrow> (\<exists>v. map_of args (str name) = Some v \<and> f v = Inr x)"
  by (auto simp: required_def split: option.splits)

lemma optional_Inr:
  "optional name d f args = Inr x \<longleftrightarrow>
     map_of args (str name) = None \<and> x = d \<or> (\<exists>v. map_of args (str name) = Some v \<and> f v = Inr x)"
  by (auto simp: optional_def split: option.splits)

definition REFUND_FIELDS :: "string list" where
  "REFUND_FIELDS = [''customer_id'', ''amount'', ''reason'', ''idempotency_key'']"

lemma validate_refund_Inr:
  "validate_refund pd db args = Inr inp \<longleftrightarrow>
     fst ` set args \<subseteq> str ` set REFUND_FIELDS \<and>
     required ''customer_id'' (customer_id_field pd) args = Inr (ri_customer inp) \<and>
     required ''amount'' (amount_field pd) args = Inr (ri_amount inp) \<and>
     required ''reason'' (reason_field db) args = Inr (ri_reason inp) \<and>
     optional ''idempotency_key'' None (idempotency_key_field db) args = Inr (ri_key inp)"
  by (cases inp) (auto simp: validate_refund_def Let_def field_issue_Nil extra_issues_Nil REFUND_FIELDS_def)

lemma validate_customer_Inr:
  "validate_customer pd args = Inr c \<longleftrightarrow>
     fst ` set args \<subseteq> {str ''customer_id''} \<and>
     (\<exists>v. map_of args (str ''customer_id'') = Some v \<and> customer_id_field pd v = Inr c)"
  by (cases "required ''customer_id'' (customer_id_field pd) args")
    (auto simp: validate_customer_def Let_def field_issue_Nil extra_issues_Nil required_def split: option.splits)

text \<open>The invariant of a validated refund.\<close>

definition valid_refund_input :: "pydantic \<Rightarrow> unicode_db \<Rightarrow> refund_input \<Rightarrow> bool" where
  "valid_refund_input pd db inp \<longleftrightarrow>
     valid_str (ri_customer inp) \<and> customer_id_matches pd (ri_customer inp) \<and>
     whole_cents (ri_amount inp) \<and>
     valid_str (ri_reason inp) \<and> MIN_REASON_LENGTH \<le> visible_length db (ri_reason inp) \<and>
     length (ri_reason inp) \<le> MAX_REASON_LENGTH \<and>
     (\<forall>k. ri_key inp = Some k \<longrightarrow>
        valid_str k \<and> 0 < visible_length db k \<and> length k \<le> MAX_IDEMPOTENCY_KEY_LENGTH)"

lemma valid_str_strip: "valid_str s \<Longrightarrow> valid_str (py_strip s)"
  using set_strip_by [of py_isspace s] by (auto simp: valid_str_def py_strip_def)

lemma length_strip: "length (py_strip s) \<le> length s"
  unfolding py_strip_def strip_by_def
  by (metis (no_types, lifting) length_dropWhile_le length_rev order_trans)

lemma validate_refund_valid:
  assumes "pydantic_ok pd" "validate_refund pd db args = Inr inp"
  shows "valid_refund_input pd db inp"
  using assms(2)
  by (auto simp: valid_refund_input_def validate_refund_Inr required_Inr optional_Inr
      customer_id_field_Inr amount_field_Inr [OF assms(1)] reason_field_Inr idempotency_key_field_Inr
      valid_str_strip intro: order_trans [OF length_strip])

text \<open>
  C23. A refund call is accepted exactly when its arguments name no other field than the four,
  the customer id is \<open>CUST-\<close> and five digits, the amount is a JSON number that is neither a
  boolean nor a string and is a whole number of cents from 0.01 to 100,000.00, the stripped
  reason has at least 10 visible characters and at most 2,000 in all, and the key, if given,
  is visible and at most 128 long; the validated input holds the stripped strings.
\<close>

theorem refund_accepted_iff:
  assumes "pydantic_ok pd"
  shows "validate_refund pd db args = Inr inp \<longleftrightarrow>
    fst ` set args \<subseteq> str ` set REFUND_FIELDS \<and>
    (\<exists>s. map_of args (str ''customer_id'') = Some (JStr s) \<and> valid_str s \<and> customer_id_matches pd s \<and>
       ri_customer inp = s) \<and>
    (\<exists>j c. map_of args (str ''amount'') = Some j \<and> json_number j \<and> 1 \<le> c \<and> c \<le> 10 ^ 7 \<and>
       pd_float pd j = Some (Fin (cents c)) \<and> ri_amount inp = cents c) \<and>
    (\<exists>s. map_of args (str ''reason'') = Some (JStr s) \<and> valid_str s \<and> length s \<le> 2000 \<and>
       ri_reason inp = py_strip s \<and> 10 \<le> visible_length db (py_strip s)) \<and>
    (map_of args (str ''idempotency_key'') \<in> {None, Some JNull} \<and> ri_key inp = None \<or>
     (\<exists>s. map_of args (str ''idempotency_key'') = Some (JStr s) \<and> valid_str s \<and> length s \<le> 128 \<and>
       ri_key inp = Some (py_strip s) \<and> 0 < visible_length db (py_strip s)))"
  by (auto simp: validate_refund_Inr required_Inr optional_Inr customer_id_field_Inr
      amount_field_Inr [OF assms] reason_field_Inr idempotency_key_field_Inr whole_cents_def schema_limits)

section \<open>A concrete instance\<close>

text \<open>The conversion table of pydantic for JSON values, and ASCII digits.\<close>

definition demo_pydantic :: pydantic where
  "demo_pydantic =
     \<lparr>pd_float = (\<lambda>j. case j of JInt i \<Rightarrow> Some (float_of_rat (of_int i))
                      | JFloat (Fin x) \<Rightarrow> Some (Fin (rnd64 x)) | JFloat f \<Rightarrow> Some f | _ \<Rightarrow> None),
      pd_digit = is_digit,
      pd_type = (\<lambda>i. str ''type''), pd_msg = (\<lambda>i. str ''message'')\<rparr>"

definition demo_args :: jobject where
  "demo_args =
     [(str ''customer_id'', JStr (str ''CUST-00042'')), (str ''amount'', JFloat (Fin (cents 4999))),
      (str ''reason'', JStr (str '' Duplicate charge''))]"

lemma rnd64_int:
  assumes "\<bar>i\<bar> < 2 ^ 53"
  shows "rnd64 (of_int i) = of_int i"
proof -
  have pos: "rnd64 (of_int n) = of_int n" if "0 < n" "n < 2 ^ 53" for n :: int
  proof (rule rnd64_exact [of _ n 0])
    have n: "(0 :: rat) < of_int n" using that(1) by simp
    have "2 powi ilog2 (of_int n) \<le> (of_int n :: rat)" by (rule ilog2_bounds(1) [OF n])
    also have "(of_int n :: rat) < of_int (2 ^ 53)" using that(2) by (simp only: of_int_less_iff)
    also have "\<dots> = 2 powi 53" by simp
    finally have "ilog2 (of_int n) < 53" by (rule powi_2_less_imp)
    then show "ilog2 (of_int n) - 52 \<le> 0" by simp
  qed (use that in auto)
  show ?thesis
    using pos [of i] pos [of "- i"] assms rnd64_uminus [of "of_int i"]
    by (cases i "0 :: int" rule: linorder_cases) auto
qed

lemma float_of_rat_int:
  assumes "\<bar>i\<bar> < 2 ^ 53"
  shows "float_of_rat (of_int i) = Fin (of_int i)"
proof -
  have "(of_int \<bar>i\<bar> :: rat) < of_int (2 ^ 53)" using assms by (simp only: of_int_less_iff)
  moreover have "(2 :: rat) ^ 53 < 2 ^ 1024" by (rule power_strict_increasing) auto
  ultimately have "\<bar>of_int i :: rat\<bar> < 2 ^ 1024" by simp
  then show ?thesis by (auto simp: float_of_rat_def rnd64_int [OF assms] abs_less_iff)
qed

lemma demo_pydantic_ok: "pydantic_ok demo_pydantic"
proof -
  have "rnd64 x = x" if "float_of_rat y = Fin x" for x y
    using that by (auto simp: float_of_rat_def Let_def split: if_splits)
  then show ?thesis
    by (auto simp: pydantic_ok_def demo_pydantic_def float_of_rat_int is_digit_def
        split: json.splits pyfloat.splits)
qed

theorem refund_accepted_iff_witness:
  "validate_refund demo_pydantic small_db demo_args =
     Inr \<lparr>ri_customer = str ''CUST-00042'', ri_amount = cents 4999, ri_reason = str ''Duplicate charge'', ri_key = None\<rparr>"
proof -
  have strip: "py_strip (str '' Duplicate charge'') = str ''Duplicate charge''"
    by (simp add: py_strip_def strip_by_def str_def py_isspace_def)
  have "10 \<le> visible_length small_db (str ''Duplicate charge'')" by code_simp
  then have reason: "\<exists>s. map_of demo_args (str ''reason'') = Some (JStr s) \<and> valid_str s \<and> length s \<le> 2000 \<and>
      str ''Duplicate charge'' = py_strip s \<and> 10 \<le> visible_length small_db (py_strip s)"
    using strip by (intro exI [of _ "str '' Duplicate charge''"]) (simp add: demo_args_def, simp add: str_def)
  have cust: "\<exists>s. map_of demo_args (str ''customer_id'') = Some (JStr s) \<and> valid_str s \<and>
      customer_id_matches demo_pydantic s \<and> str ''CUST-00042'' = s"
    by (simp add: demo_args_def)
      (simp add: customer_id_matches_def CUSTOMER_PREFIX_def demo_pydantic_def str_def is_digit_def)
  have "pd_float demo_pydantic (JFloat (Fin (cents 4999))) = Some (Fin (cents 4999))"
    by (simp add: demo_pydantic_def cents_def)
  then have amount: "\<exists>j c. map_of demo_args (str ''amount'') = Some j \<and> json_number j \<and> 1 \<le> c \<and> c \<le> 10 ^ 7 \<and>
      pd_float demo_pydantic j = Some (Fin (cents c)) \<and> cents 4999 = cents c"
    by (intro exI [of _ "JFloat (Fin (cents 4999))"] exI [of _ 4999]) (simp add: json_number_def demo_args_def)
  have keys: "fst ` set demo_args \<subseteq> str ` set REFUND_FIELDS"
    by (simp add: demo_args_def REFUND_FIELDS_def)
  have "map_of demo_args (str ''idempotency_key'') \<in> {None, Some JNull}"
    by (simp add: demo_args_def)
  then show ?thesis
    unfolding refund_accepted_iff [OF demo_pydantic_ok] refund_input.simps
    by (intro conjI keys cust amount reason disjI1) simp_all
qed

end
