(* ===== verification/Srv_Ledger.thy ===== *)
theory Srv_Ledger
  imports PyRepr Http
begin

text \<open>
  \<open>customer_mcp/idempotency.py\<close>: the replay guard of the refund tool. The table
  \<open>refund_operations\<close> is a list of rows; \<open>run_once\<close> is its one transaction, over the
  state \<open>'s\<close> the callback \<open>issue\<close> works on. SHA-256 is a parameter, and so is
  whether SQLite can take the write lock and whether it can store the row and commit
  (\<open>ledger_io\<close>): a failure of the first leaves everything as it was, a failure of the second
  rolls the table back but not what \<open>issue\<close> did.

  The interface is the locale \<open>replay_store\<close>: a store of answers by key with the time each
  was given, from which old ones expire. It is interpreted on the table.
\<close>

section \<open>Operation identity\<close>

record ledger_config =
  lc_sha256 :: "bytes \<Rightarrow> pystr"
  lc_window :: rat

definition DEFAULT_DB_PATH :: string where "DEFAULT_DB_PATH = ''data/customer_mcp.sqlite''"

definition DEFAULT_REPLAY_WINDOW_SECONDS :: rat where "DEFAULT_REPLAY_WINDOW_SECONDS = 86400"

text \<open>\<open>IdempotencyConfig.from_env\<close>: the path and the window; \<open>None\<close> is a \<open>ValueError\<close>.\<close>

definition idempotency_from_env :: "py_runtime \<Rightarrow> (pystr \<times> pyfloat) option" where
  "idempotency_from_env rt =
     map_option (Pair (getenv rt ''CUSTOMER_MCP_DB'' DEFAULT_DB_PATH))
       (case rt_environ rt (str ''CUSTOMER_MCP_REPLAY_WINDOW_SECONDS'') of
          None \<Rightarrow> Some (Fin DEFAULT_REPLAY_WINDOW_SECONDS)
        | Some v \<Rightarrow> rt_float rt v)"

definition fingerprint_material :: "pystr \<Rightarrow> rat \<Rightarrow> pystr \<Rightarrow> pystr" where
  "fingerprint_material customer amount reason =
     dumps_with False [44, 32] [58, 32] float_repr
       (JObj (sort_key fst
          [(str ''customer_id'', JStr customer), (str ''amount'', JStr (fmt2 amount)),
           (str ''reason'', JStr reason)]))"

definition fingerprint :: "ledger_config \<Rightarrow> pystr \<Rightarrow> rat \<Rightarrow> pystr \<Rightarrow> pystr" where
  "fingerprint lc customer amount reason =
     lc_sha256 lc (utf8_encode (fingerprint_material customer amount reason))"

definition operation_key :: "ledger_config \<Rightarrow> pystr \<Rightarrow> rat \<Rightarrow> pystr \<Rightarrow> pystr option \<Rightarrow> pystr" where
  "operation_key lc customer amount reason supplied =
     (case supplied of
        Some s \<Rightarrow>
          if s \<noteq> [] then str ''key:'' @ customer @ 58 # s
          else str ''auto:'' @ fingerprint lc customer amount reason
      | None \<Rightarrow> str ''auto:'' @ fingerprint lc customer amount reason)"

section \<open>The table\<close>

record ledger_row =
  lr_key :: pystr
  lr_customer :: pystr
  lr_fingerprint :: pystr
  lr_response :: pystr
  lr_created :: rat

type_synonym ledger = "ledger_row list"

text \<open>\<open>DELETE ... WHERE created_at <= ?\<close> and \<open>SELECT ... WHERE operation_key = ?\<close>.\<close>

definition expire :: "rat \<Rightarrow> ledger \<Rightarrow> ledger" where
  "expire horizon rows = filter (\<lambda>r. \<not> lr_created r \<le> horizon) rows"

definition find_row :: "ledger \<Rightarrow> pystr \<Rightarrow> ledger_row option" where
  "find_row rows key = find (\<lambda>r. lr_key r = key) rows"

record ledger_io =
  io_lock :: bool
  io_store :: bool

datatype 'e ledger_error =
    Refused 'e       \<comment> \<open>\<open>issue\<close> raised\<close>
  | StorageFailed    \<comment> \<open>\<open>sqlite3.Error\<close>\<close>
  | RecordUnreadable \<comment> \<open>\<open>json.loads\<close> raised\<close>

definition response_text :: "jobject \<Rightarrow> pystr" where
  "response_text payload = dumps_with False [44, 32] [58, 32] float_repr (JObj payload)"

definition run_once ::
  "ledger_config \<Rightarrow> ledger_io \<Rightarrow> rat \<Rightarrow> pystr \<Rightarrow> rat \<Rightarrow> pystr \<Rightarrow> pystr option \<Rightarrow>
   ('s \<Rightarrow> ('e + jobject) \<times> 's) \<Rightarrow> ledger \<times> 's \<Rightarrow> ('e ledger_error + json \<times> bool) \<times> ledger \<times> 's"
where
  "run_once lc io now customer amount reason supplied issue st =
     (let (rows, s) = st;
          key = operation_key lc customer amount reason supplied;
          horizon = fsub now (lc_window lc);
          live = expire horizon rows
      in if \<not> io_lock io then (Inl StorageFailed, rows, s)
         else
           (case find_row live key of
              Some row \<Rightarrow>
                (case json_loads (lr_response row) of
                   Inr v \<Rightarrow> if io_store io then (Inr (v, True), live, s) else (Inl StorageFailed, rows, s)
                 | Inl e \<Rightarrow> (Inl RecordUnreadable, rows, s))
            | None \<Rightarrow>
                (case issue s of
                   (Inl e, s') \<Rightarrow> (Inl (Refused e), rows, s')
                 | (Inr payload, s') \<Rightarrow>
                     if io_store io
                     then (Inr (JObj payload, False),
                           live @ [\<lparr>lr_key = key, lr_customer = customer,
                                    lr_fingerprint = fingerprint lc customer amount reason,
                                    lr_response = response_text payload, lr_created = now\<rparr>],
                           s')
                     else (Inl StorageFailed, rows, s'))))"

text \<open>\<open>clear\<close>.\<close>

definition clear_ledger :: "ledger \<Rightarrow> ledger" where
  "clear_ledger rows = []"

definition distinct_ops :: "ledger \<Rightarrow> bool" where
  "distinct_ops rows \<longleftrightarrow> distinct (map lr_key rows)"

lemma find_row_append: "find_row (rows @ [r]) k = (case find_row rows k of None \<Rightarrow> if lr_key r = k then Some r else None | Some x \<Rightarrow> Some x)"
  by (induction rows) (auto simp: find_row_def)

lemma find_row_None: "find_row rows k = None \<longleftrightarrow> k \<notin> lr_key ` set rows"
  by (auto simp: find_row_def find_None_iff)

lemma find_row_expire:
  "distinct_ops rows \<Longrightarrow>
   find_row (expire h rows) k =
     (case find_row rows k of Some r \<Rightarrow> if lr_created r \<le> h then None else Some r | None \<Rightarrow> None)"
proof (induction rows)
  case (Cons r rows)
  have "find_row (expire h rows) (lr_key r) = None"
    using Cons.prems by (auto simp: find_row_None expire_def distinct_ops_def)
  with Cons show ?case
    by (auto simp: find_row_def expire_def distinct_ops_def)
qed (simp add: find_row_def expire_def)

lemma distinct_ops_expire: "distinct_ops rows \<Longrightarrow> distinct_ops (expire h rows)"
  by (auto simp: distinct_ops_def expire_def intro: distinct_map_filter)

lemma run_once_distinct:
  "distinct_ops (fst st) \<Longrightarrow> distinct_ops (fst (snd (run_once lc io now customer amount reason supplied issue st)))"
  by (auto simp: run_once_def Let_def distinct_ops_expire find_row_None distinct_ops_def [of "_ @ _"]
      simp flip: distinct_ops_def split: prod.splits option.splits sum.splits)

section \<open>The interface: a replay store\<close>

locale replay_store =
  fixes look :: "'s \<Rightarrow> 'k \<Rightarrow> ('v \<times> 't :: linorder) option"
    and put :: "'k \<Rightarrow> 'v \<Rightarrow> 't \<Rightarrow> 's \<Rightarrow> 's"
    and age :: "'t \<Rightarrow> 's \<Rightarrow> 's"
    and ok :: "'s \<Rightarrow> bool"
  assumes look_put: "look s k = None \<Longrightarrow> look (put k v t s) k' = (if k' = k then Some (v, t) else look s k')"
    and look_age: "ok s \<Longrightarrow> look (age h s) k =
      (case look s k of Some (v, t) \<Rightarrow> if t \<le> h then None else Some (v, t) | None \<Rightarrow> None)"
    and ok_put: "ok s \<Longrightarrow> look s k = None \<Longrightarrow> ok (put k v t s)"
    and ok_age: "ok s \<Longrightarrow> ok (age h s)"
begin

text \<open>One guarded operation: its horizon, its time, its key and the answer it would give.\<close>

definition guard :: "'t \<Rightarrow> 't \<Rightarrow> 'k \<Rightarrow> 'v \<Rightarrow> 's \<Rightarrow> 's" where
  "guard h t k v s = (case look (age h s) k of Some x \<Rightarrow> age h s | None \<Rightarrow> put k v t (age h s))"

lemma ok_guard: "ok s \<Longrightarrow> ok (guard h t k v s)"
  by (simp add: guard_def ok_age ok_put split: option.split)

lemma guard_keeps: "ok s \<Longrightarrow> look s k = Some (v, t) \<Longrightarrow> h < t \<Longrightarrow> look (guard h t' k' v' s) k = Some (v, t)"
  by (auto simp: guard_def look_age look_put ok_age split: option.split)

lemma guard_once:
  "ok s \<Longrightarrow> look (guard h t k v s) k = Some (v', t') \<Longrightarrow> h' < t' \<Longrightarrow> look (age h' (guard h t k v s)) k = Some (v', t')"
  by (simp add: look_age ok_guard)

end

text \<open>The table: what the guard reads of a row is its response and the time it was stored.\<close>

definition ledger_look :: "ledger \<Rightarrow> pystr \<Rightarrow> (pystr \<times> rat) option" where
  "ledger_look rows k = map_option (\<lambda>r. (lr_response r, lr_created r)) (find_row rows k)"

definition ledger_put :: "pystr \<Rightarrow> pystr \<Rightarrow> pystr \<Rightarrow> pystr \<Rightarrow> rat \<Rightarrow> ledger \<Rightarrow> ledger" where
  "ledger_put customer fp key response now rows =
     rows @ [\<lparr>lr_key = key, lr_customer = customer, lr_fingerprint = fp, lr_response = response, lr_created = now\<rparr>]"

lemma ledger_look_None: "ledger_look rows k = None \<longleftrightarrow> k \<notin> lr_key ` set rows"
  by (simp add: ledger_look_def find_row_None)

interpretation ops: replay_store ledger_look "ledger_put customer fp" expire distinct_ops for customer fp
proof unfold_locales
  show "ledger_look (ledger_put customer fp k v t s) k' = (if k' = k then Some (v, t) else ledger_look s k')"
    if "ledger_look s k = None" for s k v t k'
    using that by (auto simp: ledger_look_def ledger_put_def find_row_append split: option.splits)
  show "ledger_look (expire h s) k =
      (case ledger_look s k of Some (v, t) \<Rightarrow> if t \<le> h then None else Some (v, t) | None \<Rightarrow> None)"
    if "distinct_ops s" for s h k
    using that by (simp add: ledger_look_def find_row_expire split: option.split)
  show "distinct_ops (ledger_put customer fp k v t s)" if "distinct_ops s" "ledger_look s k = None" for s k v t
    using that by (auto simp: distinct_ops_def ledger_put_def ledger_look_None)
  show "distinct_ops (expire h s)" if "distinct_ops s" for s h
    by (rule distinct_ops_expire [OF that])
qed

text \<open>The branches of \<open>run_once\<close>; every table it leaves is the old one or the guard's.\<close>

lemma run_once_cases:
  assumes "run_once lc io now customer amount reason supplied issue (rows, s) = (res, rows', s')"
  defines "key \<equiv> operation_key lc customer amount reason supplied"
    and "horizon \<equiv> fsub now (lc_window lc)"
  obtains (lock) "res = Inl StorageFailed" "rows' = rows" "s' = s" "\<not> io_lock io"
    | (replay) r t v where "ledger_look (expire horizon rows) key = Some (r, t)" "json_loads r = Inr v"
        "res = Inr (v, True)" "rows' = expire horizon rows" "s' = s"
    | (replay_failed) r t where "ledger_look (expire horizon rows) key = Some (r, t)" "res = Inl StorageFailed \<or> res = Inl RecordUnreadable"
        "rows' = rows" "s' = s"
    | (refused) e where "ledger_look (expire horizon rows) key = None" "issue s = (Inl e, s')" "res = Inl (Refused e)" "rows' = rows"
    | (issued) payload where "ledger_look (expire horizon rows) key = None" "issue s = (Inr payload, s')"
        "res = Inr (JObj payload, False)" "io_store io"
        "rows' = ledger_put customer (fingerprint lc customer amount reason) key (response_text payload) now (expire horizon rows)"
    | (lost) payload where "ledger_look (expire horizon rows) key = None" "issue s = (Inr payload, s')" "\<not> io_store io"
        "res = Inl StorageFailed" "rows' = rows"
proof (cases "io_lock io")
  case False
  with assms that(1) show ?thesis by (simp add: run_once_def)
next
  case lock: True
  let ?live = "expire horizon rows"
  show ?thesis
  proof (cases "find_row ?live key")
    case (Some row)
    then have look: "ledger_look ?live key = Some (lr_response row, lr_created row)"
      by (simp add: ledger_look_def)
    show ?thesis
    proof (cases "json_loads (lr_response row)")
      case (Inl e)
      with Some lock assms(1) show ?thesis
        by (intro that(3) [OF look]) (auto simp: run_once_def Let_def key_def horizon_def)
    next
      case (Inr v)
      with Some lock assms(1) show ?thesis
        using that(2) [OF look Inr] that(3) [OF look]
        by (cases "io_store io") (auto simp: run_once_def Let_def key_def horizon_def)
    qed
  next
    case None
    then have look: "ledger_look ?live key = None" by (simp add: ledger_look_def)
    show ?thesis
    proof (cases "issue s")
      case (Pair r s1)
      show ?thesis
      proof (cases r)
        case (Inl e)
        with None lock assms(1) Pair show ?thesis
          by (intro that(4) [OF look]) (auto simp: run_once_def Let_def key_def horizon_def)
      next
        case (Inr payload)
        with None lock assms(1) Pair show ?thesis
          using that(5) [OF look] that(6) [OF look]
          by (cases "io_store io") (auto simp: run_once_def Let_def key_def horizon_def ledger_put_def)
      qed
    qed
  qed
qed

lemma run_once_ok:
  assumes "run_once lc io now customer amount reason supplied issue (rows, s) = (res, rows', s')" "distinct_ops rows"
  shows "distinct_ops rows'"
  using run_once_distinct [of "(rows, s)" lc io now customer amount reason supplied issue] assms by simp

text \<open>An answer stays on record for as long as it is younger than the horizon of every operation.\<close>

lemma run_once_keeps:
  assumes "run_once lc io now customer amount reason supplied issue (rows, s) = (res, rows', s')"
    and "distinct_ops rows" "ledger_look rows k = Some (r, t)" "fsub now (lc_window lc) < t"
  shows "ledger_look rows' k = Some (r, t)"
proof -
  have aged: "ledger_look (expire (fsub now (lc_window lc)) rows) k = Some (r, t)"
    using assms(2-4) by (simp add: ops.look_age)
  show ?thesis
    using assms(1)
  proof (cases rule: run_once_cases)
    case (issued payload)
    then show ?thesis using aged by (auto simp: ops.look_put)
  qed (use assms(3) aged in auto)
qed

text \<open>A repeated operation gets the recorded answer; nothing is issued and no row is written.\<close>

lemma run_once_replays:
  assumes "distinct_ops rows" "ledger_look rows (operation_key lc customer amount reason supplied) = Some (r, t)"
    and "fsub now (lc_window lc) < t" "json_loads r = Inr v" "io_lock io" "io_store io"
  shows "run_once lc io now customer amount reason supplied issue (rows, s) =
    (Inr (v, True), expire (fsub now (lc_window lc)) rows, s)"
proof -
  have "ledger_look (expire (fsub now (lc_window lc)) rows) (operation_key lc customer amount reason supplied) = Some (r, t)"
    using assms(1-3) by (simp add: ops.look_age)
  then show ?thesis
    using assms(4-6) by (auto simp: run_once_def Let_def ledger_look_def)
qed

lemma run_once_issues:
  assumes "ledger_look rows (operation_key lc customer amount reason supplied) = None" "distinct_ops rows"
    and "issue s = (Inr payload, s')" "io_lock io" "io_store io"
  shows "\<exists>rows'. run_once lc io now customer amount reason supplied issue (rows, s) = (Inr (JObj payload, False), rows', s') \<and>
    ledger_look rows' (operation_key lc customer amount reason supplied) = Some (response_text payload, now)"
proof -
  let ?key = "operation_key lc customer amount reason supplied"
  have "ledger_look (expire (fsub now (lc_window lc)) rows) ?key = None"
    using assms(1,2) by (simp add: ops.look_age)
  then have "ledger_look (ledger_put customer fp ?key (response_text payload) now
      (expire (fsub now (lc_window lc)) rows)) ?key = Some (response_text payload, now)" for fp
    by (simp add: ops.look_put)
  moreover have "find_row (expire (fsub now (lc_window lc)) rows) ?key = None"
    using \<open>ledger_look (expire _ rows) ?key = None\<close> by (simp add: ledger_look_def)
  ultimately show ?thesis
    using assms(3-5) by (simp add: run_once_def Let_def ledger_put_def)
qed

text \<open>The recorded answer reads back as the answer that was given.\<close>

lemma response_reads_back:
  "wf_json float_repr (JObj payload) \<Longrightarrow> json_loads (response_text payload) = Inr (JObj payload)"
  unfolding response_text_def by (rule loads_dumps) (simp_all add: separator_def json_ws_def)

section \<open>Operation identity\<close>

lemma valid_fmt2: "valid_str (fmt2 amount)"
proof -
  have "valid_str (nat_digits n)" for n
    using set_nat_digits [of _ n] by (fastforce simp: valid_str_def valid_cp_def)
  then show ?thesis
    by (auto simp: fmt2_def Let_def zero_pad_def valid_cp_def valid_str_def)
qed

lemma material_fields:
  "sort_key fst [(str ''customer_id'', JStr customer), (str ''amount'', JStr (fmt2 amount)),
      (str ''reason'', JStr reason)] =
    [(str ''amount'', JStr (fmt2 amount)), (str ''customer_id'', JStr customer), (str ''reason'', JStr reason)]"
    by (simp add: str_def)

lemma material_reads_back:
  assumes "valid_str customer" "valid_str reason"
  shows "json_loads (fingerprint_material customer amount reason) =
    Inr (JObj [(str ''amount'', JStr (fmt2 amount)), (str ''customer_id'', JStr customer), (str ''reason'', JStr reason)])"
proof -
  show ?thesis
    using assms valid_fmt2 [of amount]
    unfolding fingerprint_material_def material_fields
    by (intro loads_dumps) (simp_all add: separator_def json_ws_def)
qed

lemma fmt2_cents:
  assumes "0 \<le> c" "c \<le> cents_bound" "0 \<le> d" "d \<le> cents_bound" "fmt2 (cents c) = fmt2 (cents d)"
  shows "c = d"
proof -
  have shape: "fmt2 (cents n) = nat_digits (nat n div 100) @ 46 # zero_pad 2 (nat_digits (nat n mod 100))"
    if "0 \<le> n" "n \<le> cents_bound" for n
    using that cents_nonneg [OF that(1)] by (simp add: fmt2_def round_cents Let_def)
  have cut: "takeWhile ((\<noteq>) 46) (nat_digits a @ 46 # f) = nat_digits a"
      "dropWhile ((\<noteq>) 46) (nat_digits a @ 46 # f) = 46 # f" for a f
  proof -
    have "\<forall>c \<in> set (nat_digits a). 46 \<noteq> c" using set_nat_digits [of _ a] by fastforce
    then show "takeWhile ((\<noteq>) 46) (nat_digits a @ 46 # f) = nat_digits a"
        "dropWhile ((\<noteq>) 46) (nat_digits a @ 46 # f) = 46 # f"
      by (simp_all add: takeWhile_append2 dropWhile_append2)
  qed
  have "nat c div 100 = nat d div 100"
    using arg_cong [OF assms(5), of "takeWhile ((\<noteq>) 46)"] assms(1-4) by (simp only: shape cut nat_digits_inject)
  moreover have "zero_pad 2 (nat_digits (nat c mod 100)) = zero_pad 2 (nat_digits (nat d mod 100))"
    using arg_cong [OF assms(5), of "dropWhile ((\<noteq>) 46)"] assms(1-4) by (simp only: shape cut list.inject)
  then have "nat c mod 100 = nat d mod 100"
    using digits_value_zero_pad [of 0] digits_value_nat_digits by (metis add_0 mult_zero_left)
  ultimately have "nat c = nat d" by (metis div_mult_mod_eq)
  with assms show ?thesis by simp
qed

lemma material_inject:
  assumes "valid_str customer" "valid_str reason" "valid_str customer'" "valid_str reason'"
    and "fingerprint_material customer amount reason = fingerprint_material customer' amount' reason'"
  shows "customer = customer' \<and> fmt2 amount = fmt2 amount' \<and> reason = reason'"
  using material_reads_back [OF assms(1,2), of amount] material_reads_back [OF assms(3,4), of amount'] assms(5)
  by simp

lemma valid_escape_raw: "valid_cp c \<Longrightarrow> valid_str (escape_raw c)"
proof -
  have "valid_cp (hex_digit n)" if "n < 16" for n
    using printable_hex_digit [OF that] by (simp add: valid_cp_def)
  then show "valid_cp c \<Longrightarrow> valid_str (escape_raw c)"
    by (auto simp: escape_raw_def u_escape_def hex4_def valid_cp_def valid_str_def [of "[]"])
qed

lemma valid_quote_raw: "valid_str s \<Longrightarrow> valid_str (quote_with False s)"
  using valid_escape_raw
  by (fastforce simp: quote_with_def escape_char_def valid_str_def valid_cp_def [of 34])

lemma material_valid:
  assumes "valid_str customer" "valid_str reason"
  shows "valid_str (fingerprint_material customer amount reason)"
proof -
  show ?thesis
    unfolding fingerprint_material_def material_fields
    using assms by (simp add: valid_quote_raw valid_fmt2 valid_cp_def valid_str_def [of "[]"])
qed

text \<open>SHA-256 keeps these two texts apart.\<close>

definition no_collision :: "ledger_config \<Rightarrow> pystr \<Rightarrow> pystr \<Rightarrow> bool" where
  "no_collision lc m m' \<longleftrightarrow> (lc_sha256 lc (utf8_encode m) = lc_sha256 lc (utf8_encode m') \<longrightarrow> m = m')"

lemma fingerprint_inject:
  assumes "valid_str customer" "valid_str reason" "valid_str customer'" "valid_str reason'"
    and "no_collision lc (fingerprint_material customer amount reason) (fingerprint_material customer' amount' reason')"
    and "fingerprint lc customer amount reason = fingerprint lc customer' amount' reason'"
  shows "customer = customer' \<and> fmt2 amount = fmt2 amount' \<and> reason = reason'"
  using material_inject [OF assms(1-4)] assms(5,6) by (simp add: fingerprint_def no_collision_def)

end
