(* ===== verification/Srv_Store.thy ===== *)
theory Srv_Store
  imports Srv_Schemas Srv_Ledger
begin

text \<open>
  \<open>customer_mcp/store.py\<close>: the customers, the refunds and their operations. A balance is a
  double; the lemmas relate it to a whole number of cents (\<open>cents_of\<close>), in which the store
  is an abstract ledger: a refund moves its amount from the balance to the list of refunds
  (\<open>issue_refund_money\<close>). The uuid and the time stamp of a refund are inputs.
\<close>

section \<open>Data\<close>

record domain_error =
  de_code :: pystr
  de_message :: pystr
  de_details :: jobject

record customer =
  cu_id :: pystr
  cu_name :: pystr
  cu_email :: pystr
  cu_status :: pystr
  cu_spend :: rat
  cu_balance :: rat
  cu_signed_up :: pystr

record refund =
  rf_id :: pystr
  rf_customer :: pystr
  rf_amount :: rat
  rf_reason :: pystr
  rf_created :: pystr

record store =
  st_customers :: "(pystr \<times> customer) list"
  st_refunds :: "(pystr \<times> refund) list"

definition seed_rows :: "customer list" where
  "seed_rows =
     [\<lparr>cu_id = str ''CUST-00042'', cu_name = str ''Ada Lovelace'', cu_email = str ''ada@example.com'',
       cu_status = str ''active'', cu_spend = cents 124000, cu_balance = cents 32000, cu_signed_up = str ''2023-04-11''\<rparr>,
      \<lparr>cu_id = str ''CUST-00007'', cu_name = str ''Grace Hopper'', cu_email = str ''grace@example.com'',
       cu_status = str ''active'', cu_spend = cents 8999, cu_balance = cents 0, cu_signed_up = str ''2024-01-30''\<rparr>,
      \<lparr>cu_id = str ''CUST-01337'', cu_name = str ''Alan Turing'', cu_email = str ''alan@example.com'',
       cu_status = str ''frozen'', cu_spend = cents 450000, cu_balance = cents 120000, cu_signed_up = str ''2022-09-02''\<rparr>,
      \<lparr>cu_id = str ''CUST-99999'', cu_name = str ''Katherine Johnson'', cu_email = str ''katherine@example.com'',
       cu_status = str ''closed'', cu_spend = cents 1550, cu_balance = cents 0, cu_signed_up = str ''2021-06-18''\<rparr>]"

definition seed :: "(pystr \<times> customer) list" where
  "seed = dict_of (map (\<lambda>c. (cu_id c, c)) seed_rows)"

definition empty_store :: store where
  "empty_store = \<lparr>st_customers = seed, st_refunds = []\<rparr>"

section \<open>Operations\<close>

definition customer_not_found :: "pystr \<Rightarrow> domain_error" where
  "customer_not_found cid =
     \<lparr>de_code = str ''customer_not_found'', de_message = str ''No customer exists with id '' @ cid @ [46],
      de_details = [(str ''customer_id'', JStr cid)]\<rparr>"

definition get_customer :: "pystr \<Rightarrow> store \<Rightarrow> domain_error + jobject" where
  "get_customer cid st =
     (case map_of (st_customers st) cid of
        None \<Rightarrow> Inl (customer_not_found cid)
      | Some c \<Rightarrow> Inr
          [(str ''customer_id'', JStr (cu_id c)), (str ''name'', JStr (cu_name c)),
           (str ''email'', JStr (cu_email c)), (str ''status'', JStr (cu_status c)),
           (str ''lifetime_spend'', JFloat (Fin (py_round2 (cu_spend c)))),
           (str ''refundable_balance'', JFloat (Fin (py_round2 (cu_balance c)))),
           (str ''signed_up'', JStr (cu_signed_up c))])"

definition account_not_active :: "unicode_db \<Rightarrow> pystr \<Rightarrow> pystr \<Rightarrow> domain_error" where
  "account_not_active db cid status =
     \<lparr>de_code = str ''account_not_active'',
      de_message = str ''Cannot refund customer '' @ cid @ str '': account status is '' @ py_repr db status @ [46],
      de_details = [(str ''customer_id'', JStr cid), (str ''status'', JStr status)]\<rparr>"

definition insufficient_balance :: "pystr \<Rightarrow> rat \<Rightarrow> rat \<Rightarrow> domain_error" where
  "insufficient_balance cid amount balance =
     \<lparr>de_code = str ''insufficient_refundable_balance'',
      de_message = str ''Refund of '' @ fmt2 amount @ str '' exceeds the refundable balance of '' @
        fmt2 balance @ str '' for '' @ cid @ [46],
      de_details = [(str ''customer_id'', JStr cid), (str ''requested'', JFloat (Fin (py_round2 amount))),
        (str ''refundable_balance'', JFloat (Fin (py_round2 balance)))]\<rparr>"

text \<open>\<open>uuid4().hex\<close> in lower case, and the clock's text.\<close>

record refund_stamp =
  rs_hex :: pystr
  rs_time :: pystr

definition hex_upper :: "nat \<Rightarrow> nat" where
  "hex_upper c = (if 97 \<le> c \<and> c \<le> 122 then c - 32 else c)"

definition refund_id :: "refund_stamp \<Rightarrow> pystr" where
  "refund_id rs = str ''RFND-'' @ map hex_upper (take 12 (rs_hex rs))"

definition issued_payload :: "refund \<Rightarrow> rat \<Rightarrow> jobject" where
  "issued_payload r remaining =
     [(str ''refund_id'', JStr (rf_id r)), (str ''customer_id'', JStr (rf_customer r)),
      (str ''amount'', JFloat (Fin (rf_amount r))), (str ''reason'', JStr (rf_reason r)),
      (str ''created_at'', JStr (rf_created r)),
      (str ''remaining_refundable_balance'', JFloat (Fin remaining)), (str ''status'', JStr (str ''issued''))]"

definition issue_refund ::
  "unicode_db \<Rightarrow> refund_stamp \<Rightarrow> pystr \<Rightarrow> rat \<Rightarrow> pystr \<Rightarrow> store \<Rightarrow> (domain_error + jobject) \<times> store"
where
  "issue_refund db rs cid amount reason st =
     (case map_of (st_customers st) cid of
        None \<Rightarrow> (Inl (customer_not_found cid), st)
      | Some c \<Rightarrow>
          if cu_status c \<noteq> str ''active'' then (Inl (account_not_active db cid (cu_status c)), st)
          else if cu_balance c < amount then (Inl (insufficient_balance cid amount (cu_balance c)), st)
          else
            (let r = \<lparr>rf_id = refund_id rs, rf_customer = cid, rf_amount = py_round2 amount,
                      rf_reason = reason, rf_created = rs_time rs\<rparr>;
                 remaining = py_round2 (fsub (cu_balance c) amount)
             in (Inr (issued_payload r remaining),
                 \<lparr>st_customers = AList.update cid (c\<lparr>cu_balance := remaining\<rparr>) (st_customers st),
                  st_refunds = AList.update (rf_id r) r (st_refunds st)\<rparr>)))"

record refund_call =
  rc_input :: refund_input
  rc_now :: rat
  rc_stamp :: refund_stamp
  rc_io :: ledger_io

record server =
  sv_rows :: ledger
  sv_store :: store

definition call_key :: "ledger_config \<Rightarrow> refund_call \<Rightarrow> pystr" where
  "call_key lc c =
     operation_key lc (ri_customer (rc_input c)) (ri_amount (rc_input c)) (ri_reason (rc_input c)) (ri_key (rc_input c))"

definition call_once ::
  "ledger_config \<Rightarrow> unicode_db \<Rightarrow> refund_call \<Rightarrow> server \<Rightarrow> (domain_error ledger_error + json \<times> bool) \<times> ledger \<times> store"
where
  "call_once lc db c sv =
     (let i = rc_input c
      in run_once lc (rc_io c) (rc_now c) (ri_customer i) (ri_amount i) (ri_reason i) (ri_key i)
           (issue_refund db (rc_stamp c) (ri_customer i) (ri_amount i) (ri_reason i)) (sv_rows sv, sv_store sv))"

definition create_refund ::
  "ledger_config \<Rightarrow> unicode_db \<Rightarrow> refund_call \<Rightarrow> server \<Rightarrow> (domain_error ledger_error + jobject) \<times> server"
where
  "create_refund lc db c sv =
     (let (res, rows, st) = call_once lc db c sv
      in (case res of
            Inl e \<Rightarrow> Inl e
          | Inr (JObj payload, replayed) \<Rightarrow> Inr (AList.update (str ''replayed'') (JBool replayed) payload)
          | Inr (v, replayed) \<Rightarrow> Inl RecordUnreadable,
          \<lparr>sv_rows = rows, sv_store = st\<rparr>))"

text \<open>\<open>reset_store\<close>.\<close>

definition reset_store :: "server \<Rightarrow> server" where
  "reset_store sv = \<lparr>sv_rows = clear_ledger (sv_rows sv), sv_store = empty_store\<rparr>"

text \<open>A history of calls, in the order the ledger's lock serialises them.\<close>

fun run_calls :: "ledger_config \<Rightarrow> unicode_db \<Rightarrow> refund_call list \<Rightarrow> server \<Rightarrow> server" where
  "run_calls lc db [] sv = sv"
| "run_calls lc db (c # cs) sv = run_calls lc db cs (snd (create_refund lc db c sv))"

section \<open>Money\<close>

definition cents_of :: "rat \<Rightarrow> int" where
  "cents_of x = round_half_even (100 * x)"

lemma cents_of_cents: "0 \<le> c \<Longrightarrow> c \<le> cents_bound \<Longrightarrow> cents_of (cents c) = c"
  by (simp add: cents_of_def round_cents)

text \<open>What has been refunded to a customer, in cents.\<close>

definition refunded :: "pystr \<Rightarrow> store \<Rightarrow> int" where
  "refunded cid st =
     sum_list (map (\<lambda>r. cents_of (rf_amount r)) (filter (\<lambda>r. rf_customer r = cid) (map snd (st_refunds st))))"

definition money_at :: "int \<Rightarrow> rat \<Rightarrow> bool" where
  "money_at b x \<longleftrightarrow> 0 \<le> b \<and> b \<le> cents_bound \<and> x = cents b"

lemma money_at_cents_of: "money_at b x \<Longrightarrow> cents_of x = b"
  by (simp add: money_at_def cents_of_cents)

text \<open>Every balance is a whole number of cents.\<close>

definition whole_balances :: "store \<Rightarrow> bool" where
  "whole_balances st \<longleftrightarrow>
     (\<forall>cid c. map_of (st_customers st) cid = Some c \<longrightarrow> money_at (cents_of (cu_balance c)) (cu_balance c))"

lemma balance_money:
  "whole_balances st \<Longrightarrow> map_of (st_customers st) cid = Some c \<Longrightarrow> money_at (cents_of (cu_balance c)) (cu_balance c)"
  by (simp add: whole_balances_def)

definition refundable :: "pystr \<Rightarrow> int \<Rightarrow> store \<Rightarrow> bool" where
  "refundable cid a st \<longleftrightarrow>
     (\<exists>c. map_of (st_customers st) cid = Some c \<and> cu_status c = str ''active'' \<and> a \<le> cents_of (cu_balance c))"

lemma amount_money: "whole_cents x \<Longrightarrow> money_at (cents_of x) x \<and> 0 < cents_of x"
  by (auto simp: whole_cents_def money_at_def cents_of_cents cents_bound_def)

text \<open>The balance check and the new balance, in cents.\<close>

lemma balance_check:
  assumes "money_at b x" "money_at a y"
  shows "x < y \<longleftrightarrow> b < a" and "a \<le> b \<Longrightarrow> py_round2 (fsub x y) = cents (b - a)"
    and "py_round2 y = y"
  using assms cents_less_iff py_round2_fsub_cents [of a b] py_round2_cents [of a]
  by (auto simp: money_at_def)

lemma issue_refund_cases:
  assumes "whole_balances st" "whole_cents amount"
  shows "issue_refund db rs cid amount reason st =
    (case map_of (st_customers st) cid of
       None \<Rightarrow> (Inl (customer_not_found cid), st)
     | Some c \<Rightarrow>
         if cu_status c \<noteq> str ''active'' then (Inl (account_not_active db cid (cu_status c)), st)
         else if cents_of (cu_balance c) < cents_of amount then (Inl (insufficient_balance cid amount (cu_balance c)), st)
         else
           (let left = cents (cents_of (cu_balance c) - cents_of amount);
                r = \<lparr>rf_id = refund_id rs, rf_customer = cid, rf_amount = amount, rf_reason = reason, rf_created = rs_time rs\<rparr>
            in (Inr (issued_payload r left),
                \<lparr>st_customers = AList.update cid (c\<lparr>cu_balance := left\<rparr>) (st_customers st),
                 st_refunds = AList.update (refund_id rs) r (st_refunds st)\<rparr>)))"
proof (cases "map_of (st_customers st) cid")
  case (Some c)
  note check = balance_check [OF balance_money [OF assms(1) Some] conjunct1 [OF amount_money [OF assms(2)]]]
  with Some show ?thesis
    by (auto simp: issue_refund_def Let_def not_less)
qed (simp add: issue_refund_def)

lemma refunded_update:
  assumes "rf_id r \<notin> fst ` set (st_refunds st)"
  shows "refunded cid \<lparr>st_customers = cs, st_refunds = AList.update (rf_id r) r (st_refunds st)\<rparr> =
    refunded cid st + (if rf_customer r = cid then cents_of (rf_amount r) else 0)"
  using assms by (simp add: refunded_def update_fresh)

text \<open>An operation that only moves money between a balance and the refunds.\<close>

definition moves_money :: "store \<Rightarrow> store \<Rightarrow> bool" where
  "moves_money st st' \<longleftrightarrow>
     whole_balances st' \<and>
     (\<forall>cid c. map_of (st_customers st) cid = Some c \<longrightarrow>
        (\<exists>b. map_of (st_customers st') cid = Some (c\<lparr>cu_balance := b\<rparr>) \<and>
           cents_of b + refunded cid st' = cents_of (cu_balance c) + refunded cid st \<and>
           refunded cid st \<le> refunded cid st' \<and>
           (cu_status c \<noteq> str ''active'' \<longrightarrow> b = cu_balance c))) \<and>
     (\<forall>cid. map_of (st_customers st) cid = None \<longrightarrow>
        map_of (st_customers st') cid = None \<and> refunded cid st' = refunded cid st)"

lemma moves_money_refl: "whole_balances st \<Longrightarrow> moves_money st st"
  by (auto simp: moves_money_def intro!: exI [of _ "cu_balance _"])

lemma moves_money_trans:
  assumes "moves_money st st'" "moves_money st' st''"
  shows "moves_money st st''"
  unfolding moves_money_def
proof (intro conjI allI impI)
  show "whole_balances st''" using assms(2) by (simp add: moves_money_def)
next
  fix cid c
  assume "map_of (st_customers st) cid = Some c"
  then obtain b where b: "map_of (st_customers st') cid = Some (c\<lparr>cu_balance := b\<rparr>)"
      "cents_of b + refunded cid st' = cents_of (cu_balance c) + refunded cid st"
      "refunded cid st \<le> refunded cid st'" "cu_status c \<noteq> str ''active'' \<longrightarrow> b = cu_balance c"
    using assms(1) unfolding moves_money_def by blast
  then obtain b' where b': "map_of (st_customers st'') cid = Some (c\<lparr>cu_balance := b\<rparr>\<lparr>cu_balance := b'\<rparr>)"
      "cents_of b' + refunded cid st'' = cents_of b + refunded cid st'"
      "refunded cid st' \<le> refunded cid st''" "cu_status c \<noteq> str ''active'' \<longrightarrow> b' = b"
    using assms(2) unfolding moves_money_def by fastforce
  show "\<exists>b. map_of (st_customers st'') cid = Some (c\<lparr>cu_balance := b\<rparr>) \<and>
      cents_of b + refunded cid st'' = cents_of (cu_balance c) + refunded cid st \<and>
      refunded cid st \<le> refunded cid st'' \<and> (cu_status c \<noteq> str ''active'' \<longrightarrow> b = cu_balance c)"
    using b b' by (intro exI [of _ b']) simp
qed (use assms in \<open>simp_all add: moves_money_def\<close>)

lemma issue_refund_money:
  assumes "whole_balances st" "whole_cents amount" "refund_id rs \<notin> fst ` set (st_refunds st)"
    and "issue_refund db rs cid amount reason st = (res, st')"
  shows "moves_money st st'"
proof (cases "\<exists>c. map_of (st_customers st) cid = Some c \<and> cu_status c = str ''active'' \<and> cents_of amount \<le> cents_of (cu_balance c)")
  case False
  then have "st' = st"
    using assms(4) unfolding issue_refund_cases [OF assms(1,2)]
    by (auto simp: Let_def split: option.splits if_splits)
  with assms(1) show ?thesis by (simp add: moves_money_refl)
next
  case True
  then obtain c where c: "map_of (st_customers st) cid = Some c" "cu_status c = str ''active''"
      "cents_of amount \<le> cents_of (cu_balance c)" by blast
  let ?left = "cents (cents_of (cu_balance c) - cents_of amount)"
  let ?r = "\<lparr>rf_id = refund_id rs, rf_customer = cid, rf_amount = amount, rf_reason = reason, rf_created = rs_time rs\<rparr>"
  have st': "st' = \<lparr>st_customers = AList.update cid (c\<lparr>cu_balance := ?left\<rparr>) (st_customers st),
      st_refunds = AList.update (rf_id ?r) ?r (st_refunds st)\<rparr>"
    using assms(4) c unfolding issue_refund_cases [OF assms(1,2)] by (simp add: Let_def)
  have left: "money_at (cents_of (cu_balance c) - cents_of amount) ?left"
    using balance_money [OF assms(1) c(1)] amount_money [OF assms(2)] c(3) by (auto simp: money_at_def)
  have sums: "refunded k st' = refunded k st + (if k = cid then cents_of amount else 0)" for k
    unfolding st' using assms(3) by (subst refunded_update) auto
  have "whole_balances st'"
    using assms(1) left money_at_cents_of [OF left] by (auto simp: whole_balances_def st')
  have cust: "map_of (st_customers st') k = (if k = cid then Some (c\<lparr>cu_balance := ?left\<rparr>) else map_of (st_customers st) k)" for k
    by (simp add: st')
  show ?thesis
    unfolding moves_money_def
  proof (intro conjI allI impI)
    show "whole_balances st'" by (rule \<open>whole_balances st'\<close>)
  next
    fix k d
    assume d: "map_of (st_customers st) k = Some d"
    let ?b = "if k = cid then ?left else cu_balance d"
    have "map_of (st_customers st') k = Some (d\<lparr>cu_balance := ?b\<rparr>)"
      using d c(1) by (auto simp: cust)
    moreover have "cents_of ?b + refunded k st' = cents_of (cu_balance d) + refunded k st"
      using d c(1) money_at_cents_of [OF left] by (auto simp: sums)
    ultimately show "\<exists>b. map_of (st_customers st') k = Some (d\<lparr>cu_balance := b\<rparr>) \<and>
        cents_of b + refunded k st' = cents_of (cu_balance d) + refunded k st \<and>
        refunded k st \<le> refunded k st' \<and> (cu_status d \<noteq> str ''active'' \<longrightarrow> b = cu_balance d)"
      using d c(1,2) amount_money [OF assms(2)] by (intro exI [of _ ?b]) (auto simp: sums)
  qed (use c(1) in \<open>auto simp: cust sums\<close>)
qed

lemma issue_refund_ids:
  "fst ` set (st_refunds (snd (issue_refund db rs cid amount reason st))) \<subseteq>
     insert (refund_id rs) (fst ` set (st_refunds st))"
  by (simp add: issue_refund_def Let_def dom_update subset_insertI split: option.split)

section \<open>Histories\<close>

definition call_id :: "refund_call \<Rightarrow> pystr" where
  "call_id c = refund_id (rc_stamp c)"

definition call_issue :: "unicode_db \<Rightarrow> refund_call \<Rightarrow> store \<Rightarrow> (domain_error + jobject) \<times> store" where
  "call_issue db c = issue_refund db (rc_stamp c) (ri_customer (rc_input c)) (ri_amount (rc_input c)) (ri_reason (rc_input c))"

lemma call_once_eq:
  "call_once lc db c sv =
     run_once lc (rc_io c) (rc_now c) (ri_customer (rc_input c)) (ri_amount (rc_input c)) (ri_reason (rc_input c))
       (ri_key (rc_input c)) (call_issue db c) (sv_rows sv, sv_store sv)"
  by (simp add: call_once_def call_issue_def Let_def)

lemma create_refund_server:
  "snd (create_refund lc db c sv) = \<lparr>sv_rows = fst (snd (call_once lc db c sv)), sv_store = snd (snd (call_once lc db c sv))\<rparr>"
  by (simp add: create_refund_def split: prod.split)

text \<open>The store after a call: as it was, or as one issue leaves it.\<close>

lemma call_once_store:
  "snd (snd (call_once lc db c sv)) = sv_store sv \<or>
   snd (snd (call_once lc db c sv)) = snd (call_issue db c (sv_store sv))"
proof -
  obtain res rows st where r: "call_once lc db c sv = (res, rows, st)" by (cases "call_once lc db c sv") auto
  from r [unfolded call_once_eq] show ?thesis
    by (cases rule: run_once_cases) (auto simp: r)
qed

lemma call_money:
  assumes "whole_balances (sv_store sv)" "whole_cents (ri_amount (rc_input c))"
    and "call_id c \<notin> fst ` set (st_refunds (sv_store sv))"
  shows "moves_money (sv_store sv) (sv_store (snd (create_refund lc db c sv)))"
  using call_once_store [of lc db c sv] assms
  by (auto simp: create_refund_server moves_money_refl call_id_def call_issue_def
      intro!: issue_refund_money [OF _ _ _ prod.collapse [symmetric]])

lemma call_ids:
  "fst ` set (st_refunds (sv_store (snd (create_refund lc db c sv)))) \<subseteq> insert (call_id c) (fst ` set (st_refunds (sv_store sv)))"
proof -
  have "fst ` set (st_refunds (snd (call_issue db c (sv_store sv)))) \<subseteq> insert (call_id c) (fst ` set (st_refunds (sv_store sv)))"
    unfolding call_issue_def call_id_def by (rule issue_refund_ids)
  with call_once_store [of lc db c sv] show ?thesis
    by (elim disjE) (simp_all add: create_refund_server subset_insertI)
qed

lemma run_calls_money:
  assumes "whole_balances (sv_store sv)" "\<forall>c \<in> set cs. whole_cents (ri_amount (rc_input c))"
    and "distinct (map call_id cs)" "\<forall>c \<in> set cs. call_id c \<notin> fst ` set (st_refunds (sv_store sv))"
  shows "moves_money (sv_store sv) (sv_store (run_calls lc db cs sv))"
  using assms
proof (induction cs arbitrary: sv)
  case (Cons c cs)
  let ?sv = "snd (create_refund lc db c sv)"
  have step: "moves_money (sv_store sv) (sv_store ?sv)"
    using Cons.prems by (intro call_money) auto
  moreover have "moves_money (sv_store ?sv) (sv_store (run_calls lc db cs ?sv))"
  proof (rule Cons.IH)
    show "whole_balances (sv_store ?sv)" using step by (simp add: moves_money_def)
    show "\<forall>d \<in> set cs. call_id d \<notin> fst ` set (st_refunds (sv_store ?sv))"
      using Cons.prems call_ids [of lc db c sv] by (fastforce simp: image_iff)
  qed (use Cons.prems in auto)
  ultimately show ?case
    unfolding run_calls.simps by (rule moves_money_trans)
qed (simp add: moves_money_refl)

lemma create_refund_rows:
  assumes "distinct_ops (sv_rows sv)"
  shows "distinct_ops (sv_rows (snd (create_refund lc db c sv)))"
    and "ledger_look (sv_rows sv) k = Some (r, t) \<Longrightarrow> fsub (rc_now c) (lc_window lc) < t \<Longrightarrow>
      ledger_look (sv_rows (snd (create_refund lc db c sv))) k = Some (r, t)"
proof -
  obtain res rows st where o: "call_once lc db c sv = (res, rows, st)" by (cases "call_once lc db c sv") auto
  show "distinct_ops (sv_rows (snd (create_refund lc db c sv)))"
    using run_once_ok [OF o [unfolded call_once_eq] assms] by (simp add: create_refund_server o)
  show "ledger_look (sv_rows (snd (create_refund lc db c sv))) k = Some (r, t)"
    if "ledger_look (sv_rows sv) k = Some (r, t)" "fsub (rc_now c) (lc_window lc) < t"
    using run_once_keeps [OF o [unfolded call_once_eq] assms that] by (simp add: create_refund_server o)
qed

lemma run_calls_rows:
  assumes "distinct_ops (sv_rows sv)" "\<forall>c \<in> set cs. fsub (rc_now c) (lc_window lc) < t"
    and "ledger_look (sv_rows sv) k = Some (r, t)"
  shows "distinct_ops (sv_rows (run_calls lc db cs sv)) \<and> ledger_look (sv_rows (run_calls lc db cs sv)) k = Some (r, t)"
  using assms
proof (induction cs arbitrary: sv)
  case (Cons c cs)
  have "distinct_ops (sv_rows (snd (create_refund lc db c sv)))"
      "ledger_look (sv_rows (snd (create_refund lc db c sv))) k = Some (r, t)"
    using create_refund_rows [OF Cons.prems(1)] Cons.prems(2,3) by auto
  then show ?case using Cons.IH Cons.prems(2) by simp
qed simp

section \<open>What is recorded\<close>

lemma fixed_whole: "money_at b x \<Longrightarrow> repr_ok float_repr x"
  by (auto simp: money_at_def intro: float_repr_reads fixed_range_cents)

lemma valid_refund_id: "valid_str (rs_hex rs) \<Longrightarrow> valid_str (refund_id rs)"
proof -
  assume v: "valid_str (rs_hex rs)"
  have "valid_cp (hex_upper c)" if "valid_cp c" for c
    using that by (auto simp: hex_upper_def valid_cp_def)
  then have "valid_str (map hex_upper (take 12 (rs_hex rs)))"
    using v by (auto simp: valid_str_def dest: in_set_takeD)
  then show ?thesis by (simp add: refund_id_def)
qed

lemma issued_payload_wf:
  assumes "valid_str (rs_hex rs)" "valid_str (rs_time rs)" "valid_str cid" "valid_str reason"
    and "money_at a amount" "money_at b left"
  shows "wf_json float_repr (JObj (issued_payload
    \<lparr>rf_id = refund_id rs, rf_customer = cid, rf_amount = amount, rf_reason = reason, rf_created = rs_time rs\<rparr> left))"
  using assms by (simp add: issued_payload_def valid_refund_id fixed_whole)

lemma call_issue_wf:
  assumes "whole_balances st" "valid_refund_input pd db (rc_input c)"
    and "valid_str (rs_hex (rc_stamp c))" "valid_str (rs_time (rc_stamp c))"
    and "call_issue db c st = (Inr payload, st')"
  shows "wf_json float_repr (JObj payload)" and "str ''replayed'' \<notin> fst ` set payload"
proof -
  let ?i = "rc_input c"
  have v: "whole_cents (ri_amount ?i)" "valid_str (ri_customer ?i)" "valid_str (ri_reason ?i)"
    using assms(2) by (auto simp: valid_refund_input_def)
  obtain d where d: "map_of (st_customers st) (ri_customer ?i) = Some d"
      "cents_of (ri_amount ?i) \<le> cents_of (cu_balance d)"
      "payload = issued_payload \<lparr>rf_id = refund_id (rc_stamp c), rf_customer = ri_customer ?i,
         rf_amount = ri_amount ?i, rf_reason = ri_reason ?i, rf_created = rs_time (rc_stamp c)\<rparr>
         (cents (cents_of (cu_balance d) - cents_of (ri_amount ?i)))"
    using assms(5) unfolding call_issue_def issue_refund_cases [OF assms(1) v(1)]
    by (auto simp: Let_def split: option.splits if_splits)
  have "money_at (cents_of (cu_balance d) - cents_of (ri_amount ?i)) (cents (cents_of (cu_balance d) - cents_of (ri_amount ?i)))"
    using balance_money [OF assms(1) d(1)] amount_money [OF v(1)] d(2) by (auto simp: money_at_def)
  then show "wf_json float_repr (JObj payload)"
    unfolding d(3) using assms(3,4) v amount_money [OF v(1)] by (intro issued_payload_wf) auto
  show "str ''replayed'' \<notin> fst ` set payload"
    by (simp add: d(3) issued_payload_def)
qed

lemma update_last: "k \<notin> fst ` set d \<Longrightarrow> AList.update k v (d @ [(k, w)]) = d @ [(k, v)]"
  by (induction d) auto

lemma create_refund_issued:
  assumes "distinct_ops (sv_rows sv)" "ledger_look (expire (fsub (rc_now c) (lc_window lc)) (sv_rows sv)) (call_key lc c) = None"
    and "io_lock (rc_io c)" "io_store (rc_io c)" "call_issue db c (sv_store sv) = (Inr payload, st)"
    and "str ''replayed'' \<notin> fst ` set payload"
  shows "\<exists>rows. create_refund lc db c sv = (Inr (payload @ [(str ''replayed'', JBool False)]), \<lparr>sv_rows = rows, sv_store = st\<rparr>) \<and>
    distinct_ops rows"
proof -
  obtain rows where o: "call_once lc db c sv = (Inr (JObj payload, False), rows, st)"
    using assms(2-5) by (auto simp: call_once_eq run_once_def Let_def call_key_def ledger_look_def)
  have "distinct_ops rows" using run_once_ok [OF o [unfolded call_once_eq] assms(1)] .
  with o assms(6) show ?thesis by (simp add: create_refund_def update_fresh)
qed

lemma create_refund_refused:
  assumes "ledger_look (expire (fsub (rc_now c) (lc_window lc)) (sv_rows sv)) (call_key lc c) = None"
    and "io_lock (rc_io c)" "call_issue db c (sv_store sv) = (Inl e, sv_store sv)"
  shows "create_refund lc db c sv = (Inl (Refused e), sv)"
  using assms by (simp add: create_refund_def call_once_eq run_once_def Let_def call_key_def ledger_look_def)

text \<open>A ledger that cannot store the row after the refund was issued: the money has moved.\<close>

lemma lost_record_moves_money:
  assumes "ledger_look (expire (fsub (rc_now c) (lc_window lc)) (sv_rows sv)) (call_key lc c) = None"
    and "io_lock (rc_io c)" "\<not> io_store (rc_io c)" "call_issue db c (sv_store sv) = (Inr payload, st)"
  shows "create_refund lc db c sv = (Inl StorageFailed, sv\<lparr>sv_store := st\<rparr>)"
  using assms by (simp add: create_refund_def call_once_eq run_once_def Let_def call_key_def ledger_look_def)

section \<open>A concrete history\<close>

text \<open>The seed, an injective stand-in for SHA-256, and two calls of the same refund.\<close>

lemma seed_mem: "map_of (st_customers empty_store) cid = Some c \<Longrightarrow> c \<in> set seed_rows"
proof -
  have seed: "seed = map (\<lambda>c. (cu_id c, c)) seed_rows"
    unfolding seed_def by (rule dict_of_distinct) (simp add: seed_rows_def)
  assume "map_of (st_customers empty_store) cid = Some c"
  from map_of_SomeD [OF this] show ?thesis
    by (auto simp: empty_store_def seed)
qed

lemma seed_whole: "whole_balances empty_store"
proof -
  have rows: "\<forall>c \<in> set seed_rows. money_at (cents_of (cu_balance c)) (cu_balance c)"
    by (simp add: seed_rows_def money_at_def cents_of_cents cents_bound_def del: cents_0)
  then show ?thesis
    using seed_mem unfolding whole_balances_def by blast
qed

definition demo_ledger :: ledger_config where
  "demo_ledger = \<lparr>lc_sha256 = (\<lambda>b. b), lc_window = DEFAULT_REPLAY_WINDOW_SECONDS\<rparr>"

definition demo_refund :: refund_input where
  "demo_refund = \<lparr>ri_customer = str ''CUST-00042'', ri_amount = cents 4999, ri_reason = str ''Duplicate charge'', ri_key = None\<rparr>"

definition demo_call :: "rat \<Rightarrow> string \<Rightarrow> refund_call" where
  "demo_call now hex =
     \<lparr>rc_input = demo_refund, rc_now = now, rc_stamp = \<lparr>rs_hex = str hex, rs_time = str ''2026-09-06T00:00:00+00:00''\<rparr>,
      rc_io = \<lparr>io_lock = True, io_store = True\<rparr>\<rparr>"

definition demo_server :: server where
  "demo_server = \<lparr>sv_rows = [], sv_store = empty_store\<rparr>"

lemma demo_refund_valid: "valid_refund_input demo_pydantic small_db demo_refund"
proof -
  have "10 \<le> visible_length small_db (str ''Duplicate charge'')" by code_simp
  moreover have "customer_id_matches demo_pydantic (str ''CUST-00042'')"
    by (simp add: customer_id_matches_def CUSTOMER_PREFIX_def demo_pydantic_def str_def is_digit_def)
  moreover have "whole_cents (cents 4999)"
    unfolding whole_cents_def by (intro exI [of _ 4999]) simp
  moreover have "length (str ''Duplicate charge'') \<le> 2000" by (simp add: str_def)
  ultimately show ?thesis
    by (simp add: valid_refund_input_def demo_refund_def schema_limits)
qed

lemma demo_simps [simp]:
  "rc_input (demo_call now hex) = demo_refund" "rc_now (demo_call now hex) = now"
  "call_id (demo_call now hex) = str ''RFND-'' @ map hex_upper (take 12 (str hex))"
  "sv_rows demo_server = []" "sv_store demo_server = empty_store"
  "io_lock (rc_io (demo_call now hex))" "io_store (rc_io (demo_call now hex))"
  "rs_hex (rc_stamp (demo_call now hex)) = str hex"
  "rs_time (rc_stamp (demo_call now hex)) = str ''2026-09-06T00:00:00+00:00''"
  "call_key lc (demo_call now hex) =
     operation_key lc (str ''CUST-00042'') (cents 4999) (str ''Duplicate charge'') None"
  by (simp_all add: demo_call_def call_id_def refund_id_def demo_server_def call_key_def demo_refund_def)

lemma demo_seed_row: "map_of (st_customers empty_store) (str ''CUST-00042'') = Some (hd seed_rows)"
  by (simp add: empty_store_def seed_def seed_rows_def map_of_dict_of)

lemma demo_window: "fsub 200 (lc_window demo_ledger) < 100" "fsub 100 (lc_window demo_ledger) < 100"
  by (simp_all add: demo_ledger_def) code_simp+

lemma demo_fresh: "ledger_look (expire h []) k = None"
  by (simp add: expire_def ledger_look_def find_row_def)

lemma distinct_ops_Nil: "distinct_ops []"
  by (simp add: distinct_ops_def)

definition demo_left :: rat where
  "demo_left = cents (32000 - 4999)"

definition demo_issued :: "string \<Rightarrow> refund" where
  "demo_issued hex =
     \<lparr>rf_id = str ''RFND-'' @ map hex_upper (take 12 (str hex)), rf_customer = str ''CUST-00042'', rf_amount = cents 4999,
      rf_reason = str ''Duplicate charge'', rf_created = str ''2026-09-06T00:00:00+00:00''\<rparr>"

lemma demo_issue:
  "\<exists>st. call_issue small_db (demo_call now hex) empty_store = (Inr (issued_payload (demo_issued hex) demo_left), st) \<and>
     st_refunds st \<noteq> []"
proof -
  have w: "whole_cents (cents 4999)"
    unfolding whole_cents_def by (intro exI [of _ 4999]) simp
  have "cu_status (hd seed_rows) = str ''active''" "cents_of (cu_balance (hd seed_rows)) = 32000" "cents_of (cents 4999) = 4999"
    by (simp_all add: seed_rows_def cents_of_cents cents_bound_def)
  then show ?thesis
    using issue_refund_cases [OF seed_whole w, of small_db "rc_stamp (demo_call now hex)" "str ''CUST-00042''" "str ''Duplicate charge''"]
    by (simp add: call_issue_def demo_refund_def demo_seed_row Let_def demo_left_def demo_issued_def demo_call_def refund_id_def
        update_nonempty)
qed

lemma demo_first:
  "\<exists>sv1. create_refund demo_ledger small_db (demo_call 100 ''a'') demo_server =
     (Inr (issued_payload (demo_issued ''a'') demo_left @ [(str ''replayed'', JBool False)]), sv1) \<and>
     st_refunds (sv_store sv1) \<noteq> []"
proof -
  obtain st where "call_issue small_db (demo_call 100 ''a'') empty_store = (Inr (issued_payload (demo_issued ''a'') demo_left), st)"
      "st_refunds st \<noteq> []"
    using demo_issue by blast
  then show ?thesis
    using create_refund_issued [of demo_server "demo_call 100 ''a''" demo_ledger small_db "issued_payload (demo_issued ''a'') demo_left" st]
    by (auto simp: distinct_ops_Nil demo_fresh issued_payload_def)
qed

section \<open>Properties\<close>

text \<open>
  C19. Conservation: through every history of refund calls (answered, refused, replayed, or cut
  off by a failing ledger), a customer's balance stays a whole number of cents that is never
  negative, balance and refunds add up to what they were, refunds are never taken back, and
  nothing else of the customer's row changes; an account that is not active keeps its balance.
\<close>

theorem refunds_conserve_money:
  assumes "whole_balances (sv_store sv)" "\<forall>c \<in> set cs. valid_refund_input pd db (rc_input c)"
    and "distinct (map call_id cs)" "\<forall>c \<in> set cs. call_id c \<notin> fst ` set (st_refunds (sv_store sv))"
    and "map_of (st_customers (sv_store sv)) cid = Some cu"
  shows "\<exists>b. map_of (st_customers (sv_store (run_calls lc db cs sv))) cid = Some (cu\<lparr>cu_balance := cents b\<rparr>) \<and>
    0 \<le> b \<and> b + refunded cid (sv_store (run_calls lc db cs sv)) = cents_of (cu_balance cu) + refunded cid (sv_store sv) \<and>
    refunded cid (sv_store sv) \<le> refunded cid (sv_store (run_calls lc db cs sv)) \<and>
    (cu_status cu \<noteq> str ''active'' \<longrightarrow> cents b = cu_balance cu)"
proof -
  let ?st = "sv_store (run_calls lc db cs sv)"
  have "\<forall>c \<in> set cs. whole_cents (ri_amount (rc_input c))"
    using assms(2) by (auto simp: valid_refund_input_def)
  then have moves: "moves_money (sv_store sv) ?st"
    by (rule run_calls_money [OF assms(1) _ assms(3,4)])
  then obtain x where x: "map_of (st_customers ?st) cid = Some (cu\<lparr>cu_balance := x\<rparr>)"
      "cents_of x + refunded cid ?st = cents_of (cu_balance cu) + refunded cid (sv_store sv)"
      "refunded cid (sv_store sv) \<le> refunded cid ?st" "cu_status cu \<noteq> str ''active'' \<longrightarrow> x = cu_balance cu"
    using assms(5) unfolding moves_money_def by blast
  have "money_at (cents_of x) x"
    using moves x(1) balance_money [of ?st cid] by (fastforce simp: moves_money_def)
  with x show ?thesis
    by (intro exI [of _ "cents_of x"]) (auto simp: money_at_def)
qed

theorem refunds_conserve_money_witness:
  "\<exists>b. map_of (st_customers (sv_store (run_calls demo_ledger small_db [demo_call 100 ''a'', demo_call 200 ''b''] demo_server)))
      (str ''CUST-00042'') = Some (hd seed_rows\<lparr>cu_balance := cents b\<rparr>) \<and>
    0 \<le> b \<and> b + refunded (str ''CUST-00042'') (sv_store (run_calls demo_ledger small_db [demo_call 100 ''a'', demo_call 200 ''b''] demo_server)) = 32000"
proof -
  have "distinct (map call_id [demo_call 100 ''a'', demo_call 200 ''b''])"
    by (simp add: str_def hex_upper_def)
  moreover have "cents_of (cu_balance (hd seed_rows)) + refunded (str ''CUST-00042'') empty_store = 32000"
    by (simp add: seed_rows_def cents_of_cents cents_bound_def refunded_def empty_store_def)
  ultimately show ?thesis
    using refunds_conserve_money [of demo_server "[demo_call 100 ''a'', demo_call 200 ''b'']" demo_pydantic small_db
        "str ''CUST-00042''" "hd seed_rows" demo_ledger]
    by (auto simp: seed_whole demo_refund_valid demo_seed_row empty_store_def [THEN arg_cong [of _ _ st_refunds]])
qed

text \<open>
  C20. At most once: after a refund has been issued, whatever calls follow, a call with the same
  operation key within the replay window of the first returns the first answer, every refund
  field of it, marked as replayed, and moves no money.
\<close>

theorem refund_at_most_once:
  assumes first: "create_refund lc db c sv = (Inr answer, sv1)" "map_of answer (str ''replayed'') = Some (JBool False)"
    and "distinct_ops (sv_rows sv)" "whole_balances (sv_store sv)" "valid_refund_input pd db (rc_input c)"
    and "valid_str (rs_hex (rc_stamp c))" "valid_str (rs_time (rc_stamp c))"
    and between: "\<forall>d \<in> set cs. fsub (rc_now d) (lc_window lc) < rc_now c"
    and again: "call_key lc c' = call_key lc c" "fsub (rc_now c') (lc_window lc) < rc_now c"
      "io_lock (rc_io c')" "io_store (rc_io c')"
  shows "fst (create_refund lc db c' (run_calls lc db cs sv1)) =
      Inr (AList.update (str ''replayed'') (JBool True) answer) \<and>
    sv_store (snd (create_refund lc db c' (run_calls lc db cs sv1))) = sv_store (run_calls lc db cs sv1)"
proof -
  obtain res rows st where o: "call_once lc db c sv = (res, rows, st)" by (cases "call_once lc db c sv") auto
  then obtain payload repl where res: "res = Inr (JObj payload, repl)"
      "answer = AList.update (str ''replayed'') (JBool repl) payload" "sv1 = \<lparr>sv_rows = rows, sv_store = st\<rparr>"
    using first(1) by (auto simp: create_refund_def split: sum.splits prod.splits json.splits)
  then have "\<not> repl" using first(2) by simp
  from o [unfolded call_once_eq] show ?thesis
  proof (cases rule: run_once_cases)
    case (issued p)
    then have p: "p = payload" "call_issue db c (sv_store sv) = (Inr payload, st)" using res by auto
    note wf = call_issue_wf [OF assms(4-7) p(2)]
    have row: "ledger_look rows (call_key lc c) = Some (response_text payload, rc_now c)"
      using issued p(1) by (simp add: ops.look_put call_key_def)
    have "distinct_ops rows" using run_once_ok [OF o [unfolded call_once_eq] assms(3)] .
    with row between have kept: "distinct_ops (sv_rows (run_calls lc db cs sv1))"
        "ledger_look (sv_rows (run_calls lc db cs sv1)) (call_key lc c') = Some (response_text payload, rc_now c)"
      using run_calls_rows [of sv1 cs lc "rc_now c" "call_key lc c" "response_text payload" db] again(1) res(3) by simp_all
    have "call_once lc db c' (run_calls lc db cs sv1) =
        (Inr (JObj payload, True), expire (fsub (rc_now c') (lc_window lc)) (sv_rows (run_calls lc db cs sv1)),
         sv_store (run_calls lc db cs sv1))"
      unfolding call_once_eq using kept(2) [unfolded call_key_def]
      by (rule run_once_replays [OF kept(1) _ again(2) response_reads_back [OF wf(1)] again(3,4)])
    moreover have "AList.update (str ''replayed'') (JBool True) answer = AList.update (str ''replayed'') (JBool True) payload"
      using wf(2) res(2) by (simp add: update_fresh update_last)
    ultimately show ?thesis by (simp add: create_refund_def)
  qed (use res \<open>\<not> repl\<close> in auto)
qed

theorem refund_at_most_once_witness:
  "\<exists>sv1. map_of (projr (fst (create_refund demo_ledger small_db (demo_call 200 ''b'') sv1))) (str ''replayed'') = Some (JBool True) \<and>
     sv_store (snd (create_refund demo_ledger small_db (demo_call 200 ''b'') sv1)) = sv_store sv1 \<and>
     sv1 = snd (create_refund demo_ledger small_db (demo_call 100 ''a'') demo_server)"
proof -
  obtain sv1 where first: "create_refund demo_ledger small_db (demo_call 100 ''a'') demo_server =
      (Inr (issued_payload (demo_issued ''a'') demo_left @ [(str ''replayed'', JBool False)]), sv1)"
    using demo_first by blast
  have "map_of (issued_payload (demo_issued ''a'') demo_left @ [(str ''replayed'', JBool False)]) (str ''replayed'') = Some (JBool False)"
    by (simp add: issued_payload_def)
  from refund_at_most_once [OF first this, of demo_pydantic "[]" "demo_call 200 ''b''"] first show ?thesis
    by (simp add: distinct_ops_Nil seed_whole demo_refund_valid demo_window)
qed



text \<open>
  C21. A refund that is no replay is decided by the account: unknown customer, account not
  active, amount over the balance (each a refusal that records nothing and changes nothing), or
  issued, with the exact remaining balance; the answer then names the refund that was stored.
\<close>

theorem refund_decision:
  assumes "whole_balances (sv_store sv)" "distinct_ops (sv_rows sv)" "valid_refund_input pd db (rc_input c)"
    and "ledger_look (expire (fsub (rc_now c) (lc_window lc)) (sv_rows sv)) (call_key lc c) = None"
    and "io_lock (rc_io c)" "io_store (rc_io c)"
  defines "i \<equiv> rc_input c"
  shows "case map_of (st_customers (sv_store sv)) (ri_customer i) of
      None \<Rightarrow> create_refund lc db c sv = (Inl (Refused (customer_not_found (ri_customer i))), sv)
    | Some cu \<Rightarrow>
        if cu_status cu \<noteq> str ''active''
        then create_refund lc db c sv = (Inl (Refused (account_not_active db (ri_customer i) (cu_status cu))), sv)
        else if cents_of (cu_balance cu) < cents_of (ri_amount i)
        then create_refund lc db c sv = (Inl (Refused (insufficient_balance (ri_customer i) (ri_amount i) (cu_balance cu))), sv)
        else
          (let left = cents (cents_of (cu_balance cu) - cents_of (ri_amount i));
               r = \<lparr>rf_id = call_id c, rf_customer = ri_customer i, rf_amount = ri_amount i,
                    rf_reason = ri_reason i, rf_created = rs_time (rc_stamp c)\<rparr>
           in \<exists>rows. create_refund lc db c sv =
                (Inr (issued_payload r left @ [(str ''replayed'', JBool False)]),
                 \<lparr>sv_rows = rows,
                  sv_store = \<lparr>st_customers = AList.update (ri_customer i) (cu\<lparr>cu_balance := left\<rparr>) (st_customers (sv_store sv)),
                              st_refunds = AList.update (call_id c) r (st_refunds (sv_store sv))\<rparr>\<rparr>))"
proof -
  have v: "whole_cents (ri_amount i)" using assms(3) by (simp add: valid_refund_input_def i_def)
  note issue = issue_refund_cases [OF assms(1) v, of db "rc_stamp c" "ri_customer i" "ri_reason i"]
  show ?thesis
  proof (cases "map_of (st_customers (sv_store sv)) (ri_customer i)")
    case None
    then show ?thesis
      using create_refund_refused [OF assms(4,5)] issue by (simp add: call_issue_def i_def)
  next
    case (Some cu)
    consider "cu_status cu \<noteq> str ''active''"
      | "cu_status cu = str ''active''" "cents_of (cu_balance cu) < cents_of (ri_amount i)"
      | "cu_status cu = str ''active''" "\<not> cents_of (cu_balance cu) < cents_of (ri_amount i)" by blast
    then show ?thesis
    proof cases
      case 3
      let ?left = "cents (cents_of (cu_balance cu) - cents_of (ri_amount i))"
      let ?r = "\<lparr>rf_id = call_id c, rf_customer = ri_customer i, rf_amount = ri_amount i,
          rf_reason = ri_reason i, rf_created = rs_time (rc_stamp c)\<rparr>"
      have "call_issue db c (sv_store sv) = (Inr (issued_payload ?r ?left),
          \<lparr>st_customers = AList.update (ri_customer i) (cu\<lparr>cu_balance := ?left\<rparr>) (st_customers (sv_store sv)),
           st_refunds = AList.update (call_id c) ?r (st_refunds (sv_store sv))\<rparr>)"
        using Some 3 issue by (simp add: call_issue_def i_def call_id_def Let_def)
      from create_refund_issued [OF assms(2,4-6) this] Some 3 show ?thesis
        by (auto simp: Let_def issued_payload_def)
    qed (use Some create_refund_refused [OF assms(4,5)] issue in \<open>simp_all add: call_issue_def i_def\<close>)
  qed
qed

theorem refund_decision_witness:
  "fst (create_refund demo_ledger small_db (demo_call 100 ''a'') demo_server) =
     Inr (issued_payload (demo_issued ''a'') demo_left @ [(str ''replayed'', JBool False)])"
proof -
  have "cu_status (hd seed_rows) = str ''active''" "cents_of (cu_balance (hd seed_rows)) = 32000" "cents_of (cents 4999) = 4999"
    by (simp_all add: seed_rows_def cents_of_cents cents_bound_def)
  with refund_decision [of demo_server demo_pydantic small_db "demo_call 100 ''a''" demo_ledger] show ?thesis
    using demo_refund_valid [unfolded demo_refund_def]
    by (auto simp: seed_whole distinct_ops_Nil demo_fresh demo_seed_row demo_refund_def Let_def
        demo_issued_def demo_left_def)
qed

end
