(* ===== verification/Srv_Dispatch.thy ===== *)
theory Srv_Dispatch
  imports Srv_Store Gw_Jsonrpc
begin

text \<open>
  \<open>customer_mcp/errors.py\<close> and \<open>customer_mcp/server.py\<close>: the two tools, the listing,
  and \<open>handle_call_tool\<close>, which puts every outcome on one of two channels, a JSON-RPC error
  or a result. The schema pydantic generates for a model is a parameter, and so are the clock,
  the uuid and the state of the ledger's storage (\<open>call_env\<close>). \<open>dumps_indent\<close> is
  \<open>json.dumps(v, indent=2)\<close>.
\<close>

section \<open>\<open>json.dumps\<close> with an indent\<close>

definition newline_indent :: "nat \<Rightarrow> pystr" where
  "newline_indent n = 10 # replicate (2 * n) 32"

primrec dumps_indent :: "(rat \<Rightarrow> pystr) \<Rightarrow> json \<Rightarrow> nat \<Rightarrow> pystr" where
  "dumps_indent fr JNull = (\<lambda>n. str ''null'')"
| "dumps_indent fr (JBool b) = (\<lambda>n. if b then str ''true'' else str ''false'')"
| "dumps_indent fr (JInt i) = (\<lambda>n. int_digits i)"
| "dumps_indent fr (JFloat f) = (\<lambda>n. float_text fr f)"
| "dumps_indent fr (JStr s) = (\<lambda>n. quote s)"
| "dumps_indent fr (JArr xs) =
     (\<lambda>n. if xs = [] then [91, 93]
          else 91 # newline_indent (Suc n) @
            py_join (44 # newline_indent (Suc n)) (map (\<lambda>f. f (Suc n)) (map (dumps_indent fr) xs)) @
            newline_indent n @ [93])"
| "dumps_indent fr (JObj kvs) =
     (\<lambda>n. if kvs = [] then [123, 125]
          else 123 # newline_indent (Suc n) @
            py_join (44 # newline_indent (Suc n))
              (map (\<lambda>(k, f). quote k @ [58, 32] @ f (Suc n)) (map (map_prod id (dumps_indent fr)) kvs)) @
            newline_indent n @ [125])"

section \<open>Replies\<close>

datatype call_reply =
    ToolResult pystr json bool       \<comment> \<open>text, structured content, \<open>isError\<close>\<close>
  | ToolError int pystr json         \<comment> \<open>\<open>MCPError\<close>: code, message, data\<close>

definition text_result :: "jobject \<Rightarrow> bool \<Rightarrow> call_reply" where
  "text_result payload is_error = ToolResult (dumps_indent float_repr (JObj payload) 0) (JObj payload) is_error"

definition issue_entry :: "pydantic \<Rightarrow> pystr \<times> issue_kind \<Rightarrow> jobject" where
  "issue_entry pd = (\<lambda>(field, k).
     [(str ''field'', JStr (if field = [] then str ''(root)'' else field)),
      (str ''error'', JStr (pd_msg pd k)), (str ''type'', JStr (pd_type pd k))])"

definition issue_summary :: "pydantic \<Rightarrow> (pystr \<times> issue_kind) list \<Rightarrow> pystr" where
  "issue_summary pd issues =
     py_join (str ''; '')
       (map (\<lambda>(field, k). (if field = [] then str ''(root)'' else field) @ str '': '' @ pd_msg pd k) issues)"

definition invalid_params :: "unicode_db \<Rightarrow> pydantic \<Rightarrow> pystr \<Rightarrow> (pystr \<times> issue_kind) list \<Rightarrow> call_reply" where
  "invalid_params db pd tool issues =
     ToolError INVALID_PARAMS
       (str ''Invalid arguments for tool '' @ py_repr db tool @ str '': '' @ issue_summary pd issues)
       (JObj [(str ''tool'', JStr tool), (str ''issues'', JArr (map (JObj \<circ> issue_entry pd) issues))])"

definition unknown_tool :: "pystr list \<Rightarrow> call_reply" where
  "unknown_tool known =
     ToolError METHOD_NOT_FOUND (str ''Unknown tool.'')
       (JObj [(str ''available_tools'', JArr (map JStr (sort known)))])"

definition internal_error :: "unicode_db \<Rightarrow> pystr \<Rightarrow> call_reply" where
  "internal_error db tool =
     ToolError INTERNAL_ERROR (str ''Internal error while executing tool '' @ py_repr db tool @ [46])
       (JObj [(str ''tool'', JStr tool)])"

section \<open>The tools\<close>

datatype input_model = CustomerInput | RefundInput

record tool_spec =
  ts_name :: pystr
  ts_title :: pystr
  ts_description :: pystr
  ts_model :: input_model
  ts_read_only :: bool
  ts_destructive :: bool

definition get_customer_record :: tool_spec where
  "get_customer_record =
     \<lparr>ts_name = str ''get_customer_record'', ts_title = str ''Get customer record'',
      ts_description =
        str ''Fetch the billing record for a single customer: name, email, account '' @
        str ''status, lifetime spend and remaining refundable balance. Read-only.'',
      ts_model = CustomerInput, ts_read_only = True, ts_destructive = False\<rparr>"

definition trigger_refund :: tool_spec where
  "trigger_refund =
     \<lparr>ts_name = str ''trigger_refund'', ts_title = str ''Trigger a refund'',
      ts_description =
        str ''Issue a refund against a customer's refundable balance. Fails if the '' @
        str ''customer does not exist, the account is not active, or the amount '' @
        str ''exceeds the remaining refundable balance. This moves money - confirm '' @
        str ''the amount with the user before calling it.'',
      ts_model = RefundInput, ts_read_only = False, ts_destructive = True\<rparr>"

definition TOOLS :: "(pystr \<times> tool_spec) list" where
  "TOOLS = [(str ''get_customer_record'', get_customer_record), (str ''trigger_refund'', trigger_refund)]"

text \<open>\<open>tools/list\<close>: one entry per tool, with the schema of its model.\<close>

definition list_entry :: "(input_model \<Rightarrow> json) \<Rightarrow> tool_spec \<Rightarrow> jobject" where
  "list_entry schema spec =
     [(str ''name'', JStr (ts_name spec)), (str ''title'', JStr (ts_title spec)),
      (str ''description'', JStr (ts_description spec)), (str ''inputSchema'', schema (ts_model spec)),
      (str ''annotations'', JObj
        [(str ''title'', JStr (ts_title spec)), (str ''readOnlyHint'', JBool (ts_read_only spec)),
         (str ''destructiveHint'', JBool (ts_destructive spec)),
         (str ''idempotentHint'', JBool (ts_read_only spec)), (str ''openWorldHint'', JBool False)])]"

definition handle_list_tools :: "(input_model \<Rightarrow> json) \<Rightarrow> jobject list" where
  "handle_list_tools schema = map (list_entry schema \<circ> snd) TOOLS"

section \<open>A call\<close>

record call_env =
  ce_now :: rat
  ce_stamp :: refund_stamp
  ce_io :: ledger_io

definition refund_call_of :: "call_env \<Rightarrow> refund_input \<Rightarrow> refund_call" where
  "refund_call_of ce i = \<lparr>rc_input = i, rc_now = ce_now ce, rc_stamp = ce_stamp ce, rc_io = ce_io ce\<rparr>"

text \<open>A refusal as a result: \<open>{"error": ..., "message": ..., **details}\<close>.\<close>

definition refusal_payload :: "domain_error \<Rightarrow> jobject" where
  "refusal_payload e =
     dict_merge [(str ''error'', JStr (de_code e)), (str ''message'', JStr (de_message e))] (de_details e)"

definition customer_call :: "unicode_db \<Rightarrow> pydantic \<Rightarrow> jobject \<Rightarrow> server \<Rightarrow> call_reply" where
  "customer_call db pd args sv =
     (case validate_customer pd args of
        Inl issues \<Rightarrow> invalid_params db pd (ts_name get_customer_record) issues
      | Inr cid \<Rightarrow>
          (case get_customer cid (sv_store sv) of
             Inl e \<Rightarrow> text_result (refusal_payload e) True
           | Inr payload \<Rightarrow> text_result payload False))"

definition refund_call_reply ::
  "ledger_config \<Rightarrow> unicode_db \<Rightarrow> pydantic \<Rightarrow> call_env \<Rightarrow> jobject \<Rightarrow> server \<Rightarrow> call_reply \<times> server"
where
  "refund_call_reply lc db pd ce args sv =
     (case validate_refund pd db args of
        Inl issues \<Rightarrow> (invalid_params db pd (ts_name trigger_refund) issues, sv)
      | Inr i \<Rightarrow>
          (let (res, sv') = create_refund lc db (refund_call_of ce i) sv
           in (case res of
                 Inl (Refused e) \<Rightarrow> text_result (refusal_payload e) True
               | Inl _ \<Rightarrow> internal_error db (ts_name trigger_refund)
               | Inr payload \<Rightarrow> text_result payload False,
               sv')))"

definition handle_call_tool ::
  "ledger_config \<Rightarrow> unicode_db \<Rightarrow> pydantic \<Rightarrow> call_env \<Rightarrow> pystr \<Rightarrow> jobject option \<Rightarrow> server \<Rightarrow> call_reply \<times> server"
where
  "handle_call_tool lc db pd ce name arguments sv =
     (case map_of TOOLS name of
        None \<Rightarrow> (unknown_tool (map fst TOOLS), sv)
      | Some spec \<Rightarrow>
          (let args = (case arguments of None \<Rightarrow> [] | Some d \<Rightarrow> d)
           in (case ts_model spec of
                 CustomerInput \<Rightarrow> (customer_call db pd args sv, sv)
               | RefundInput \<Rightarrow> refund_call_reply lc db pd ce args sv)))"

section \<open>The text of a result\<close>

definition flat :: "jobject \<Rightarrow> bool" where
  "flat kvs \<longleftrightarrow> (\<forall>(k, v) \<in> set kvs. \<not> is_dict v \<and> \<not> is_list v)"

lemma dumps_indent_scalar: "\<not> is_dict v \<Longrightarrow> \<not> is_list v \<Longrightarrow> dumps_indent fr v n = dumps_with True isep ksep fr v"
  by (cases v) simp_all

lemma separators:
  "separator 44 (44 # newline_indent n)" "separator 58 [58, 32]" "\<forall>x \<in> set (newline_indent n). json_ws x"
  by (auto simp: separator_def newline_indent_def json_ws_def)

text \<open>The indented text of an object of scalars reads back as the object.\<close>

lemma loads_indent:
  assumes "wf_json fr (JObj kvs)" "flat kvs"
  shows "json_loads (dumps_indent fr (JObj kvs) 0) = Inr (JObj kvs)"
proof (cases "kvs = []")
  case True
  show ?thesis by (simp add: True) code_simp
next
  case False
  let ?h = "\<lambda>ps. Inr (dict_of ps)"
  let ?i = "44 # newline_indent 1"
  define ms where "ms = py_join ?i (map (member_text True fr ?i [58, 32]) kvs)"
  have reads: "\<forall>p \<in> set kvs. valid_str (fst p) \<and> wf_json fr (snd p) \<and> reads_back True fr ?i [58, 32] ?h (snd p)"
    using assms(1) by (auto intro!: reads_back_all separators simp: dict_of_distinct)
  have parts: "map (\<lambda>(k, f). quote k @ [58, 32] @ f (Suc 0)) (map (map_prod id (dumps_indent fr)) kvs)
      = map (member_text True fr ?i [58, 32]) kvs"
    using assms(2) by (auto simp: flat_def dumps_indent_scalar)
  then have printed: "dumps_indent fr (JObj kvs) 0 = 123 # newline_indent 1 @ ms @ newline_indent 0 @ [125]"
    using False by (simp only: dumps_indent.simps parts if_False One_nat_def ms_def)
  obtain t where t: "ms = 34 # t"
    using False by (cases kvs; cases "tl kvs") (auto simp: quote_with_def ms_def)
  have skip: "skip_ws (newline_indent 1 @ ms @ newline_indent 0 @ [125]) = ms @ newline_indent 0 @ [125]"
    using separators(3) [of 1] by (simp add: skip_ws_append t json_ws_def [of 34])
  obtain m where m: "2 * length (dumps_indent fr (JObj kvs) 0) + 2 = Suc m" "2 * length (ms @ newline_indent 0 @ [125]) < m"
    by (simp add: printed del: dumps_indent.simps)
  have "parse_members m ?h (ms @ newline_indent 0 @ 125 # []) = Inr (kvs, [])"
    unfolding ms_def by (rule parse_members_dumps [OF separators(1,2,3) False reads]) (use m in \<open>simp add: ms_def\<close>)
  moreover have "dict_of kvs = kvs" using assms(1) by (simp add: dict_of_distinct)
  ultimately have "parse_value (Suc m) ?h (dumps_indent fr (JObj kvs) 0) = Inr (JObj kvs, [])"
    using skip t by (simp add: printed t del: dumps_indent.simps)
  then show ?thesis
    unfolding json_loads_def json_loads_with_def m(1)
    by (simp add: printed json_ws_def [of 123] del: parse_value.simps dumps_indent.simps)
qed

lemma text_result_reads_back:
  "wf_json float_repr (JObj payload) \<Longrightarrow> flat payload \<Longrightarrow> text_result payload e = ToolResult t v b \<Longrightarrow> json_loads t = Inr v"
  by (auto simp: text_result_def loads_indent simp del: dumps_indent.simps)

section \<open>What a call can do\<close>

lemma TOOLS_simps:
  "map_of TOOLS name = None \<longleftrightarrow> name \<noteq> str ''get_customer_record'' \<and> name \<noteq> str ''trigger_refund''"
  "map_of TOOLS (str ''get_customer_record'') = Some get_customer_record"
  "map_of TOOLS (str ''trigger_refund'') = Some trigger_refund"
  by (auto simp: TOOLS_def)

lemma TOOLS_cases: "map_of TOOLS name = None \<or> name = str ''get_customer_record'' \<or> name = str ''trigger_refund''"
  unfolding TOOLS_simps(1) by argo

lemma issue_refund_refused: "issue_refund db rs cid amount reason st = (Inl e, st') \<Longrightarrow> st' = st"
  by (auto simp: issue_refund_def Let_def split: option.splits if_splits)

text \<open>The results of the refund operation, by what they leave behind.\<close>

lemma create_refund_cases:
  assumes "create_refund lc db c sv = (res, sv')"
  obtains (refused) e where "res = Inl (Refused e)" "sv' = sv" "fst (call_issue db c (sv_store sv)) = Inl e"
    | (failed) e where "res = Inl e" "e = StorageFailed \<or> e = RecordUnreadable" "sv_store sv' = sv_store sv"
    | (lost) payload where "res = Inl StorageFailed" "\<not> io_store (rc_io c)" "sv_rows sv' = sv_rows sv"
        "call_issue db c (sv_store sv) = (Inr payload, sv_store sv')"
    | (replayed) payload where "res = Inr (AList.update (str ''replayed'') (JBool True) payload)" "sv_store sv' = sv_store sv"
    | (issued) payload where "res = Inr (AList.update (str ''replayed'') (JBool False) payload)"
        "call_issue db c (sv_store sv) = (Inr payload, sv_store sv')"
proof -
  obtain r rows st where o: "call_once lc db c sv = (r, rows, st)" by (cases "call_once lc db c sv") auto
  then have eq: "res = (case r of Inl e \<Rightarrow> Inl e
          | Inr (JObj payload, replayed) \<Rightarrow> Inr (AList.update (str ''replayed'') (JBool replayed) payload)
          | Inr (v, replayed) \<Rightarrow> Inl RecordUnreadable)" "sv' = \<lparr>sv_rows = rows, sv_store = st\<rparr>"
    using assms by (auto simp: create_refund_def)
  from o [unfolded call_once_eq] show ?thesis
  proof (cases rule: run_once_cases)
    case lock
    then show ?thesis by (intro that(2)) (auto simp: eq)
  next
    case (replay stored t v)
    then show ?thesis using that(2) [of RecordUnreadable] that(4) by (cases v) (auto simp: eq)
  next
    case replay_failed
    then show ?thesis by (auto intro!: that(2) simp: eq)
  next
    case (refused e)
    then have "st = sv_store sv" by (auto simp: call_issue_def dest: issue_refund_refused)
    with refused show ?thesis by (intro that(1) [of e]) (auto simp: eq)
  next
    case (issued payload)
    then show ?thesis by (intro that(5) [of payload]) (auto simp: eq)
  next
    case (lost payload)
    then show ?thesis by (intro that(3) [of payload]) (auto simp: eq)
  qed
qed

lemma demo_validates: "validate_refund demo_pydantic small_db demo_args = Inr demo_refund"
proof -
  have "10 \<le> visible_length small_db (str ''Duplicate charge'')" by code_simp
  moreover have "py_strip (str '' Duplicate charge'') = str ''Duplicate charge''"
    by (simp add: py_strip_def strip_by_def str_def py_isspace_def)
  moreover have "length (str '' Duplicate charge'') \<le> 2000" by (simp add: str_def)
  ultimately have reason: "reason_field small_db (JStr (str '' Duplicate charge'')) = Inr (str ''Duplicate charge'')"
    by (simp add: reason_field_Inr schema_limits)
  have "pd_float demo_pydantic (JFloat (Fin (cents 4999))) = Some (Fin (cents 4999))"
    by (simp add: demo_pydantic_def cents_def)
  then have amount: "amount_field demo_pydantic (JFloat (Fin (cents 4999))) = Inr (cents 4999)"
    using demo_refund_valid
    by (simp add: amount_field_Inr [OF demo_pydantic_ok] json_number_def valid_refund_input_def demo_refund_def)
  have "customer_id_field demo_pydantic (JStr (str ''CUST-00042'')) = Inr (str ''CUST-00042'')"
    using demo_refund_valid by (simp add: customer_id_field_Inr valid_refund_input_def demo_refund_def)
  with reason amount show ?thesis
    unfolding validate_refund_Inr
    by (simp add: demo_args_def demo_refund_def REFUND_FIELDS_def required_def optional_def)
qed

definition demo_env :: call_env where
  "demo_env = \<lparr>ce_now = 100, ce_stamp = \<lparr>rs_hex = str ''a'', rs_time = str ''2026-09-06T00:00:00+00:00''\<rparr>,
     ce_io = \<lparr>io_lock = True, io_store = True\<rparr>\<rparr>"

lemma demo_env_call: "refund_call_of demo_env demo_refund = demo_call 100 ''a''"
  by (simp add: refund_call_of_def demo_env_def demo_call_def)

definition readable_store :: "store \<Rightarrow> bool" where
  "readable_store st \<longleftrightarrow>
     (\<forall>cid c. map_of (st_customers st) cid = Some c \<longrightarrow>
        valid_str (cu_id c) \<and> valid_str (cu_name c) \<and> valid_str (cu_email c) \<and> valid_str (cu_status c) \<and>
        valid_str (cu_signed_up c) \<and> (\<exists>a b. money_at a (cu_spend c) \<and> money_at b (cu_balance c)))"

lemma round_money: "money_at a x \<Longrightarrow> repr_ok float_repr (py_round2 x)"
  using py_round2_cents [of a] fixed_whole [of a x] by (auto simp: money_at_def)

text \<open>The replies of a refund call whose arguments are already named, by what the store did.\<close>

lemma refund_call_channels:
  assumes "refund_call_reply lc db pd ce args sv = (reply, sv')"
  shows "case reply of
      ToolError code msg data \<Rightarrow>
        code = INVALID_PARAMS \<and> sv' = sv \<and> isl (validate_refund pd db args) \<or>
        code = INTERNAL_ERROR \<and>
          (\<exists>i. validate_refund pd db args = Inr i \<and>
             fst (create_refund lc db (refund_call_of ce i) sv) \<in> {Inl StorageFailed, Inl RecordUnreadable})
    | ToolResult t v True \<Rightarrow> sv' = sv \<and>
        (\<exists>e. v = JObj (refusal_payload e) \<and>
           (\<exists>i. validate_refund pd db args = Inr i \<and>
              fst (create_refund lc db (refund_call_of ce i) sv) = Inl (Refused e)))
    | ToolResult t v False \<Rightarrow>
        (\<exists>payload. v = JObj payload \<and>
           (\<exists>i. validate_refund pd db args = Inr i \<and>
              create_refund lc db (refund_call_of ce i) sv = (Inr payload, sv')))"
proof (cases "validate_refund pd db args")
  case (Inl issues)
  with assms show ?thesis by (auto simp: refund_call_reply_def invalid_params_def)
next
  case (Inr i)
  obtain res s where c: "create_refund lc db (refund_call_of ce i) sv = (res, s)"
    by (cases "create_refund lc db (refund_call_of ce i) sv") auto
  have reply: "s = sv'" "reply = (case res of Inl (Refused e) \<Rightarrow> text_result (refusal_payload e) True
      | Inl _ \<Rightarrow> internal_error db (ts_name trigger_refund) | Inr payload \<Rightarrow> text_result payload False)"
    using assms Inr c by (auto simp: refund_call_reply_def)
  show ?thesis
    using c
  proof (cases rule: create_refund_cases)
    case (failed e)
    then have "reply = internal_error db (ts_name trigger_refund)" using reply by auto
    with Inr c failed show ?thesis by (auto simp: internal_error_def)
  qed (use Inr c reply in \<open>simp_all add: text_result_def internal_error_def\<close>)
qed

section \<open>Properties\<close>

text \<open>
  C24. The two channels: an unknown tool and arguments that do not validate are JSON-RPC errors
  (-32601, -32602) that change nothing; a domain refusal is a result with \<open>isError\<close> that changes
  nothing; an operation that fails in storage is -32603; everything else is a plain result.
\<close>

theorem call_channels:
  assumes "handle_call_tool lc db pd ce name arguments sv = (reply, sv')"
  defines "args \<equiv> (case arguments of None \<Rightarrow> [] | Some d \<Rightarrow> d)"
  shows "case reply of
      ToolError code msg data \<Rightarrow>
        code = METHOD_NOT_FOUND \<and> map_of TOOLS name = None \<and> sv' = sv \<or>
        code = INVALID_PARAMS \<and> sv' = sv \<and>
          (name = str ''get_customer_record'' \<and> isl (validate_customer pd args) \<or>
           name = str ''trigger_refund'' \<and> isl (validate_refund pd db args)) \<or>
        code = INTERNAL_ERROR \<and> name = str ''trigger_refund'' \<and>
          (\<exists>i. validate_refund pd db args = Inr i \<and>
             fst (create_refund lc db (refund_call_of ce i) sv) \<in> {Inl StorageFailed, Inl RecordUnreadable})
    | ToolResult t v True \<Rightarrow> sv' = sv \<and>
        (\<exists>e. v = JObj (refusal_payload e) \<and>
          (name = str ''get_customer_record'' \<and>
             (\<exists>cid. validate_customer pd args = Inr cid \<and> get_customer cid (sv_store sv) = Inl e) \<or>
           name = str ''trigger_refund'' \<and>
             (\<exists>i. validate_refund pd db args = Inr i \<and>
                fst (create_refund lc db (refund_call_of ce i) sv) = Inl (Refused e))))
    | ToolResult t v False \<Rightarrow>
        (\<exists>payload. v = JObj payload \<and>
          (name = str ''get_customer_record'' \<and> sv' = sv \<and>
             (\<exists>cid. validate_customer pd args = Inr cid \<and> get_customer cid (sv_store sv) = Inr payload) \<or>
           name = str ''trigger_refund'' \<and>
             (\<exists>i. validate_refund pd db args = Inr i \<and>
                create_refund lc db (refund_call_of ce i) sv = (Inr payload, sv'))))"
proof -
  consider "map_of TOOLS name = None" | "name = str ''get_customer_record''" | "name = str ''trigger_refund''"
    using TOOLS_cases [of name] by argo
  then show ?thesis
  proof cases
    case 1
    then show ?thesis using assms(1) by (auto simp: handle_call_tool_def unknown_tool_def)
  next
    case 2
    then have "reply = customer_call db pd args sv" "sv' = sv"
      using assms(1) by (auto simp: handle_call_tool_def TOOLS_simps get_customer_record_def Let_def args_def)
    then show ?thesis
      using 2 by (auto simp: customer_call_def invalid_params_def text_result_def split: sum.splits)
  next
    case 3
    then have r: "refund_call_reply lc db pd ce args sv = (reply, sv')"
      using assms(1) by (simp add: handle_call_tool_def TOOLS_simps trigger_refund_def Let_def args_def)
    show ?thesis
      using refund_call_channels [OF r] 3 by (cases reply) (auto split: bool.splits)
  qed
qed

theorem call_channels_witness:
  "snd (handle_call_tool demo_ledger small_db demo_pydantic demo_env (str ''drop_tables'') None demo_server) = demo_server"
proof -
  have "fst (handle_call_tool demo_ledger small_db demo_pydantic demo_env (str ''drop_tables'') None demo_server) =
      unknown_tool (map fst TOOLS)"
    by (simp add: handle_call_tool_def TOOLS_def)
  with call_channels [OF prod.collapse [symmetric], of demo_ledger small_db demo_pydantic demo_env "str ''drop_tables''" None demo_server]
  show ?thesis by (auto simp: unknown_tool_def rpc_codes)
qed



text \<open>
  The text block of a record and its structured content agree: the text of every result of
  \<open>get_customer_record\<close>, the refusal included, parses back to the structured content.
\<close>

theorem record_text_agrees:
  assumes "handle_call_tool lc db pd ce (str ''get_customer_record'') arguments sv = (ToolResult t v e, sv')"
    and "readable_store (sv_store sv)"
  shows "json_loads t = Inr v"
proof -
  let ?args = "case arguments of None \<Rightarrow> [] | Some d \<Rightarrow> d"
  have r: "customer_call db pd ?args sv = ToolResult t v e"
    using assms(1) by (auto simp: handle_call_tool_def TOOLS_simps get_customer_record_def)
  then obtain cid where cid: "validate_customer pd ?args = Inr cid"
    by (auto simp: customer_call_def invalid_params_def split: sum.splits)
  then have valid: "valid_str cid" by (auto simp: validate_customer_Inr customer_id_field_Inr)
  show ?thesis
  proof (cases "map_of (st_customers (sv_store sv)) cid")
    case None
    let ?p = "refusal_payload (customer_not_found cid)"
    have p: "?p = [(str ''error'', JStr (str ''customer_not_found'')),
        (str ''message'', JStr (str ''No customer exists with id '' @ cid @ [46])), (str ''customer_id'', JStr cid)]"
      by (simp add: refusal_payload_def customer_not_found_def dict_merge_def)
    have "text_result ?p True = ToolResult t v e"
      using r cid None by (simp add: customer_call_def get_customer_def)
    moreover have "wf_json float_repr (JObj ?p)" "flat ?p"
      using valid by (simp_all add: p flat_def valid_cp_def valid_str_def [of "[]"])
    ultimately show ?thesis by (rule text_result_reads_back [rotated 2])
  next
    case (Some c)
    obtain p where p: "get_customer cid (sv_store sv) = Inr p" "wf_json float_repr (JObj p)" "flat p"
      using assms(2) Some round_money by (fastforce simp: get_customer_def readable_store_def flat_def)
    then have "text_result p False = ToolResult t v e"
      using r cid by (simp add: customer_call_def)
    then show ?thesis using p(2,3) by (rule text_result_reads_back [rotated 2])
  qed
qed

theorem record_text_agrees_witness:
  "\<exists>t v sv'. handle_call_tool demo_ledger small_db demo_pydantic demo_env (str ''get_customer_record'')
      (Some [(str ''customer_id'', JStr (str ''CUST-00001''))]) demo_server = (ToolResult t v True, sv') \<and> json_loads t = Inr v"
proof -
  have "customer_id_matches demo_pydantic (str ''CUST-00001'')"
    by (simp add: customer_id_matches_def CUSTOMER_PREFIX_def demo_pydantic_def str_def is_digit_def)
  then have "validate_customer demo_pydantic [(str ''customer_id'', JStr (str ''CUST-00001''))] = Inr (str ''CUST-00001'')"
    by (simp add: validate_customer_Inr customer_id_field_Inr)
  moreover have "map_of (st_customers empty_store) (str ''CUST-00001'') = None"
    by (simp add: empty_store_def seed_def seed_rows_def map_of_dict_of)
  ultimately obtain t v sv' where reply: "handle_call_tool demo_ledger small_db demo_pydantic demo_env (str ''get_customer_record'')
      (Some [(str ''customer_id'', JStr (str ''CUST-00001''))]) demo_server = (ToolResult t v True, sv')"
    by (simp add: handle_call_tool_def TOOLS_simps get_customer_record_def customer_call_def get_customer_def text_result_def)
  have "money_at n (cents n)" if "0 \<le> n" "n \<le> 10 ^ 11" for n
    using that by (simp add: money_at_def cents_bound_def)
  from this [of 124000] this [of 32000] this [of 8999] this [of 0] this [of 450000] this [of 120000] this [of 1550]
  have rows: "\<forall>c \<in> set seed_rows. valid_str (cu_id c) \<and> valid_str (cu_name c) \<and> valid_str (cu_email c) \<and>
      valid_str (cu_status c) \<and> valid_str (cu_signed_up c) \<and> (\<exists>a b. money_at a (cu_spend c) \<and> money_at b (cu_balance c))"
    by (auto simp: seed_rows_def simp del: cents_0)
  have "readable_store empty_store"
    using rows seed_mem unfolding readable_store_def by blast
  then show ?thesis
    using record_text_agrees [OF reply] reply by auto
qed

end
