(* ===== verification/Srv_Transport.thy ===== *)
theory Srv_Transport
  imports PyBytes
begin

text \<open>
  \<open>customer_mcp/transport.py\<close>: the decision on one raw line of stdin and the filter over the
  lines. A line is handed on, dropped, or answered with an error. Here the filter's two
  outputs are modelled, in order; the tasks that run it and the queue between them are in
  \<open>Srv_Stdio\<close>. The streams and the descriptors are the SDK's.

  The abstract specification is \<open>envelope\<close>: what kind of message a line holds. The decision
  refines it (\<open>classify_line_refines\<close>), and no line that holds a request with an id is ever
  dropped.
\<close>

section \<open>The decision\<close>

definition INVALID_REQUEST_CODE :: int where "INVALID_REQUEST_CODE = -32600"
definition PARSE_ERROR_CODE :: int where "PARSE_ERROR_CODE = -32700"
definition INVALID_PARAMS_CODE :: int where "INVALID_PARAMS_CODE = -32602"

lemmas transport_codes = INVALID_REQUEST_CODE_def PARSE_ERROR_CODE_def INVALID_PARAMS_CODE_def

text \<open>The id to echo; \<open>JNull\<close> is \<open>None\<close>.\<close>

fun recoverable_id :: "json \<Rightarrow> json" where
  "recoverable_id (JInt i) = JInt i"
| "recoverable_id (JStr s) = JStr s"
| "recoverable_id _ = JNull"

datatype verdict =
    Pass
  | Drop
  | Answer int pystr json  \<comment> \<open>code, message, id\<close>

definition reject :: "jobject \<Rightarrow> int \<Rightarrow> pystr \<Rightarrow> verdict" where
  "reject payload code message =
     (if has_key (str ''id'') payload
      then Answer code message (recoverable_id (jget (str ''id'') payload)) else Drop)"

definition classify_payload :: "jobject \<Rightarrow> verdict" where
  "classify_payload payload =
     (let has_id = has_key (str ''id'') payload;
          method = jget (str ''method'') payload;
          params = jget (str ''params'') payload
      in if \<not> has_key (str ''method'') payload \<and>
            (has_key (str ''result'') payload \<or> has_key (str ''error'') payload) then Pass
         else if jget (str ''jsonrpc'') payload \<noteq> JStr (str ''2.0'')
         then reject payload INVALID_REQUEST_CODE (str ''Invalid Request: 'jsonrpc' must be exactly \"2.0\".'')
         else if as_str method = None \<or> \<not> truthy method
         then reject payload INVALID_REQUEST_CODE (str ''Invalid Request: 'method' must be a non-empty string.'')
         else if params \<noteq> JNull \<and> \<not> is_dict params
         then reject payload INVALID_PARAMS_CODE (str ''Invalid params: 'params' must be an object.'')
         else if has_id \<and> recoverable_id (jget (str ''id'') payload) = JNull
         then Answer INVALID_REQUEST_CODE (str ''Invalid Request: 'id' must be a string or an integer.'') JNull
         else Pass)"

definition classify_line :: "pystr \<Rightarrow> verdict" where
  "classify_line line =
     (if py_strip line = [] then Drop
      else
        (case json_loads line of
           Inl e \<Rightarrow> Answer PARSE_ERROR_CODE (str ''Parse error: the request is not valid JSON.'') JNull
         | Inr (JArr xs) \<Rightarrow>
             Answer INVALID_REQUEST_CODE (str ''Batch requests are not supported over this transport.'') JNull
         | Inr (JObj payload) \<Rightarrow> classify_payload payload
         | Inr _ \<Rightarrow>
             Answer INVALID_REQUEST_CODE (str ''Invalid Request: a request must be a JSON object.'') JNull))"

text \<open>\<open>_ValidatingStdin\<close>: the lines it yields and the rejections it queues.\<close>

fun validating_stdin :: "pystr list \<Rightarrow> pystr list \<times> verdict list" where
  "validating_stdin [] = ([], [])"
| "validating_stdin (line # lines) =
     (let (passed, queued) = validating_stdin lines
      in case classify_line line of
           Pass \<Rightarrow> (line # passed, queued)
         | Drop \<Rightarrow> (passed, queued)
         | Answer c m i \<Rightarrow> (passed, Answer c m i # queued))"

text \<open>The frame of a rejection on the wire.\<close>

definition rejection_frame :: "int \<Rightarrow> pystr \<Rightarrow> json \<Rightarrow> json" where
  "rejection_frame code message i =
     JObj [(str ''jsonrpc'', JStr (str ''2.0'')), (str ''id'', i),
       (str ''error'', JObj [(str ''code'', JInt code), (str ''message'', JStr message)])]"

section \<open>The abstract specification\<close>

datatype envelope =
    Blank
  | NotJson
  | NotAnObject
  | Response
  | Request json bool       \<comment> \<open>the id, and whether the envelope is well-formed\<close>
  | Notification bool

fun usable_id :: "json \<Rightarrow> bool" where
  "usable_id (JInt i) = True"
| "usable_id (JStr s) = True"
| "usable_id _ = False"

definition well_formed :: "jobject \<Rightarrow> bool" where
  "well_formed d \<longleftrightarrow>
     map_of d (str ''jsonrpc'') = Some (JStr (str ''2.0'')) \<and>
     (case map_of d (str ''method'') of Some (JStr m) \<Rightarrow> m \<noteq> [] | _ \<Rightarrow> False) \<and>
     (case map_of d (str ''params'') of None \<Rightarrow> True | Some p \<Rightarrow> p = JNull \<or> is_dict p)"

definition envelope :: "pystr \<Rightarrow> envelope" where
  "envelope line =
     (if \<forall>c \<in> set line. py_isspace c then Blank
      else
        (case json_loads line of
           Inl e \<Rightarrow> NotJson
         | Inr (JObj d) \<Rightarrow>
             if map_of d (str ''method'') = None \<and> (map_of d (str ''result'') \<noteq> None \<or> map_of d (str ''error'') \<noteq> None)
             then Response
             else (case map_of d (str ''id'') of
                     None \<Rightarrow> Notification (well_formed d)
                   | Some i \<Rightarrow> Request i (well_formed d))
         | Inr _ \<Rightarrow> NotAnObject))"

fun answered_with :: "verdict \<Rightarrow> json option" where
  "answered_with (Answer c m i) = Some i"
| "answered_with _ = None"

fun_cases PassE: "answered_with v = None" and AnswerE: "answered_with v = Some i"

lemma recoverable_usable: "recoverable_id j = (if usable_id j then j else JNull)"
  by (cases j) simp_all

lemma usable_not_null: "usable_id j \<Longrightarrow> j \<noteq> JNull"
  by auto

lemma well_formed_tests:
  "well_formed d \<longleftrightarrow>
     jget (str ''jsonrpc'') d = JStr (str ''2.0'') \<and>
     \<not> (as_str (jget (str ''method'') d) = None \<or> \<not> truthy (jget (str ''method'') d)) \<and>
     \<not> (jget (str ''params'') d \<noteq> JNull \<and> \<not> is_dict (jget (str ''params'') d))"
proof -
  have "(case map_of d k of Some (JStr m) \<Rightarrow> m \<noteq> [] | _ \<Rightarrow> False) \<longleftrightarrow>
      \<not> (as_str (jget k d) = None \<or> \<not> truthy (jget k d))" for k
    by (auto simp: jget_or_def split: option.splits json.splits)
  moreover have "map_of d k = Some (JStr s) \<longleftrightarrow> jget k d = JStr s" for k s
    by (auto simp: jget_or_def split: option.splits)
  moreover have "(case map_of d k of None \<Rightarrow> True | Some p \<Rightarrow> p = JNull \<or> is_dict p) \<longleftrightarrow>
      \<not> (jget k d \<noteq> JNull \<and> \<not> is_dict (jget k d))" for k
    by (auto simp: jget_or_def split: option.splits)
  ultimately show ?thesis unfolding well_formed_def by simp
qed

lemma classify_payload_envelope:
  assumes "\<not> (map_of d (str ''method'') = None \<and> (map_of d (str ''result'') \<noteq> None \<or> map_of d (str ''error'') \<noteq> None))"
  shows "map_of d (str ''id'') = None \<Longrightarrow> classify_payload d = (if well_formed d then Pass else Drop)"
    and "map_of d (str ''id'') = Some i \<Longrightarrow>
      (if well_formed d \<and> usable_id i then classify_payload d = Pass
       else answered_with (classify_payload d) = Some (if usable_id i then i else JNull))"
  using assms
  by (auto simp: classify_payload_def Let_def well_formed_tests has_key_def reject_def recoverable_usable
      jget_or_def [of JNull "str ''id''"] dest: usable_not_null)

lemma answered_code: "answered_with (classify_payload d) = Some i \<Longrightarrow> \<exists>c m. c \<in> {-32600, -32602} \<and> classify_payload d = Answer c m i"
  by (auto simp: classify_payload_def Let_def reject_def transport_codes split: if_splits)

lemma classify_line_object:
  assumes "\<exists>c \<in> set line. \<not> py_isspace c" "json_loads line = Inr (JObj d)"
  shows "classify_line line = classify_payload d"
  using assms by (auto simp: classify_line_def py_strip_def strip_by_eq_Nil)

lemma validating_stdin_eq:
  "validating_stdin lines =
     (filter (\<lambda>l. classify_line l = Pass) lines,
      filter (\<lambda>v. answered_with v \<noteq> None) (map classify_line lines))"
  by (induction lines) (auto split: verdict.splits)

lemma classify_line_cases:
  "case envelope line of
     Blank \<Rightarrow> classify_line line = Drop
   | NotJson \<Rightarrow> \<exists>m. classify_line line = Answer (-32700) m JNull
   | NotAnObject \<Rightarrow> \<exists>m. classify_line line = Answer (-32600) m JNull
   | Response \<Rightarrow> classify_line line = Pass
   | Notification ok \<Rightarrow> classify_line line = (if ok then Pass else Drop)
   | Request i ok \<Rightarrow>
       if ok \<and> usable_id i then classify_line line = Pass
       else \<exists>c m. c \<in> {-32600, -32602} \<and> classify_line line = Answer c m (if usable_id i then i else JNull)"
proof (cases "\<forall>c \<in> set line. py_isspace c")
  case True
  then show ?thesis by (simp add: envelope_def classify_line_def py_strip_def strip_by_eq_Nil)
next
  case False
  then have ink: "\<exists>c \<in> set line. \<not> py_isspace c" by blast
  show ?thesis
  proof (cases "\<exists>d. json_loads line = Inr (JObj d)")
    case False
    with ink show ?thesis
      by (auto simp: envelope_def classify_line_def py_strip_def strip_by_eq_Nil transport_codes
          split: sum.splits json.splits)
  next
    case True
    then obtain d where d: "json_loads line = Inr (JObj d)" by blast
    note line = classify_line_object [OF ink d]
    show ?thesis
    proof (cases "map_of d (str ''method'') = None \<and> (map_of d (str ''result'') \<noteq> None \<or> map_of d (str ''error'') \<noteq> None)")
      case True
      with ink d line show ?thesis
        by (auto simp: envelope_def classify_payload_def has_key_def)
    next
      case False
      show ?thesis
      proof (cases "map_of d (str ''id'')")
        case None
        with False ink d line show ?thesis
          using classify_payload_envelope(1) [OF False None] by (simp add: envelope_def)
      next
        case (Some i)
        have "envelope line = Request i (well_formed d)"
          using False ink d Some by (simp add: envelope_def)
        then show ?thesis
          using classify_payload_envelope(2) [OF False Some] answered_code [of d] line
          by (auto split: if_splits)
      qed
    qed
  qed
qed

text \<open>
  The decision refines the kinds of line: a blank line is dropped, what is no JSON or no
  object is answered with a null id, a response passes, a notification passes or is dropped but
  never answered, and a request passes exactly when its envelope is well-formed and its id
  usable; otherwise it is answered, with its own id whenever that can be echoed.
\<close>

theorem classify_line_refines:
  "case envelope line of
     Blank \<Rightarrow> classify_line line = Drop
   | NotJson \<Rightarrow> \<exists>m. classify_line line = Answer (-32700) m JNull
   | NotAnObject \<Rightarrow> \<exists>m. classify_line line = Answer (-32600) m JNull
   | Response \<Rightarrow> classify_line line = Pass
   | Notification ok \<Rightarrow> classify_line line = (if ok then Pass else Drop)
   | Request i ok \<Rightarrow>
       if ok \<and> usable_id i then classify_line line = Pass
       else \<exists>c m. c \<in> {-32600, -32602} \<and> classify_line line = Answer c m (if usable_id i then i else JNull)"
  by (rule classify_line_cases)

text \<open>
  No request is left without an answer: of every line that holds a request, the line itself
  reaches the SDK, or an error carrying its id (null, where the id cannot be echoed) is queued
  for the client.
\<close>

lemma no_request_unanswered:
  assumes "line \<in> set lines" "envelope line = Request i ok"
  shows "line \<in> set (fst (validating_stdin lines)) \<or>
    (\<exists>c m. Answer c m (if usable_id i then i else JNull) \<in> set (snd (validating_stdin lines)))"
proof -
  obtain d where d: "\<exists>c \<in> set line. \<not> py_isspace c" "json_loads line = Inr (JObj d)"
      "\<not> (map_of d (str ''method'') = None \<and> (map_of d (str ''result'') \<noteq> None \<or> map_of d (str ''error'') \<noteq> None))"
      "map_of d (str ''id'') = Some i"
    using assms(2) by (auto simp: envelope_def split: if_splits sum.splits json.splits option.splits)
  note verdict = classify_payload_envelope(2) [OF d(3,4)] answered_code [of d] classify_line_object [OF d(1,2)]
  show ?thesis
  proof (cases "classify_line line = Pass")
    case True
    with assms(1) show ?thesis by (simp add: validating_stdin_eq)
  next
    case False
    then obtain c m where "classify_line line = Answer c m (if usable_id i then i else JNull)"
      using verdict by (auto split: if_splits)
    moreover from this assms(1) have "classify_line line \<in> set (snd (validating_stdin lines))"
      by (auto simp: validating_stdin_eq intro: rev_image_eqI)
    ultimately show ?thesis by metis
  qed
qed

lemma no_request_unanswered_example:
  "\<exists>c m. Answer c m (JInt 7) \<in> set (snd (validating_stdin [str ''{\"id\": 7}'']))"
proof -
  have "envelope (str ''{\"id\": 7}'') = Request (JInt 7) False" by code_simp
  moreover have "fst (validating_stdin [str ''{\"id\": 7}'']) = []" by code_simp
  ultimately show ?thesis
    using no_request_unanswered [of "str ''{\"id\": 7}''" "[str ''{\"id\": 7}'']" "JInt 7" False] by auto
qed

end
