(* ===== verification/PyText.thy ===== *)
theory PyText
  imports PyRepr Http
begin

text \<open>
  What Python's built-in conversions make of a value that came out of \<open>json.loads\<close>:
  \<open>repr\<close>, \<open>str\<close>, \<open>int\<close>, \<open>float\<close> and \<open>len\<close>. \<open>None\<close> stands for the exception of a
  conversion that is refused.
\<close>

text \<open>\<open>str\<close> and \<open>repr\<close> of a JSON value, as in \<open>f"text:{index}"\<close>.\<close>

fun repr_float :: "pyfloat \<Rightarrow> pystr" where
  "repr_float (Fin x) = float_repr x"
| "repr_float PosInf = str ''inf''"
| "repr_float NegInf = str ''-inf''"
| "repr_float NaN = str ''nan''"

fun repr_json :: "unicode_db \<Rightarrow> json \<Rightarrow> pystr" where
  "repr_json db JNull = str ''None''"
| "repr_json db (JBool b) = (if b then str ''True'' else str ''False'')"
| "repr_json db (JInt i) = int_digits i"
| "repr_json db (JFloat x) = repr_float x"
| "repr_json db (JStr s) = py_repr db s"
| "repr_json db (JArr xs) = 91 # py_join [44, 32] (map (repr_json db) xs) @ [93]"
| "repr_json db (JObj kvs) =
     123 # py_join [44, 32] (map (\<lambda>(k, v). py_repr db k @ [58, 32] @ repr_json db v) kvs) @ [125]"

definition str_json :: "unicode_db \<Rightarrow> json \<Rightarrow> pystr" where
  "str_json db v = (case v of JStr s \<Rightarrow> s | _ \<Rightarrow> repr_json db v)"

text \<open>\<open>int(v)\<close>: a float is cut towards zero, a text is read as decimal digits.\<close>

definition trunc_rat :: "rat \<Rightarrow> int" where
  "trunc_rat x = (if x < 0 then - \<lfloor>- x\<rfloor> else \<lfloor>x\<rfloor>)"

definition int_of_json :: "json \<Rightarrow> int option" where
  "int_of_json v =
     (case v of
        JInt i \<Rightarrow> Some i
      | JBool b \<Rightarrow> Some (if b then 1 else 0)
      | JFloat (Fin x) \<Rightarrow> Some (trunc_rat x)
      | JStr s \<Rightarrow> py_int s
      | _ \<Rightarrow> None)"

text \<open>
  \<open>float(v)\<close>; an integer is rounded to the nearest double, and one whose rounding would be
  \<open>2 ^ 1024\<close> or more in magnitude is an \<open>OverflowError\<close>. The reading of a text is the
  runtime's.
\<close>

definition float_of_int :: "int \<Rightarrow> pyfloat option" where
  "float_of_int i = (if \<bar>rnd64 (of_int i)\<bar> < 2 ^ 1024 then Some (Fin (rnd64 (of_int i))) else None)"

definition float_of_json :: "py_runtime \<Rightarrow> json \<Rightarrow> pyfloat option" where
  "float_of_json rt v =
     (case v of
        JInt i \<Rightarrow> float_of_int i
      | JBool b \<Rightarrow> Some (Fin (if b then 1 else 0))
      | JFloat x \<Rightarrow> Some x
      | JStr s \<Rightarrow> rt_float rt s
      | _ \<Rightarrow> None)"

text \<open>\<open>len(v)\<close>.\<close>

definition len_of_json :: "json \<Rightarrow> nat option" where
  "len_of_json v =
     (case v of JArr xs \<Rightarrow> Some (length xs) | JStr s \<Rightarrow> Some (length s) | JObj d \<Rightarrow> Some (length d)
      | _ \<Rightarrow> None)"

text \<open>
  \<open>key in table\<close> for a table of texts: a list or a dictionary cannot be hashed, and the test
  raises; another value that is no text is no key of the table.
\<close>

definition key_in :: "json \<Rightarrow> pystr list \<Rightarrow> bool option" where
  "key_in v names =
     (case v of JArr xs \<Rightarrow> None | JObj d \<Rightarrow> None | JStr s \<Rightarrow> Some (s \<in> set names) | _ \<Rightarrow> Some False)"

end
