(* ===== verification/Mm_Provider.thy ===== *)
theory Mm_Provider
  imports Rt_Safety PyText
begin

text \<open>
  \<open>mock_model_provider/app.py\<close>: a model provider whose failures are chosen by the request, and
  the router behind it. Every outcome the router distinguishes is reached by a knob, for one
  provider or for all (\<open>knob_outcome\<close>), so failover can be steered from a request
  (\<open>knob_failover\<close>).

  How long a reply takes is part of it, in milliseconds; the pauses within a stream are not
  modelled. An exception is \<open>None\<close>, the server's own 500.
\<close>

section \<open>Knobs\<close>

text \<open>The value for this provider, the shared one, or the default.\<close>

definition knob :: "pystr \<Rightarrow> jobject \<Rightarrow> string \<Rightarrow> json \<Rightarrow> json" where
  "knob name body key dflt = jget_or (jget_or dflt (str key) body) (name @ 95 # str key) body"

section \<open>Replies\<close>

type_synonym mm_frame = "string \<times> json"

datatype mm_body = MmJson json | MmStream "mm_frame list"

record mm_reply =
  mm_status :: int
  mm_headers :: headers
  mm_body :: mm_body
  mm_wait :: pyfloat  \<comment> \<open>milliseconds before it is sent\<close>

definition mm_error :: "string \<Rightarrow> string \<Rightarrow> json" where
  "mm_error kind text_of =
     JObj [(str ''type'', JStr (str ''error'')),
       (str ''error'', JObj [(str ''type'', JStr (str kind)), (str ''message'', JStr (str text_of))])]"

definition mm_frame_bytes :: "mm_frame \<Rightarrow> bytes" where
  "mm_frame_bytes frame =
     (case frame of (event, payload) \<Rightarrow>
        utf8_encode (str ''event: '' @ str event @ [10] @ str ''data: '' @ dumps [44, 32] [58, 32] float_repr payload @ [10, 10]))"

definition mm_text_delta :: "pystr \<Rightarrow> nat \<Rightarrow> mm_frame" where
  "mm_text_delta name index =
     (''content_block_delta'',
      JObj [(str ''type'', JStr (str ''content_block_delta'')), (str ''index'', JInt 0),
        (str ''delta'', JObj [(str ''type'', JStr (str ''text_delta'')),
           (str ''text'', JStr (str ''chunk-'' @ int_digits (int index) @ str '' from '' @ name @ str ''. ''))])])"

text \<open>\<open>_stream_response\<close>.\<close>

definition mm_stream_response :: "py_runtime \<Rightarrow> pystr \<Rightarrow> jobject \<Rightarrow> mm_frame list option" where
  "mm_stream_response rt name body =
     (case (int_of_json (knob name body ''stream_chunks'' (JInt 3)),
            float_of_json rt (knob name body ''stream_gap_ms'' (JInt 0)),
            int_of_json (knob name body ''input_tokens'' (JInt 50)),
            int_of_json (knob name body ''output_tokens'' (JInt 100))) of
        (Some chunks, Some gap_ms, Some input_tokens, Some output_tokens) \<Rightarrow> Some
          ([(''message_start'',
             JObj [(str ''type'', JStr (str ''message_start'')),
               (str ''message'', JObj [(str ''id'', JStr (str ''msg_mock_stream'')), (str ''role'', JStr (str ''assistant'')),
                  (str ''model'', jget_or (JStr (str ''unknown'')) (str ''model'') body), (str ''content'', JArr []),
                  (str ''usage'', JObj [(str ''input_tokens'', JInt input_tokens), (str ''output_tokens'', JInt 0)])])]),
            (''content_block_start'',
             JObj [(str ''type'', JStr (str ''content_block_start'')), (str ''index'', JInt 0),
               (str ''content_block'', JObj [(str ''type'', JStr (str ''text'')), (str ''text'', JStr [])])])] @
           map (mm_text_delta name) [0..<nat chunks] @
           [(''content_block_stop'', JObj [(str ''type'', JStr (str ''content_block_stop'')), (str ''index'', JInt 0)]),
            (''message_delta'',
             JObj [(str ''type'', JStr (str ''message_delta'')),
               (str ''delta'', JObj [(str ''stop_reason'', JStr (str ''end_turn''))]),
               (str ''usage'', JObj [(str ''output_tokens'', JInt output_tokens)])]),
            (''message_stop'', JObj [(str ''type'', JStr (str ''message_stop''))])])
      | _ \<Rightarrow> None)"

definition mm_answer :: "py_runtime \<Rightarrow> pystr \<Rightarrow> jobject \<Rightarrow> json option" where
  "mm_answer rt name body =
     (let response =
            [(str ''id'', JStr (str ''msg_mock'')), (str ''type'', JStr (str ''message'')),
             (str ''role'', JStr (str ''assistant'')), (str ''model'', jget_or (JStr (str ''unknown'')) (str ''model'') body),
             (str ''content'', JArr [JObj [(str ''type'', JStr (str ''text'')),
                (str ''text'', JStr (str ''Answered by '' @ name @ str ''.''))]]),
             (str ''stop_reason'', JStr (str ''end_turn''))]
      in if truthy (knob name body ''omit_usage'' (JBool False)) then Some (JObj response)
         else
           (case (int_of_json (knob name body ''input_tokens'' (JInt 50)),
                  int_of_json (knob name body ''output_tokens'' (JInt 100))) of
              (Some i, Some n) \<Rightarrow> Some (JObj (response @
                [(str ''usage'', JObj [(str ''input_tokens'', JInt i), (str ''output_tokens'', JInt n)])]))
            | _ \<Rightarrow> None))"

text \<open>The handler after the body has been read: what it answers, and how long it waits first.\<close>

definition mm_wait_for :: "json \<Rightarrow> pyfloat \<Rightarrow> pyfloat" where
  "mm_wait_for behaviour delay_ms =
     (if behaviour = JStr (str ''slow'') \<and> delay_ms = Fin 0 then Fin 30000 else delay_ms)"

definition mm_respond :: "py_runtime \<Rightarrow> pystr \<Rightarrow> jobject \<Rightarrow> mm_reply option" where
  "mm_respond rt name body =
     (let behaviour = knob name body ''behaviour'' (JStr (str ''ok'')) in
      case float_of_json rt (knob name body ''delay_ms'' (JInt 0)) of
        None \<Rightarrow> None
      | Some delay_ms \<Rightarrow>
          (let wait = mm_wait_for behaviour delay_ms;
               reply = (\<lambda>status hs b. Some \<lparr>mm_status = status, mm_headers = hs, mm_body = b, mm_wait = wait\<rparr>)
           in if behaviour = JStr (str ''rate_limited'') then
                reply 429 [(str ''retry-after'', str ''42'')] (MmJson (mm_error ''rate_limit_error''
                  ''quota exhausted on deployment prod-eu-3 (tenant acct_9931, internal-llm.prod.svc)''))
              else if behaviour = JStr (str ''error'') then
                reply 500 [] (MmJson (mm_error ''api_error'' ''internal failure at /srv/model/worker.py:412''))
              else if behaviour = JStr (str ''bad_request'') then
                reply 400 [] (MmJson (mm_error ''invalid_request_error'' ''max_tokens exceeds model limit''))
              else if behaviour = JStr (str ''unauthorized'') \<or> behaviour = JStr (str ''forbidden'') then
                reply (if behaviour = JStr (str ''unauthorized'') then 401 else 403) []
                  (MmJson (mm_error ''authentication_error''
                    ''invalid x-api-key for org org_88213 (key sk-live-9f3a...b21, vault prod/eu)''))
              else if truthy (knob name body ''stream'' (JBool False)) then
                (case mm_stream_response rt name body of
                   None \<Rightarrow> None
                 | Some frames \<Rightarrow> reply 200 [(str ''content-type'', str ''text/event-stream'')] (MmStream frames))
              else
                (case mm_answer rt name body of None \<Rightarrow> None | Some j \<Rightarrow> reply 200 [] (MmJson j))))"

text \<open>\<open>handle_messages\<close>: the bodies received, this one included, and the reply.\<close>

definition mm_handle_messages :: "py_runtime \<Rightarrow> pystr \<Rightarrow> json list \<Rightarrow> bytes \<Rightarrow> json list \<times> mm_reply option" where
  "mm_handle_messages rt name received sent =
     (case (if sent = [] then Inr (JObj []) else loads_bytes sent) of
        Inl e \<Rightarrow> (received, None)
      | Inr body \<Rightarrow>
          (received @ [body], (case body of JObj d \<Rightarrow> mm_respond rt name d | _ \<Rightarrow> None)))"

section \<open>The provider as the router's HTTP client sees it\<close>

text \<open>
  The transport: which provider answers at which address (\<open>names\<close>), what Starlette writes
  for a JSON body (\<open>render\<close>), whether a wait is too long for a timeout (\<open>late\<close>), and the
  time a call took (\<open>took\<close>). A request that reaches no provider is a connection error.
\<close>

record network =
  nw_names :: "(pystr \<times> pystr) list"
  nw_render :: "json \<Rightarrow> bytes"
  nw_late :: "pyfloat \<Rightarrow> pyfloat \<Rightarrow> bool"
  nw_took :: "nat \<Rightarrow> rat"

definition mm_chunks :: "network \<Rightarrow> mm_body \<Rightarrow> bytes list" where
  "mm_chunks nw b = (case b of MmJson j \<Rightarrow> [nw_render nw j] | MmStream frames \<Rightarrow> map mm_frame_bytes frames)"

definition mm_client :: "py_runtime \<Rightarrow> network \<Rightarrow> http_client" where
  "mm_client rt nw n ob =
     (case map_of (nw_names nw) (ob_url ob) of
        None \<Rightarrow> ClientHttpError (nw_took nw n)
      | Some name \<Rightarrow>
          (case mm_respond rt name (ob_payload ob) of
             None \<Rightarrow> Reply \<lparr>rp_status = 500, rp_headers = [], rp_chunks = [str ''Internal Server Error'']\<rparr> (nw_took nw n)
           | Some r \<Rightarrow>
               if nw_late nw (mm_wait r) (ob_timeout ob) then ClientTimeout (nw_took nw n)
               else Reply \<lparr>rp_status = mm_status r, rp_headers = mm_headers r, rp_chunks = mm_chunks nw (mm_body r)\<rparr>
                      (nw_took nw n)))"

section \<open>Every outcome has its knob\<close>

definition behaviour_of :: "pystr \<Rightarrow> jobject \<Rightarrow> json" where
  "behaviour_of name body = knob name body ''behaviour'' (JStr (str ''ok''))"

definition outcome_of_behaviour :: "json \<Rightarrow> outcome" where
  "outcome_of_behaviour b =
     (if b = JStr (str ''rate_limited'') then RateLimited
      else if b \<in> {JStr (str ''error''), JStr (str ''unauthorized''), JStr (str ''forbidden'')} then Unavailable
      else if b = JStr (str ''bad_request'') then ClientError
      else Success)"

definition status_of_behaviour :: "json \<Rightarrow> int" where
  "status_of_behaviour b =
     (if b = JStr (str ''rate_limited'') then 429 else if b = JStr (str ''error'') then 500
      else if b = JStr (str ''bad_request'') then 400 else if b = JStr (str ''unauthorized'') then 401
      else if b = JStr (str ''forbidden'') then 403 else 200)"

lemma mm_respond_status: "mm_respond rt name body = Some r \<Longrightarrow> mm_status r = status_of_behaviour (behaviour_of name body)"
  unfolding mm_respond_def behaviour_of_def [symmetric] Let_def
  by (cases "float_of_json rt (knob name body ''delay_ms'' (JInt 0))")
    (auto simp: status_of_behaviour_def split: option.split_asm if_split_asm)

lemma classify_behaviour: "classify (status_of_behaviour b) = outcome_of_behaviour b"
  by (simp add: status_of_behaviour_def classify_def outcome_of_behaviour_def)

lemma mm_respond_outcome:
  "mm_respond rt name body = Some r \<Longrightarrow> classify (mm_status r) = outcome_of_behaviour (behaviour_of name body)"
  using mm_respond_status classify_behaviour by simp

text \<open>The router replaces the model's name in what it sends; no knob is called that.\<close>

lemma knob_model: "str key \<noteq> str ''model'' \<Longrightarrow> 95 \<notin> set (str ''model'') \<Longrightarrow>
    knob name (AList.update (str ''model'') v body) key dflt = knob name body key dflt"
proof -
  assume key: "str key \<noteq> str ''model''" and under: "95 \<notin> set (str ''model'')"
  from under have "name @ 95 # str key \<noteq> str ''model''" by (metis in_set_conv_decomp)
  with key show ?thesis by (simp add: knob_def jget_or_def)
qed

text \<open>What an attempt at a provider comes to, read off the knobs of the request.\<close>

definition expected_outcome :: "py_runtime \<Rightarrow> network \<Rightarrow> jobject \<Rightarrow> headers \<Rightarrow> provider \<Rightarrow> outcome" where
  "expected_outcome rt nw body hs p =
     (case map_of (nw_names nw) (pv_url p) of
        None \<Rightarrow> Unavailable
      | Some name \<Rightarrow>
          (case mm_respond rt name (ob_payload (outbound_request False p body hs)) of
             None \<Rightarrow> Unavailable
           | Some r \<Rightarrow>
               if nw_late nw (mm_wait r) (pv_timeout p) then TimedOut
               else outcome_of_behaviour (behaviour_of name body)))"

lemma behaviour_sent: "behaviour_of name (ob_payload (outbound_request False p body hs)) = behaviour_of name body"
proof -
  have "str ''behaviour'' \<noteq> str ''model''" "95 \<notin> set (str ''model'')" by (simp_all add: str_def)
  from knob_model [OF this] show ?thesis by (simp add: behaviour_of_def outbound_request_def)
qed

lemma call_mm:
  "\<exists>a. call_provider (mm_client rt nw) n p body hs = Some a \<and> at_outcome a = expected_outcome rt nw body hs p"
  using mm_respond_outcome [of rt _ "ob_payload (outbound_request False p body hs)"]
  by (auto simp: call_provider_def mm_client_def expected_outcome_def outbound_request_def classify_def
      behaviour_sent [unfolded outbound_request_def outbound.select_convs] split: option.split)

text \<open>How the loop ends, for attempts that come to these outcomes.\<close>

fun loop_outcomes :: "loop_end \<Rightarrow> outcome list" where
  "loop_outcomes (LoopSucceeded as) = map at_outcome as"
| "loop_outcomes (LoopClientError as) = map at_outcome as"
| "loop_outcomes (LoopExhausted as) = map at_outcome as"
| "loop_outcomes LoopRaised = []"

definition tried :: "outcome list \<Rightarrow> outcome list" where
  "tried os = take (Suc (length (takeWhile should_failover os))) os"

lemma tried_simps [simp]:
  "tried [] = []"
  "tried (x # xs) = (if should_failover x then x # tried xs else [x])"
  by (simp_all add: tried_def)

lemma try_mm:
  defines "oc \<equiv> \<lambda>rt nw body hs ps. map (expected_outcome rt nw body hs) ps"
  shows "loop_outcomes (try_providers (mm_client rt nw) body hs ps as) = map at_outcome as @ tried (oc rt nw body hs ps) \<and>
    (case try_providers (mm_client rt nw) body hs ps as of
       LoopSucceeded bs \<Rightarrow> Success \<in> set (tried (oc rt nw body hs ps))
     | LoopClientError bs \<Rightarrow> ClientError \<in> set (tried (oc rt nw body hs ps))
     | LoopExhausted bs \<Rightarrow> \<forall>x \<in> set (oc rt nw body hs ps). should_failover x
     | LoopRaised \<Rightarrow> False)"
proof (induction ps arbitrary: as)
  case (Cons p ps)
  obtain a where a: "call_provider (mm_client rt nw) (length as) p body hs = Some a"
    "at_outcome a = expected_outcome rt nw body hs p"
    using call_mm by blast
  show ?case
  proof (cases "should_failover (at_outcome a)")
    case True
    then have "\<not> at_succeeded a" by (auto simp: at_succeeded_def should_failover_def)
    with True a Cons.IH [of "as @ [a]"] show ?thesis
      by (auto simp: oc_def Let_def split: loop_end.splits)
  next
    case False
    then show ?thesis
      using a by (cases "at_outcome a") (auto simp: oc_def Let_def at_succeeded_def should_failover_def)
  qed
qed (simp add: oc_def)

text \<open>
  Failover is steered from the request: the outcomes of the attempts are, provider by
  provider, those the knobs name (429 is rate limited; 500, 401, 403, a crash and no connection
  are unavailable; 400 is the client's error; an answer that is too late timed out), up to the first
  provider that does not fail over; the loop succeeds, reports the client's error, or is
  exhausted accordingly, and it never raises.
\<close>

theorem knobs_steer_failover:
  "loop_outcomes (try_providers (mm_client rt nw) body hs ps []) = tried (map (expected_outcome rt nw body hs) ps) \<and>
   (case try_providers (mm_client rt nw) body hs ps [] of
      LoopSucceeded as \<Rightarrow> Success \<in> set (tried (map (expected_outcome rt nw body hs) ps))
    | LoopClientError as \<Rightarrow> ClientError \<in> set (tried (map (expected_outcome rt nw body hs) ps))
    | LoopExhausted as \<Rightarrow> \<forall>p \<in> set ps. should_failover (expected_outcome rt nw body hs p)
    | LoopRaised \<Rightarrow> False)"
  using try_mm [of rt nw body hs ps "[]"] by (simp split: loop_end.splits)

section \<open>An example\<close>

definition demo_network :: network where
  "demo_network = \<lparr>nw_names = [(str ''http://a'', str ''primary''), (str ''http://b'', str ''fallback'')],
     nw_render = (\<lambda>j. utf8_encode (dumps_compact float_repr j)), nw_late = (\<lambda>wait limit. wait \<noteq> Fin 0), nw_took = (\<lambda>n. 0)\<rparr>"

definition demo_mm_provider :: "string \<Rightarrow> provider" where
  "demo_mm_provider url = \<lparr>pv_name = str url, pv_url = str url, pv_model = str ''m'', pv_timeout = Fin 1,
     pv_api_key = None, pv_key_header = str ''x-api-key''\<rparr>"

lemma demo_knobs:
  "map (expected_outcome rt demo_network
     [(str ''behaviour'', JStr (str ''rate_limited'')), (str ''fallback_behaviour'', JStr (str ''ok''))] [])
     [demo_mm_provider ''http://a'', demo_mm_provider ''http://b''] = [RateLimited, Success]"
proof -
  have "float_of_int 0 = Some (Fin 0)" by (simp add: float_of_int_def)
  then show ?thesis
    by (simp add: expected_outcome_def demo_network_def demo_mm_provider_def mm_respond_def knob_def jget_or_def
        outbound_request_def str_def float_of_json_def Let_def mm_wait_for_def outcome_of_behaviour_def behaviour_of_def
        mm_answer_def int_of_json_def)
qed
end
