(* ===== verification/Gd_Patterns.thy ===== *)
theory Gd_Patterns
  imports Prelude
begin

text \<open>
  \<open>llm_guardrail/patterns.py\<close>: the five detectors, the Luhn checksum and the class of an
  over-long run. A pattern carries the regular expression the source writes; what the
  \<open>regex\<close> package makes of it is a parameter, a \<open>matcher\<close>: the end of the match of a
  compiled expression at a position (with \<open>endpos\<close>), and the matches of
  \<open>finditer(partial=True)\<close>. \<open>search\<close> is defined from the first, as the leftmost match.

  The checksum is equal to the textbook one, summed from the right (\<open>luhn_sum_ref\<close>); it
  catches every single wrong digit and every swap of two neighbours but 0 and 9.
\<close>

section \<open>The Luhn checksum\<close>

text \<open>The value of a character that \<open>isdigit\<close>; other characters have none.\<close>

type_synonym digit_values = "nat \<Rightarrow> nat option"

definition luhn_term :: "bool \<Rightarrow> nat \<Rightarrow> nat" where
  "luhn_term double digit = (if double then if 9 < 2 * digit then 2 * digit - 9 else 2 * digit else digit)"

definition luhn_sum :: "nat list \<Rightarrow> nat" where
  "luhn_sum numbers =
     (let parity = length numbers mod 2
      in sum_list (map (\<lambda>(index, digit). luhn_term (index mod 2 = parity) digit) (enumerate 0 numbers)))"

definition luhn_numbers :: "nat list \<Rightarrow> bool" where
  "luhn_numbers numbers \<longleftrightarrow> \<not> length numbers < 13 \<and> luhn_sum numbers mod 10 = 0"

definition luhn_valid :: "digit_values \<Rightarrow> pystr \<Rightarrow> bool" where
  "luhn_valid dig s = luhn_numbers (List.map_filter dig s)"

text \<open>The textbook sum: from the right, every second digit doubled, its digits added.\<close>

fun luhn_right :: "bool \<Rightarrow> nat list \<Rightarrow> nat" where
  "luhn_right double [] = 0"
| "luhn_right double (d # ds) = (if double then 2 * d div 10 + 2 * d mod 10 else d) + luhn_right (\<not> double) ds"

lemma digit_cases: "d \<le> 9 \<Longrightarrow> d \<in> set [0..<10]"
  by simp

lemma luhn_term_digits:
  assumes "d \<le> 9"
  shows "luhn_term True d = 2 * d div 10 + 2 * d mod 10"
proof -
  have "\<forall>d \<in> set [0..<10]. luhn_term True d = 2 * d div 10 + 2 * d mod 10"
    by code_simp
  from bspec [OF this digit_cases [OF assms]] show ?thesis .
qed

lemma luhn_sum_snoc: "luhn_sum (d # ds) = luhn_term (even (length ds) = False) d + luhn_sum ds"
proof -
  have "map (\<lambda>(index, digit). luhn_term (index mod 2 = Suc n mod 2) digit) (enumerate (Suc k) xs) =
      map (\<lambda>(index, digit). luhn_term (index mod 2 = n mod 2) digit) (enumerate k xs)" for n k xs
    by (induction xs arbitrary: k) (auto simp: mod_Suc)
  then show ?thesis
    by (simp add: luhn_sum_def Let_def mod_Suc even_iff_mod_2_eq_zero)
qed

lemma luhn_right_append: "luhn_right b (xs @ [d]) = luhn_right b xs + luhn_right (b = even (length xs)) [d]"
  by (induction xs arbitrary: b) auto

lemma luhn_sum_ref:
  assumes "\<forall>d \<in> set numbers. d \<le> 9"
  shows "luhn_sum numbers = luhn_right False (rev numbers)"
  using assms
proof (induction numbers)
  case (Cons d ds)
  then show ?case
    using luhn_term_digits [of d] by (simp add: luhn_sum_snoc luhn_right_append luhn_term_def)
qed (simp add: luhn_sum_def)

text \<open>The weight of a digit is a permutation of the digits.\<close>

lemma luhn_term_inj:
  assumes "d \<le> 9" "d' \<le> 9" "luhn_term b d mod 10 = luhn_term b d' mod 10"
  shows "d = d'"
proof -
  have "\<forall>d \<in> set [0..<10]. \<forall>d' \<in> set [0..<10]. \<forall>b \<in> set [True, False].
      luhn_term b d mod 10 = luhn_term b d' mod 10 \<longrightarrow> d = d'"
    by code_simp
  from bspec [OF bspec [OF bspec [OF this digit_cases [OF assms(1)]] digit_cases [OF assms(2)]], of b] assms(3)
  show ?thesis by simp
qed

lemma luhn_term_swap:
  assumes "d \<le> 9" "d' \<le> 9"
    "(luhn_term b d + luhn_term (\<not> b) d') mod 10 = (luhn_term b d' + luhn_term (\<not> b) d) mod 10"
  shows "d = d' \<or> d = 0 \<and> d' = 9 \<or> d = 9 \<and> d' = 0"
proof -
  have "\<forall>d \<in> set [0..<10]. \<forall>d' \<in> set [0..<10]. \<forall>b \<in> set [True, False].
      (luhn_term b d + luhn_term (\<not> b) d') mod 10 = (luhn_term b d' + luhn_term (\<not> b) d) mod 10 \<longrightarrow>
      d = d' \<or> d = 0 \<and> d' = 9 \<or> d = 9 \<and> d' = 0"
    by code_simp
  note finite = bspec [OF bspec [OF bspec [OF this digit_cases [OF assms(1)]] digit_cases [OF assms(2)]], of b]
  have "b \<in> set [True, False]"
    by simp
  from finite [OF this] assms(3) show ?thesis
    by (rule mp)
qed

lemma luhn_sum_append:
  "luhn_sum (xs @ d # ds) = luhn_sum (xs @ 0 # ds) + luhn_term (odd (length ds)) d"
proof (induction xs)
  case Nil
  have "(even (length ds) = False) = odd (length ds)" by simp
  then show ?case by (simp only: append_Nil luhn_sum_snoc) (simp add: luhn_term_def)
next
  case (Cons x xs)
  then show ?case by (simp add: luhn_sum_snoc)
qed

lemma luhn_sum_append2:
  "luhn_sum (xs @ d # d' # ds) =
     luhn_sum (xs @ 0 # 0 # ds) + luhn_term (even (length ds)) d + luhn_term (odd (length ds)) d'"
  using luhn_sum_append [of xs d "d' # ds"] luhn_sum_append [of "xs @ [0]" d' ds] by simp

lemma mod10_cancel:
  assumes "(k + a) mod 10 = (0::nat)" "(k + b) mod 10 = 0"
  shows "a mod 10 = b mod 10"
proof -
  have "a mod 10 = (a + (k + b)) mod 10"
    using assms(2) mod_add_right_eq [of a "k + b" 10] by simp
  also have "\<dots> = (b + (k + a)) mod 10"
    by (simp add: ac_simps)
  also have "\<dots> = b mod 10"
    using assms(1) mod_add_right_eq [of b "k + a" 10] by simp
  finally show ?thesis .
qed

text \<open>
  C38. The checksum catches the slips of a hand: of two digit strings that differ in one digit,
  or in the order of two neighbours that are not 0 and 9, at most one is accepted.
\<close>

theorem luhn_catches_slips:
  assumes "d \<le> 9" "d' \<le> 9" "d \<noteq> d'"
  shows "\<not> (luhn_numbers (xs @ d # ds) \<and> luhn_numbers (xs @ d' # ds)) \<and>
    (\<not> (d = 0 \<and> d' = 9) \<longrightarrow> \<not> (d = 9 \<and> d' = 0) \<longrightarrow>
     \<not> (luhn_numbers (xs @ d # d' # ds) \<and> luhn_numbers (xs @ d' # d # ds)))"
proof (intro conjI impI notI)
  assume "luhn_numbers (xs @ d # ds) \<and> luhn_numbers (xs @ d' # ds)"
  then have "luhn_term (odd (length ds)) d mod 10 = luhn_term (odd (length ds)) d' mod 10"
    unfolding luhn_numbers_def luhn_sum_append [of xs d] luhn_sum_append [of xs d']
    by (elim conjE, intro mod10_cancel)
  with assms show False by (blast dest: luhn_term_inj)
next
  assume apart: "\<not> (d = 0 \<and> d' = 9)" "\<not> (d = 9 \<and> d' = 0)"
  assume "luhn_numbers (xs @ d # d' # ds) \<and> luhn_numbers (xs @ d' # d # ds)"
  then have "(luhn_term (even (length ds)) d + luhn_term (odd (length ds)) d') mod 10 =
      (luhn_term (even (length ds)) d' + luhn_term (odd (length ds)) d) mod 10"
    unfolding luhn_numbers_def luhn_sum_append2 [of xs d] luhn_sum_append2 [of xs d'] add.assoc
    by (elim conjE, intro mod10_cancel)
  with luhn_term_swap [of d d' "even (length ds)"] assms apart show False by simp
qed

theorem luhn_catches_slips_witness:
  "luhn_numbers [4,1,1,1,1,1,1,1,1,1,1,1,1,1,1,1] \<and>
   \<not> luhn_numbers [4,1,1,1,1,1,1,2,1,1,1,1,1,1,1,1] \<and> \<not> luhn_numbers [1,4,1,1,1,1,1,1,1,1,1,1,1,1,1,1]"
proof -
  have "luhn_numbers ([4,1,1,1,1,1,1] @ 1 # [1,1,1,1,1,1,1,1])" "luhn_numbers ([] @ 4 # 1 # [1,1,1,1,1,1,1,1,1,1,1,1,1,1])"
    by code_simp+
  then show ?thesis
    using luhn_catches_slips [of 1 2 "[4,1,1,1,1,1,1]" "[1,1,1,1,1,1,1,1]"]
      luhn_catches_slips [of 4 1 "[]" "[1,1,1,1,1,1,1,1,1,1,1,1,1,1]"] by simp
qed

section \<open>Patterns\<close>

text \<open>
  A compiled expression. \<open>mt_at text start endpos\<close> is the end of \<open>match(text, start, endpos)\<close>;
  \<open>mt_partial text\<close> are the spans of \<open>finditer(text, partial=True)\<close>, each with
  \<open>match.partial\<close>. An engine compiles an expression.
\<close>

record matcher =
  mt_at :: "pystr \<Rightarrow> nat \<Rightarrow> nat \<Rightarrow> nat option"
  mt_partial :: "pystr \<Rightarrow> (nat \<times> nat \<times> bool) list"

type_synonym engine = "pystr \<Rightarrow> matcher"

text \<open>\<open>search(text, from)\<close>: the leftmost position with a match.\<close>

definition mt_search :: "matcher \<Rightarrow> pystr \<Rightarrow> nat \<Rightarrow> (nat \<times> nat) option" where
  "mt_search m s start =
     (case find (\<lambda>i. mt_at m s i (length s) \<noteq> None) [start..<Suc (length s)] of
        None \<Rightarrow> None
      | Some i \<Rightarrow> Some (i, the (mt_at m s i (length s))))"

text \<open>A match ends between its start and \<open>endpos\<close>; a span lies in the text.\<close>

definition matcher_ok :: "matcher \<Rightarrow> bool" where
  "matcher_ok m \<longleftrightarrow>
     (\<forall>s i k e. mt_at m s i k = Some e \<longrightarrow> i \<le> e \<and> e \<le> k) \<and>
     (\<forall>s. \<forall>(i, e, _) \<in> set (mt_partial m s). i \<le> e \<and> e \<le> length s)"

record pattern =
  pt_name :: string
  pt_expression :: pystr
  pt_max_length :: nat
  pt_validate :: "(pystr \<Rightarrow> bool) option"
  pt_validate_min_length :: nat

text \<open>\<open>Pattern.accepts\<close>.\<close>

definition accepts :: "pattern \<Rightarrow> pystr \<Rightarrow> bool" where
  "accepts pattern s = (case pt_validate pattern of None \<Rightarrow> True | Some validate \<Rightarrow> validate s)"

text \<open>A raw string of the source, with \<open>~\<close> for its backslash.\<close>

definition raw :: "string \<Rightarrow> pystr" where
  "raw s = map (\<lambda>c. if c = CHR ''~'' then 92 else of_char c) s"

definition EMAIL :: pattern where
  "EMAIL = \<lparr>pt_name = ''email'',
     pt_expression = raw ''(?<![~w.%+-])[~w.%+-]+@[~w.-]+~.[^~W~d_]{2,}'',
     pt_max_length = 320, pt_validate = None, pt_validate_min_length = 0\<rparr>"

definition SSN :: pattern where
  "SSN = \<lparr>pt_name = ''ssn'',
     pt_expression = raw ''(?!000|666|9~d~d)~d{3}-(?!00)~d{2}-(?!0000)~d{4}'',
     pt_max_length = 11, pt_validate = None, pt_validate_min_length = 0\<rparr>"

definition CREDIT_CARD :: "digit_values \<Rightarrow> pattern" where
  "CREDIT_CARD dig = \<lparr>pt_name = ''credit_card'',
     pt_expression = raw ''(?<!~d)(?:~d[ -]?){12,18}~d(?!~d)'',
     pt_max_length = 37, pt_validate = Some (luhn_valid dig), pt_validate_min_length = 13\<rparr>"

definition PHONE :: pattern where
  "PHONE = \<lparr>pt_name = ''phone'',
     pt_expression = raw ''(?<![~w-])(?:'' @ raw ''~+1[ .-]?(?:~(~d{3}~)|~d{3})[ .-]?~d{3}[ .-]?~d{4}''
       @ raw ''|~(~d{3}~)[ .-]?~d{3}[ .-]?~d{4}'' @ raw ''|~d{3}[ .-]~d{3}[ .-]?~d{4}'' @ raw '')(?!~d)'',
     pt_max_length = 20, pt_validate = None, pt_validate_min_length = 0\<rparr>"

definition API_KEY :: pattern where
  "API_KEY = \<lparr>pt_name = ''api_key'',
     pt_expression = raw ''(?<![A-Za-z0-9])(?:sk-ant-[A-Za-z0-9_-]{16,}|sk-[A-Za-z0-9]{20,}|AKIA[0-9A-Z]{16})(?![A-Za-z0-9])'',
     pt_max_length = 128, pt_validate = None, pt_validate_min_length = 0\<rparr>"

definition DEFAULT_PATTERNS :: "digit_values \<Rightarrow> pattern list" where
  "DEFAULT_PATTERNS dig = [EMAIL, SSN, CREDIT_CARD dig, PHONE, API_KEY]"

text \<open>The class \<open>[~w.%+@-]\<close> of \<open>OVERLONG_RUN\<close>, over the word characters of the engine.\<close>

definition overlong_char :: "(nat \<Rightarrow> bool) \<Rightarrow> nat \<Rightarrow> bool" where
  "overlong_char word c \<longleftrightarrow> word c \<or> c \<in> set (str ''.%+@-'')"

lemma mt_search_None: "mt_search m s i = None \<longleftrightarrow> (\<forall>p. i \<le> p \<and> p \<le> length s \<longrightarrow> mt_at m s p (length s) = None)"
proof -
  have "mt_search m s i = None \<longleftrightarrow> find (\<lambda>i. mt_at m s i (length s) \<noteq> None) [i..<Suc (length s)] = None"
    unfolding mt_search_def by (cases "find (\<lambda>i. mt_at m s i (length s) \<noteq> None) [i..<Suc (length s)]") simp_all
  also have "\<dots> \<longleftrightarrow> \<not> (\<exists>p. p \<in> set [i..<Suc (length s)] \<and> mt_at m s p (length s) \<noteq> None)"
    by (rule find_None_iff)
  finally show ?thesis by auto
qed

lemma find_upt_SomeD:
  "find P [i..<j] = Some p \<Longrightarrow> i \<le> p \<and> p < j \<and> P p \<and> (\<forall>q. i \<le> q \<and> q < p \<longrightarrow> \<not> P q)"
proof (induction "j - i" arbitrary: i)
  case (Suc k)
  then have "[i..<j] = i # [Suc i..<j]"
    by (simp add: upt_rec)
  show ?case
  proof (cases "P i")
    case False
    with Suc.prems \<open>[i..<j] = _\<close> have "find P [Suc i..<j] = Some p"
      by simp
    with Suc.hyps have rest: "Suc i \<le> p \<and> p < j \<and> P p \<and> (\<forall>q. Suc i \<le> q \<and> q < p \<longrightarrow> \<not> P q)"
      by (intro Suc.hyps(1)) auto
    have "\<not> P q" if "i \<le> q" "q < p" for q
      using that rest False by (cases "q = i") auto
    with rest show ?thesis by auto
  qed (use Suc.prems Suc.hyps \<open>[i..<j] = _\<close> in auto)
qed simp

lemma mt_search_Some:
  assumes "mt_search m s i = Some (p, e)"
  shows "i \<le> p" "p \<le> length s" "mt_at m s p (length s) = Some e"
    "\<And>q. i \<le> q \<Longrightarrow> q < p \<Longrightarrow> mt_at m s q (length s) = None"
  using assms find_upt_SomeD [of "\<lambda>i. mt_at m s i (length s) \<noteq> None" i "Suc (length s)" p]
  by (auto simp: mt_search_def simp del: upt_Suc split: option.splits)

lemma matcher_okD:
  "matcher_ok m \<Longrightarrow> mt_at m s i k = Some e \<Longrightarrow> i \<le> e \<and> e \<le> k"
  "matcher_ok m \<Longrightarrow> (i, e, b) \<in> set (mt_partial m s) \<Longrightarrow> i \<le> e \<and> e \<le> length s"
  by (auto simp: matcher_ok_def)

end
