(* ===== verification/Gd_Redactor.thy ===== *)
theory Gd_Redactor
  imports Gd_Patterns PyJson
begin

text \<open>
  \<open>llm_guardrail/redactor.py\<close>: the incremental redactor (\<open>StreamRedactor\<close>) with its
  holdback buffer, its ceiling and the suppression of an over-long run, the redaction of a whole
  text, and of every string leaf of a JSON value.

  The scan of a text for one pattern is written as the loop of the source (\<open>redact_loop\<close>)
  and shown equal to a position-by-position reading (\<open>scan\<close>). Of the engine the proofs
  use only \<open>matcher_ok\<close>, and that only where a loop depends on it.
\<close>

record regex_env =
  rx_engine :: engine
  rx_word :: "nat \<Rightarrow> bool"  \<comment> \<open>\<open>~w\<close> of the engine\<close>
  rx_digit :: digit_values  \<comment> \<open>\<open>str.isdigit\<close> with \<open>int\<close>\<close>

definition REDACTION_PLACEHOLDER :: pystr where "REDACTION_PLACEHOLDER = str ''[REDACTED]''"

definition OVERFLOW_COUNTER :: string where "OVERFLOW_COUNTER = ''overflow''"

section \<open>State\<close>

record redaction_stats =
  st_counts :: "(string \<times> nat) list"
  st_characters_in :: nat
  st_characters_out :: nat
  st_max_holdback_seen :: nat
  st_suppressed_characters :: nat

definition empty_stats :: redaction_stats where
  "empty_stats =
     \<lparr>st_counts = [], st_characters_in = 0, st_characters_out = 0, st_max_holdback_seen = 0,
      st_suppressed_characters = 0\<rparr>"

text \<open>\<open>RedactionStats.total\<close> and \<open>record\<close>.\<close>

definition stats_total :: "redaction_stats \<Rightarrow> nat" where
  "stats_total st = sum_list (map snd (st_counts st))"

definition stats_count :: "string \<Rightarrow> redaction_stats \<Rightarrow> nat" where
  "stats_count name st = (case map_of (st_counts st) name of None \<Rightarrow> 0 | Some n \<Rightarrow> n)"

definition stats_record :: "string \<Rightarrow> redaction_stats \<Rightarrow> redaction_stats" where
  "stats_record name st = st\<lparr>st_counts := AList.update name (stats_count name st + 1) (st_counts st)\<rparr>"

record redactor =
  rd_patterns :: "pattern list"
  rd_placeholder :: pystr
  rd_max_holdback :: nat
  rd_buffer :: pystr
  rd_suppressing :: bool
  rd_stats :: redaction_stats

text \<open>
  \<open>max_holdback or max(...) + 8\<close>: a ceiling of 0 is the default one too, and \<open>None\<close> is the
  \<open>ValueError\<close> of the maximum over no patterns.
\<close>

definition holdback_ceiling :: "pattern list \<Rightarrow> nat option \<Rightarrow> nat option" where
  "holdback_ceiling patterns max_holdback =
     (let default = (if patterns = [] then None else Some (Max (set (map pt_max_length patterns)) + 8))
      in case max_holdback of None \<Rightarrow> default | Some n \<Rightarrow> if n = 0 then default else Some n)"

definition fresh_redactor :: "pattern list \<Rightarrow> pystr \<Rightarrow> nat \<Rightarrow> redactor" where
  "fresh_redactor patterns placeholder limit =
     \<lparr>rd_patterns = patterns, rd_placeholder = placeholder, rd_max_holdback = limit, rd_buffer = [],
      rd_suppressing = False, rd_stats = empty_stats\<rparr>"

definition stream_redactor :: "pattern list \<Rightarrow> pystr \<Rightarrow> nat option \<Rightarrow> redactor option" where
  "stream_redactor patterns placeholder max_holdback =
     map_option (fresh_redactor patterns placeholder) (holdback_ceiling patterns max_holdback)"

text \<open>\<open>StreamRedactor()\<close>.\<close>

definition default_redactor :: "regex_env \<Rightarrow> redactor" where
  "default_redactor env = fresh_redactor (DEFAULT_PATTERNS (rx_digit env)) REDACTION_PLACEHOLDER 328"

lemma default_redactor_init:
  "stream_redactor (DEFAULT_PATTERNS (rx_digit env)) REDACTION_PLACEHOLDER None = Some (default_redactor env)"
  by (simp add: stream_redactor_def holdback_ceiling_def default_redactor_def DEFAULT_PATTERNS_def
      EMAIL_def SSN_def CREDIT_CARD_def PHONE_def API_KEY_def)

section \<open>Redaction of a text\<close>

definition slice :: "nat \<Rightarrow> nat \<Rightarrow> 'a list \<Rightarrow> 'a list" where
  "slice i j s = take (j - i) (drop i s)"

text \<open>
  The loop of \<open>_validated_end\<close>, with the number of rounds it may still take. A round ends
  the next candidate before the last one, so \<open>end + 1\<close> rounds are enough (\<open>back_off_fuel\<close>).
\<close>

fun back_off :: "nat \<Rightarrow> matcher \<Rightarrow> pattern \<Rightarrow> pystr \<Rightarrow> nat \<Rightarrow> nat \<Rightarrow> nat \<Rightarrow> nat option" where
  "back_off 0 m pattern s start least end0 = None"
| "back_off (Suc n) m pattern s start least end0 =
     (if least \<le> end0 then
        (case mt_at m s start end0 of
           None \<Rightarrow> None
         | Some e \<Rightarrow>
             if accepts pattern (slice start e s) then Some e
             else back_off n m pattern s start least (e - 1))
      else None)"

definition validated_end :: "matcher \<Rightarrow> pattern \<Rightarrow> pystr \<Rightarrow> nat \<Rightarrow> nat \<Rightarrow> nat option" where
  "validated_end m pattern s start end0 =
     (case pt_validate pattern of
        None \<Rightarrow> if accepts pattern (slice start end0 s) then Some end0 else None
      | Some _ \<Rightarrow>
          back_off (Suc end0) m pattern s start (start + max (pt_validate_min_length pattern) 1) end0)"

text \<open>
  One pattern over one text: the rewritten text from \<open>position\<close> on, and how many matches
  were replaced.
\<close>

function redact_loop ::
  "matcher \<Rightarrow> pattern \<Rightarrow> pystr \<Rightarrow> bool \<Rightarrow> pystr \<Rightarrow> nat \<Rightarrow> nat \<Rightarrow> pystr \<times> nat"
where
  "redact_loop m pattern placeholder protect_tail s position search_from =
     (if search_from \<le> length s then
        (case mt_search m s search_from of
           None \<Rightarrow> (drop position s, 0)
         | Some (start, end0) \<Rightarrow>
             (case validated_end m pattern s start end0 of
                None \<Rightarrow> redact_loop m pattern placeholder protect_tail s position (start + 1)
              | Some e \<Rightarrow>
                  if protect_tail \<and> e = length s then
                    redact_loop m pattern placeholder protect_tail s position (start + 1)
                  else
                    (let (rest, n) = redact_loop m pattern placeholder protect_tail s e
                                       (if start < e then e else start + 1)
                     in (slice position start s @ placeholder @ rest, n + 1))))
      else (drop position s, 0))"
  by pat_completeness auto
termination
  by (relation "measure (\<lambda>(m, pattern, ph, protect, s, position, search_from). Suc (length s) - search_from)")
    (auto dest: mt_search_Some(1,2))

declare redact_loop.simps [simp del]

fun redact_patterns ::
  "engine \<Rightarrow> pystr \<Rightarrow> bool \<Rightarrow> pattern list \<Rightarrow> pystr \<Rightarrow> redaction_stats \<Rightarrow> pystr \<times> redaction_stats"
where
  "redact_patterns engine placeholder protect_tail [] s st = (s, st)"
| "redact_patterns engine placeholder protect_tail (p # ps) s st =
     (let (s', n) = redact_loop (engine (pt_expression p)) p placeholder protect_tail s 0 0
      in redact_patterns engine placeholder protect_tail ps s' ((stats_record (pt_name p) ^^ n) st))"

text \<open>\<open>_redact\<close>.\<close>

definition redact :: "regex_env \<Rightarrow> redactor \<Rightarrow> bool \<Rightarrow> pystr \<Rightarrow> pystr \<times> redactor" where
  "redact env r protect_tail s =
     (let (s', st) = redact_patterns (rx_engine env) (rd_placeholder r) protect_tail (rd_patterns r) s (rd_stats r)
      in (s', r\<lparr>rd_stats := st\<rparr>))"

section \<open>The stream\<close>

text \<open>\<open>_holdback_index\<close>.\<close>

definition unsafe_start :: "pystr \<Rightarrow> nat \<times> nat \<times> bool \<Rightarrow> bool" where
  "unsafe_start s = (\<lambda>(i, e, partial). partial \<or> e = length s)"

definition holdback_index :: "regex_env \<Rightarrow> pattern list \<Rightarrow> pystr \<Rightarrow> nat" where
  "holdback_index env patterns s =
     fold (\<lambda>p earliest.
        fold (\<lambda>span earliest. if unsafe_start s span then min earliest (fst span) else earliest)
          (mt_partial (rx_engine env (pt_expression p)) s) earliest)
       patterns (length s)"

definition drop_suppressed_prefix :: "regex_env \<Rightarrow> redactor \<Rightarrow> pystr \<Rightarrow> pystr \<times> redactor" where
  "drop_suppressed_prefix env r s =
     (let consumed = length (takeWhile (overlong_char (rx_word env)) s);
          r' = r\<lparr>rd_stats := (rd_stats r)\<lparr>st_suppressed_characters := st_suppressed_characters (rd_stats r) + consumed\<rparr>\<rparr>
      in if consumed = length s then ([], r')
         else (drop consumed s, r'\<lparr>rd_suppressing := False\<rparr>))"

definition fail_closed :: "redactor \<Rightarrow> pystr \<times> redactor" where
  "fail_closed r =
     (let held = length (rd_buffer r);
          st = stats_record OVERFLOW_COUNTER (rd_stats r)
      in (rd_placeholder r,
          r\<lparr>rd_stats := st\<lparr>st_suppressed_characters := st_suppressed_characters st + held\<rparr>,
            rd_buffer := [], rd_suppressing := True\<rparr>))"

text \<open>The part of \<open>feed\<close> after a suppressed prefix is gone.\<close>

definition absorb :: "regex_env \<Rightarrow> redactor \<Rightarrow> pystr \<Rightarrow> pystr \<times> redactor" where
  "absorb env r s =
     (let (buffer, r1) = redact env r True (rd_buffer r @ s);
          split = holdback_index env (rd_patterns r1) buffer;
          emit = take split buffer;
          r2 = r1\<lparr>rd_buffer := drop split buffer\<rparr>;
          (emit', r3) = (if length (rd_buffer r2) > rd_max_holdback r2
                         then (let (placeholder, r') = fail_closed r2 in (emit @ placeholder, r'))
                         else (emit, r2));
          st = rd_stats r3
      in (emit',
          r3\<lparr>rd_stats := st\<lparr>st_max_holdback_seen := max (st_max_holdback_seen st) (length (rd_buffer r3)),
                             st_characters_out := st_characters_out st + length emit'\<rparr>\<rparr>))"

definition feed_redactor :: "regex_env \<Rightarrow> redactor \<Rightarrow> pystr \<Rightarrow> pystr \<times> redactor" where
  "feed_redactor env r s =
     (if s = [] then ([], r)
      else
        (let r1 = r\<lparr>rd_stats := (rd_stats r)\<lparr>st_characters_in := st_characters_in (rd_stats r) + length s\<rparr>\<rparr>
         in if rd_suppressing r1 then
              (let (s', r2) = drop_suppressed_prefix env r1 s
               in if s' = [] then ([], r2) else absorb env r2 s')
            else absorb env r1 s))"

definition flush_redactor :: "regex_env \<Rightarrow> redactor \<Rightarrow> pystr \<times> redactor" where
  "flush_redactor env r =
     (let (remaining, r1) = redact env r False (rd_buffer r);
          st = rd_stats r1
      in (remaining,
          r1\<lparr>rd_buffer := [], rd_suppressing := False,
             rd_stats := st\<lparr>st_characters_out := st_characters_out st + length remaining\<rparr>\<rparr>))"

text \<open>A run of the stream: what every chunk released, and the redactor after it.\<close>

fun feed_chunks :: "regex_env \<Rightarrow> redactor \<Rightarrow> pystr list \<Rightarrow> pystr list \<times> redactor" where
  "feed_chunks env r [] = ([], r)"
| "feed_chunks env r (c # cs) =
     (let (emit, r1) = feed_redactor env r c; (emits, r2) = feed_chunks env r1 cs in (emit # emits, r2))"

definition process :: "regex_env \<Rightarrow> redactor \<Rightarrow> pystr list \<Rightarrow> pystr" where
  "process env r chunks =
     (let (emits, r1) = feed_chunks env r chunks in concat emits @ fst (flush_redactor env r1))"

text \<open>\<open>redact_text(text, patterns)\<close>, and with the default patterns.\<close>

definition redact_text_with :: "regex_env \<Rightarrow> pattern list \<Rightarrow> pystr \<Rightarrow> pystr option" where
  "redact_text_with env patterns s =
     map_option (\<lambda>r. process env r [s]) (stream_redactor patterns REDACTION_PLACEHOLDER None)"

definition redact_text :: "regex_env \<Rightarrow> pystr \<Rightarrow> pystr" where
  "redact_text env s = process env (default_redactor env) [s]"

lemma redact_text_default: "redact_text_with env (DEFAULT_PATTERNS (rx_digit env)) s = Some (redact_text env s)"
  by (simp add: redact_text_with_def redact_text_def default_redactor_init)

fun redact_leaves :: "regex_env \<Rightarrow> json \<Rightarrow> json" where
  "redact_leaves env (JStr s) = JStr (redact_text env s)"
| "redact_leaves env (JArr items) = JArr (map (redact_leaves env) items)"
| "redact_leaves env (JObj members) = JObj (map (\<lambda>(key, item). (key, redact_leaves env item)) members)"
| "redact_leaves env value = value"

section \<open>The scan, position by position\<close>

text \<open>What the loop accepts at a position: the end of the text it replaces there.\<close>

definition hit :: "matcher \<Rightarrow> pattern \<Rightarrow> bool \<Rightarrow> pystr \<Rightarrow> nat \<Rightarrow> nat option" where
  "hit m pattern protect_tail s i =
     (case mt_at m s i (length s) of
        None \<Rightarrow> None
      | Some end0 \<Rightarrow>
          (case validated_end m pattern s i end0 of
             None \<Rightarrow> None
           | Some e \<Rightarrow> if protect_tail \<and> e = length s then None else Some e))"

function scan :: "(nat \<Rightarrow> nat option) \<Rightarrow> nat \<Rightarrow> nat \<Rightarrow> (nat \<times> nat) list" where
  "scan h len i =
     (if i \<le> len then
        (case h i of None \<Rightarrow> scan h len (i + 1)
         | Some e \<Rightarrow> (i, e) # scan h len (if i < e then e else i + 1))
      else [])"
  by pat_completeness auto
termination
  by (relation "measure (\<lambda>(h, len, i). Suc len - i)") auto

declare scan.simps [simp del]

fun splice :: "pystr \<Rightarrow> pystr \<Rightarrow> nat \<Rightarrow> (nat \<times> nat) list \<Rightarrow> pystr" where
  "splice placeholder s position [] = drop position s"
| "splice placeholder s position ((i, e) # spans) = slice position i s @ placeholder @ splice placeholder s e spans"

lemma scan_skip: "(\<And>q. i \<le> q \<Longrightarrow> q < j \<Longrightarrow> h q = None) \<Longrightarrow> i \<le> j \<Longrightarrow> j \<le> Suc len \<Longrightarrow> scan h len i = scan h len j"
proof (induction "j - i" arbitrary: i)
  case (Suc k)
  then have "h i = None" "i \<le> len" by auto
  then have "scan h len i = scan h len (Suc i)"
    by (subst scan.simps) simp
  also have "\<dots> = scan h len j"
    using Suc by (intro Suc.hyps(1)) auto
  finally show ?case .
qed simp

lemma scan_end: "(\<And>q. i \<le> q \<Longrightarrow> q \<le> len \<Longrightarrow> h q = None) \<Longrightarrow> scan h len i = []"
proof (cases "i \<le> len")
  case True
  assume "\<And>q. i \<le> q \<Longrightarrow> q \<le> len \<Longrightarrow> h q = None"
  with True have "scan h len i = scan h len (Suc len)"
    by (intro scan_skip) auto
  then show ?thesis by (simp add: scan.simps [of h len "Suc len"])
qed (simp add: scan.simps)

lemma redact_loop_scan:
  "redact_loop m p ph protect s position i =
     (splice ph s position (scan (hit m p protect s) (length s) i), length (scan (hit m p protect s) (length s) i))"
proof (induction m p ph protect s position i rule: redact_loop.induct)
  case (1 m p ph protect s position i)
  let ?h = "hit m p protect s" and ?len = "length s"
  show ?case
  proof (cases "i \<le> ?len \<and> mt_search m s i \<noteq> None")
    case False
    then have "?h q = None" if "i \<le> q" "q \<le> ?len" for q
      using that by (auto simp: hit_def mt_search_None)
    then have "scan ?h ?len i = []"
      by (rule scan_end)
    with False show ?thesis
      by (subst redact_loop.simps, cases "mt_search m s i") auto
  next
    case True
    then obtain start end0 where found: "mt_search m s i = Some (start, end0)" and i: "i \<le> ?len"
      by auto
    note start = mt_search_Some [OF found]
    have skip: "scan ?h ?len i = scan ?h ?len start"
      using start by (intro scan_skip) (auto simp: hit_def)
    show ?thesis
    proof (cases "?h start")
      case None
      then have "scan ?h ?len start = scan ?h ?len (start + 1)"
        using start(2) by (subst scan.simps) simp
      note skip = skip [unfolded this]
      show ?thesis
      proof (cases "validated_end m p s start end0")
        case None
        with 1(1) [OF i found refl None] found i skip show ?thesis
          by (subst redact_loop.simps) simp
      next
        case (Some e)
        with \<open>?h start = None\<close> start(3) have "protect \<and> e = ?len"
          by (auto simp: hit_def split: if_splits)
        with 1(2) [OF i found refl Some this] found i skip Some show ?thesis
          by (subst redact_loop.simps) simp
      qed
    next
      case (Some e)
      then have e: "validated_end m p s start end0 = Some e" "\<not> (protect \<and> e = ?len)"
        using start(3) by (auto simp: hit_def split: option.splits if_splits)
      have "scan ?h ?len start = (start, e) # scan ?h ?len (if start < e then e else start + 1)"
        using start(2) Some by (subst scan.simps) simp
      with 1(3) [OF i found refl e(1,2)] show ?thesis
        using i found e skip by (subst redact_loop.simps) (auto simp: Let_def)
    qed
  qed
qed

lemma scan_step:
  "k \<le> len \<Longrightarrow> h k = Some e \<Longrightarrow> scan h len k = (k, e) # scan h len (if k < e then e else k + 1)"
  "k \<le> len \<Longrightarrow> h k = None \<Longrightarrow> scan h len k = scan h len (k + 1)"
  "\<not> k \<le> len \<Longrightarrow> scan h len k = []"
  by (simp_all add: scan.simps [of h len k])

lemma scan_sound: "(i, e) \<in> set (scan h len k) \<Longrightarrow> k \<le> i \<and> i \<le> len \<and> h i = Some e"
proof (induction h len k rule: scan.induct)
  case (1 h len k)
  show ?case
  proof (cases "k \<le> len \<and> h k \<noteq> None")
    case True
    then obtain e' where k: "k \<le> len" "h k = Some e'" by auto
    with "1.prems" "1.IH"(2) [OF k] show ?thesis
      by (auto simp: scan_step(1) split: if_splits)
  next
    case False
    with "1.prems" "1.IH"(1) show ?thesis
      by (cases "k \<le> len") (auto simp: scan_step(2,3))
  qed
qed

lemma scan_covers:
  "k \<le> q \<Longrightarrow> q \<le> len \<Longrightarrow> h q \<noteq> None \<Longrightarrow> \<exists>i e. (i, e) \<in> set (scan h len k) \<and> i \<le> q \<and> (q = i \<or> q < e)"
proof (induction h len k rule: scan.induct)
  case (1 h len k)
  then have k: "k \<le> len" by simp
  show ?case
  proof (cases "h k")
    case None
    with 1 have "k + 1 \<le> q" by (cases "k = q") auto
    with "1.IH"(1) [OF k None] "1.prems" show ?thesis
      unfolding scan_step(2) [where h = h, OF k None] by blast
  next
    case (Some e)
    show ?thesis
    proof (cases "q = k \<or> q < e")
      case True
      with "1.prems" show ?thesis
        unfolding scan_step(1) [where h = h, OF k Some] by (intro exI [of _ k] exI [of _ e]) auto
    next
      case False
      with "1.prems" have "(if k < e then e else k + 1) \<le> q" by auto
      from "1.IH"(2) [OF k Some this "1.prems"(2,3)] obtain i e'
        where "(i, e') \<in> set (scan h len (if k < e then e else k + 1))" "i \<le> q" "q = i \<or> q < e'"
        by blast
      then show ?thesis
        unfolding scan_step(1) [where h = h, OF k Some]
        by (intro exI [of _ i] exI [of _ e'] conjI list.set_intros(2))
    qed
  qed
qed

lemma scan_apart:
  assumes "\<And>i e. h i = Some e \<Longrightarrow> i \<le> e"
  shows "sorted_wrt (\<lambda>(i, e) (i', e'). e \<le> i' \<and> i < i') (scan h len k)"
  using assms
proof (induction h len k rule: scan.induct)
  case (1 h len k)
  show ?case
  proof (cases "k \<le> len \<and> h k \<noteq> None")
    case True
    then obtain e where e: "k \<le> len" "h k = Some e" "k \<le> e" using "1.prems" by auto
    have "\<forall>y \<in> set (scan h len (if k < e then e else k + 1)). case y of (i', e') \<Rightarrow> e \<le> i' \<and> k < i'"
    proof
      fix y
      assume y: "y \<in> set (scan h len (if k < e then e else k + 1))"
      obtain i' e' where "y = (i', e')" by fastforce
      with y scan_sound [of i' e' h len "if k < e then e else k + 1"] e(3)
      show "case y of (i', e') \<Rightarrow> e \<le> i' \<and> k < i'"
        by (simp split: if_splits)
    qed
    with "1.IH"(2) [OF e(1,2) "1.prems"] show ?thesis
      unfolding scan_step(1) [where h = h, OF e(1,2)] by (simp only: sorted_wrt.simps prod.case)
  next
    case False
    with "1.IH"(1) "1.prems" show ?thesis
      by (cases "k \<le> len") (auto simp: scan_step(2,3))
  qed
qed

section \<open>Backing off\<close>

lemma back_off_fuel:
  assumes "matcher_ok m" "0 < least"
  shows "end0 < n \<Longrightarrow> end0 < n' \<Longrightarrow> back_off n m p s start least end0 = back_off n' m p s start least end0"
proof (induction n arbitrary: n' end0)
  case (Suc n)
  obtain k where n': "n' = Suc k" using Suc.prems by (cases n') auto
  have "back_off n m p s start least (e - 1) = back_off k m p s start least (e - 1)"
    if e: "mt_at m s start end0 = Some e" and "least \<le> end0" for e
  proof -
    from matcher_okD(1) [OF assms(1) e] that assms(2) have "e \<le> end0" "0 < end0" by auto
    with Suc.prems n' show ?thesis
      by (intro Suc.IH) auto
  qed
  then show ?case
    by (auto simp: n' split: option.split)
qed simp

text \<open>
  The loop of \<open>_validated_end\<close> ends: with any engine whose matches end inside their
  limit, the rounds the model allows are never used up, so the function satisfies the equation
  of the source's loop, without a bound.
\<close>

theorem back_off_unrolls:
  assumes "matcher_ok m" "0 < least"
  shows "back_off (Suc end0) m p s start least end0 =
     (if least \<le> end0 then
        (case mt_at m s start end0 of
           None \<Rightarrow> None
         | Some e \<Rightarrow> if accepts p (slice start e s) then Some e
             else back_off (Suc (e - 1)) m p s start least (e - 1))
      else None)"
proof -
  have "back_off end0 m p s start least (e - 1) = back_off (Suc (e - 1)) m p s start least (e - 1)"
    if "mt_at m s start end0 = Some e" "least \<le> end0" for e
    using matcher_okD(1) [OF assms(1) that(1)] that(2) assms by (intro back_off_fuel) auto
  then show ?thesis
    by (auto split: option.split)
qed

lemma back_off_accepted: "back_off n m p s start least end0 = Some e \<Longrightarrow> accepts p (slice start e s)"
  by (induction n arbitrary: end0) (auto split: if_splits option.splits)

text \<open>
  A candidate the validator accepts is never hidden behind a longer one it rejects: with an
  engine that finds at least as long a match when its limit grows, the loop returns an accepted
  end no nearer than it.
\<close>

lemma back_off_longest:
  assumes "matcher_ok m" "0 < least" "start \<le> c" "least \<le> c" "mt_at m s start c = Some c"
    "accepts p (slice start c s)"
    and grows: "\<And>k. c \<le> k \<Longrightarrow> \<exists>e. mt_at m s start k = Some e \<and> c \<le> e"
  shows "c \<le> end0 \<Longrightarrow> end0 < n \<Longrightarrow> \<exists>e. back_off n m p s start least end0 = Some e \<and> c \<le> e"
proof (induction n arbitrary: end0)
  case (Suc n)
  obtain e where e: "mt_at m s start end0 = Some e" "c \<le> e"
    using grows [OF Suc.prems(1)] by auto
  show ?case
  proof (cases "accepts p (slice start e s)")
    case True
    with e Suc.prems assms(4) show ?thesis by auto
  next
    case False
    with assms(6) e(2) have "c < e" by (cases "c = e") auto
    moreover from matcher_okD(1) [OF assms(1) e(1)] have "e \<le> end0" by simp
    ultimately have "\<exists>e'. back_off n m p s start least (e - 1) = Some e' \<and> c \<le> e'"
      using Suc.prems by (intro Suc.IH) auto
    with False e Suc.prems assms(4) show ?thesis by auto
  qed
qed simp

lemma back_off_bounds:
  "matcher_ok m \<Longrightarrow> back_off n m p s i least end0 = Some e \<Longrightarrow> i \<le> e \<and> e \<le> end0"
proof (induction n arbitrary: end0)
  case (Suc n)
  then obtain e' where e': "mt_at m s i end0 = Some e'"
    by (auto split: if_splits option.splits)
  with matcher_okD(1) [OF Suc.prems(1) e'] Suc.prems Suc.IH [OF Suc.prems(1), of "e' - 1"] show ?case
    by (auto split: if_splits)
qed simp

lemma hit_cases:
  assumes "hit m p protect s i = Some e"
  obtains end0 where "mt_at m s i (length s) = Some end0" "validated_end m p s i end0 = Some e"
    "protect \<Longrightarrow> e \<noteq> length s"
  using assms by (auto simp: hit_def split: option.splits if_splits)

lemma hit_bounds:
  assumes "matcher_ok m" "hit m p protect s i = Some e"
  shows "i \<le> e" "e \<le> length s"
proof -
  obtain end0 where end0: "mt_at m s i (length s) = Some end0" and e: "validated_end m p s i end0 = Some e"
    by (rule hit_cases [OF assms(2)])
  have "i \<le> e \<and> e \<le> end0"
  proof (cases "pt_validate p")
    case None
    with e matcher_okD(1) [OF assms(1) end0] show ?thesis
      by (simp add: validated_end_def split: if_splits)
  next
    case (Some v)
    with e show ?thesis
      unfolding validated_end_def option.case(2) by (auto dest: back_off_bounds [OF assms(1)] simp del: back_off.simps)
  qed
  with matcher_okD(1) [OF assms(1) end0] show "i \<le> e" "e \<le> length s"
    by auto
qed

text \<open>
  C31. What one detector does to a text: it replaces disjoint stretches, in order, each at the
  position of an accepted match that ends where the stretch ends; and no position where an
  accepted match starts is left outside the stretches. Nothing else of the text changes.
\<close>

theorem redaction_is_exact:
  assumes "matcher_ok m"
  shows "\<exists>spans. redact_loop m p placeholder protect_tail s 0 0 = (splice placeholder s 0 spans, length spans) \<and>
     sorted_wrt (\<lambda>(i, e) (i', e'). e \<le> i' \<and> i < i') spans \<and>
     (\<forall>(i, e) \<in> set spans. i \<le> e \<and> e \<le> length s \<and> hit m p protect_tail s i = Some e) \<and>
     (\<forall>q \<le> length s. hit m p protect_tail s q \<noteq> None \<longrightarrow>
        (\<exists>i e. (i, e) \<in> set spans \<and> i \<le> q \<and> (q = i \<or> q < e)))"
proof -
  let ?h = "hit m p protect_tail s"
  let ?spans = "scan ?h (length s) 0"
  have sound: "\<forall>(i, e) \<in> set ?spans. i \<le> e \<and> e \<le> length s \<and> ?h i = Some e"
    using scan_sound [of _ _ ?h "length s" 0] hit_bounds [OF assms] by blast
  have apart: "sorted_wrt (\<lambda>(i, e) (i', e'). e \<le> i' \<and> i < i') ?spans"
    by (rule scan_apart) (rule hit_bounds(1) [OF assms])
  have covers: "\<forall>q \<le> length s. ?h q \<noteq> None \<longrightarrow> (\<exists>i e. (i, e) \<in> set ?spans \<and> i \<le> q \<and> (q = i \<or> q < e))"
    using scan_covers [of 0 _ "length s" ?h] by blast
  show ?thesis
    by (intro exI [of _ ?spans] conjI redact_loop_scan apart sound covers)
qed

section \<open>What a redactor keeps\<close>

lemma redact_frame [frame_simps]:
  "redact env r protect s = (s', r') \<Longrightarrow>
     rd_patterns r' = rd_patterns r \<and> rd_placeholder r' = rd_placeholder r \<and> rd_max_holdback r' = rd_max_holdback r \<and>
     rd_buffer r' = rd_buffer r \<and> rd_suppressing r' = rd_suppressing r"
  by (auto simp: redact_def Let_def split: prod.splits)

definition same_setup :: "redactor \<Rightarrow> redactor \<Rightarrow> bool" where
  "same_setup r r' \<longleftrightarrow>
     rd_patterns r' = rd_patterns r \<and> rd_placeholder r' = rd_placeholder r \<and> rd_max_holdback r' = rd_max_holdback r"

text \<open>The shape of a state between two chunks.\<close>

definition redactor_inv :: "redactor \<Rightarrow> bool" where
  "redactor_inv r \<longleftrightarrow> length (rd_buffer r) \<le> rd_max_holdback r \<and> (rd_suppressing r \<longrightarrow> rd_buffer r = [])"

lemma absorb_cases:
  assumes "redact env r True (rd_buffer r @ s) = (buffer, r1)" "split = holdback_index env (rd_patterns r) buffer"
  shows "length buffer - split \<le> rd_max_holdback r \<Longrightarrow>
      fst (absorb env r s) = take split buffer \<and> rd_buffer (snd (absorb env r s)) = drop split buffer \<and>
      rd_suppressing (snd (absorb env r s)) = rd_suppressing r"
    and "\<not> length buffer - split \<le> rd_max_holdback r \<Longrightarrow>
      fst (absorb env r s) = take split buffer @ rd_placeholder r \<and> rd_buffer (snd (absorb env r s)) = [] \<and>
      rd_suppressing (snd (absorb env r s))"
    and "same_setup r (snd (absorb env r s))"
  using assms redact_frame [OF assms(1)]
  by (auto simp: absorb_def fail_closed_def same_setup_def Let_def)

lemma same_setup_trans: "same_setup r r' \<Longrightarrow> same_setup r' r'' \<Longrightarrow> same_setup r r''"
  by (simp add: same_setup_def)

lemma drop_suppressed_frame:
  "drop_suppressed_prefix env r s = (s', r') \<Longrightarrow>
     same_setup r r' \<and> rd_buffer r' = rd_buffer r \<and> (s' \<noteq> [] \<longrightarrow> \<not> rd_suppressing r')"
  by (auto simp: drop_suppressed_prefix_def same_setup_def Let_def split: if_splits)

lemma absorb_inv: "(rd_suppressing r \<longrightarrow> False) \<Longrightarrow> redactor_inv (snd (absorb env r s)) \<and> same_setup r (snd (absorb env r s))"
proof -
  assume live: "rd_suppressing r \<longrightarrow> False"
  obtain buffer r1 where 1: "redact env r True (rd_buffer r @ s) = (buffer, r1)" by fastforce
  note cases = absorb_cases [OF 1 refl]
  show ?thesis
  proof (cases "length buffer - holdback_index env (rd_patterns r) buffer \<le> rd_max_holdback r")
    case True
    with cases(1) [OF True] cases(3) live show ?thesis
      by (simp add: redactor_inv_def same_setup_def)
  next
    case False
    with cases(2) [OF False] cases(3) live show ?thesis
      by (simp add: redactor_inv_def same_setup_def)
  qed
qed

lemma same_setup_stats [simp]: "same_setup r (r'\<lparr>rd_stats := st\<rparr>) = same_setup r r'"
    "same_setup (r\<lparr>rd_stats := st\<rparr>) r' = same_setup r r'"
  by (simp_all add: same_setup_def)

lemma feed_inv: "redactor_inv r \<Longrightarrow> redactor_inv (snd (feed_redactor env r s)) \<and> same_setup r (snd (feed_redactor env r s))"
proof (cases "s = []")
  case False
  assume inv: "redactor_inv r"
  let ?r = "r\<lparr>rd_stats := (rd_stats r)\<lparr>st_characters_in := st_characters_in (rd_stats r) + length s\<rparr>\<rparr>"
  show ?thesis
  proof (cases "rd_suppressing r")
    case True
    obtain s' r2 where 2: "drop_suppressed_prefix env ?r s = (s', r2)" by fastforce
    note frame = drop_suppressed_frame [OF 2]
    show ?thesis
    proof (cases "s' = []")
      case True
      with 2 \<open>s \<noteq> []\<close> \<open>rd_suppressing r\<close> frame inv show ?thesis
        by (simp add: feed_redactor_def Let_def redactor_inv_def same_setup_def)
    next
      case False
      with frame absorb_inv [of r2 env s'] 2 \<open>s \<noteq> []\<close> \<open>rd_suppressing r\<close> show ?thesis
        by (auto simp: feed_redactor_def Let_def intro: same_setup_trans)
    qed
  next
    case False
    with absorb_inv [of ?r env s] \<open>s \<noteq> []\<close> show ?thesis
      by (simp add: feed_redactor_def Let_def)
  qed
qed (simp add: feed_redactor_def same_setup_def)

lemma feed_chunks_inv: "redactor_inv r \<Longrightarrow> redactor_inv (snd (feed_chunks env r cs)) \<and> same_setup r (snd (feed_chunks env r cs))"
proof (induction cs arbitrary: r)
  case (Cons c cs)
  with feed_inv [OF Cons.prems] have "redactor_inv (snd (feed_redactor env r c))" by simp
  from Cons.IH [OF this] feed_inv [OF Cons.prems, of env c] show ?case
    by (auto simp: Let_def split: prod.splits intro: same_setup_trans)
qed (simp add: same_setup_def)

text \<open>
  Memory is bounded: after any chunks of a stream, however many and however long, at most
  the ceiling is held back, and nothing is held while a run is suppressed.
\<close>

theorem holdback_bounded:
  "length (rd_buffer (snd (feed_chunks env (fresh_redactor ps ph limit) chunks))) \<le> limit \<and>
   (rd_suppressing (snd (feed_chunks env (fresh_redactor ps ph limit) chunks)) \<longrightarrow>
    rd_buffer (snd (feed_chunks env (fresh_redactor ps ph limit) chunks)) = [])"
proof -
  have "redactor_inv (fresh_redactor ps ph limit)"
    by (simp add: redactor_inv_def fresh_redactor_def)
  from feed_chunks_inv [OF this, of env chunks] show ?thesis
    by (simp add: redactor_inv_def same_setup_def fresh_redactor_def)
qed

section \<open>An over-long run\<close>

lemma redact_patterns_stats:
  "fst (redact_patterns engine ph protect ps s st) = fst (redact_patterns engine ph protect ps s st')"
  by (induction ps arbitrary: s st st') (simp_all add: case_prod_unfold Let_def)

text \<open>What is released does not depend on the statistics.\<close>

definition same_text :: "redactor \<Rightarrow> redactor \<Rightarrow> bool" where
  "same_text r r' \<longleftrightarrow> same_setup r r' \<and> rd_buffer r' = rd_buffer r \<and> rd_suppressing r' = rd_suppressing r"

lemma redact_same_text: "same_text r r' \<Longrightarrow> fst (redact env r b s) = fst (redact env r' b s)"
  using redact_patterns_stats
  by (auto simp: redact_def same_text_def same_setup_def Let_def case_prod_unfold)

lemma absorb_same_text:
  assumes "same_text r r'"
  shows "fst (absorb env r s) = fst (absorb env r' s) \<and> same_text (snd (absorb env r s)) (snd (absorb env r' s))"
proof -
  obtain buffer r1 where 1: "redact env r True (rd_buffer r @ s) = (buffer, r1)" by fastforce
  obtain buffer' r1' where 2: "redact env r' True (rd_buffer r' @ s) = (buffer', r1')" by fastforce
  have b: "buffer' = buffer"
    using redact_same_text [OF assms, of env True "rd_buffer r @ s"] 1 2 assms by (simp add: same_text_def)
  note cases = absorb_cases [OF 1 refl] and other = absorb_cases [OF 2 refl]
  show ?thesis
  proof (cases "length buffer - holdback_index env (rd_patterns r) buffer \<le> rd_max_holdback r")
    case True
    with cases(1) [OF True] cases(3) other b assms show ?thesis
      by (simp add: same_text_def same_setup_def)
  next
    case False
    with cases(2) [OF False] cases(3) other b assms show ?thesis
      by (simp add: same_text_def same_setup_def)
  qed
qed

lemma drop_suppressed_run:
  assumes "\<forall>c \<in> set run. overlong_char (rx_word env) c"
  shows "drop_suppressed_prefix env r run =
      ([], r\<lparr>rd_stats := (rd_stats r)\<lparr>st_suppressed_characters := st_suppressed_characters (rd_stats r) + length run\<rparr>\<rparr>)"
    and "\<not> overlong_char (rx_word env) x \<Longrightarrow>
      fst (drop_suppressed_prefix env r (run @ x # rest)) = x # rest \<and>
      same_text (r\<lparr>rd_suppressing := False\<rparr>) (snd (drop_suppressed_prefix env r (run @ x # rest)))"
proof -
  have all: "takeWhile (overlong_char (rx_word env)) run = run"
    using assms by (simp add: takeWhile_eq_all_conv)
  show "drop_suppressed_prefix env r run =
      ([], r\<lparr>rd_stats := (rd_stats r)\<lparr>st_suppressed_characters := st_suppressed_characters (rd_stats r) + length run\<rparr>\<rparr>)"
    unfolding drop_suppressed_prefix_def all Let_def by simp
  assume "\<not> overlong_char (rx_word env) x"
  with assms have "takeWhile (overlong_char (rx_word env)) (run @ x # rest) = run"
    by (simp add: takeWhile_append)
  then show "fst (drop_suppressed_prefix env r (run @ x # rest)) = x # rest \<and>
      same_text (r\<lparr>rd_suppressing := False\<rparr>) (snd (drop_suppressed_prefix env r (run @ x # rest)))"
    by (simp add: drop_suppressed_prefix_def same_text_def same_setup_def)
qed

lemma feed_suppressed:
  assumes "rd_suppressing r" "\<forall>c \<in> set run. overlong_char (rx_word env) c"
  shows "fst (feed_redactor env r run) = [] \<and> same_text r (snd (feed_redactor env r run)) \<and>
    st_suppressed_characters (rd_stats (snd (feed_redactor env r run))) = st_suppressed_characters (rd_stats r) + length run"
  using assms by (simp add: feed_redactor_def Let_def drop_suppressed_run(1) same_text_def same_setup_def)

lemma feeds_suppressed:
  "rd_suppressing r \<Longrightarrow> \<forall>c \<in> set (concat chunks). overlong_char (rx_word env) c \<Longrightarrow>
   concat (fst (feed_chunks env r chunks)) = [] \<and> same_text r (snd (feed_chunks env r chunks)) \<and>
   st_suppressed_characters (rd_stats (snd (feed_chunks env r chunks))) =
     st_suppressed_characters (rd_stats r) + length (concat chunks)"
proof (induction chunks arbitrary: r)
  case (Cons c cs)
  obtain r1 where 1: "feed_redactor env r c = ([], r1)" "same_text r r1"
      "st_suppressed_characters (rd_stats r1) = st_suppressed_characters (rd_stats r) + length c"
    using feed_suppressed [of r c env] Cons.prems by (cases "feed_redactor env r c") auto
  then have "rd_suppressing r1" using Cons.prems(1) by (simp add: same_text_def)
  from Cons.IH [OF this] 1 Cons.prems(2) show ?case
    by (auto simp: Let_def same_text_def same_setup_def split: prod.splits)
qed (simp add: same_text_def same_setup_def)

text \<open>
  C32. An over-long run cannot leak piece by piece: once its head was replaced by the
  placeholder, whatever the chunks it goes on in, none of its characters is released, every one
  of them is counted as suppressed, and the text after the run is treated as if the redactor
  had never suppressed anything.
\<close>

theorem overlong_run_suppressed:
  assumes "rd_suppressing r" "\<forall>c \<in> set (concat chunks @ run). overlong_char (rx_word env) c"
    "\<not> overlong_char (rx_word env) x"
  shows "concat (fst (feed_chunks env r chunks)) = [] \<and>
    st_suppressed_characters (rd_stats (snd (feed_chunks env r chunks))) =
      st_suppressed_characters (rd_stats r) + length (concat chunks) \<and>
    fst (feed_redactor env (snd (feed_chunks env r chunks)) (run @ x # rest)) =
      fst (feed_redactor env (r\<lparr>rd_suppressing := False\<rparr>) (x # rest))"
proof -
  note run = feeds_suppressed [of r chunks env]
  let ?r = "snd (feed_chunks env r chunks)"
  have r: "rd_suppressing ?r" "same_text r ?r" using run assms by (auto simp: same_text_def)
  let ?q = "?r\<lparr>rd_stats := (rd_stats ?r)\<lparr>st_characters_in := st_characters_in (rd_stats ?r) + length (run @ x # rest)\<rparr>\<rparr>"
  obtain q where q: "drop_suppressed_prefix env ?q (run @ x # rest) = (x # rest, q)"
      "same_text (?q\<lparr>rd_suppressing := False\<rparr>) q"
    using drop_suppressed_run(2) [of run env x ?q rest] assms
    by (cases "drop_suppressed_prefix env ?q (run @ x # rest)") simp
  have "fst (feed_redactor env ?r (run @ x # rest)) = fst (absorb env q (x # rest))"
    using r(1) q(1) by (simp add: feed_redactor_def Let_def)
  also have "\<dots> = fst (absorb env (?q\<lparr>rd_suppressing := False\<rparr>) (x # rest))"
    using absorb_same_text [OF q(2)] by simp
  also have "\<dots> = fst (feed_redactor env (r\<lparr>rd_suppressing := False\<rparr>) (x # rest))"
  proof -
    have "fst (feed_redactor env (r\<lparr>rd_suppressing := False\<rparr>) (x # rest)) = fst (absorb env
        (r\<lparr>rd_suppressing := False, rd_stats := (rd_stats r)\<lparr>st_characters_in := st_characters_in (rd_stats r) + length (x # rest)\<rparr>\<rparr>) (x # rest))"
      by (simp add: feed_redactor_def Let_def)
    also have "\<dots> = fst (absorb env (?q\<lparr>rd_suppressing := False\<rparr>) (x # rest))"
      using r(2) by (intro conjunct1 [OF absorb_same_text]) (simp add: same_text_def same_setup_def)
    finally show ?thesis by simp
  qed
  finally show ?thesis using run assms by simp
qed

section \<open>Text no detector has anything to say about\<close>

definition inert :: "regex_env \<Rightarrow> pattern list \<Rightarrow> pystr \<Rightarrow> bool" where
  "inert env ps s \<longleftrightarrow> (\<forall>p \<in> set ps.
     (\<forall>i \<in> set [0..<Suc (length s)]. mt_at (rx_engine env (pt_expression p)) s i (length s) = None) \<and>
     (\<forall>span \<in> set (mt_partial (rx_engine env (pt_expression p)) s). unsafe_start s span \<longrightarrow> length s \<le> fst span))"

lemma redact_loop_none:
  "(\<And>i. i \<le> length s \<Longrightarrow> hit m p b s i = None) \<Longrightarrow> redact_loop m p ph b s 0 0 = (s, 0)"
  by (simp add: redact_loop_scan scan_end)

lemma redact_patterns_inert: "inert env ps s \<Longrightarrow> redact_patterns (rx_engine env) ph b ps s st = (s, st)"
proof (induction ps arbitrary: st)
  case (Cons p ps)
  then have "hit (rx_engine env (pt_expression p)) p b s i = None" if "i \<le> length s" for i
    using that Cons.prems by (simp add: inert_def hit_def del: upt_Suc)
  with Cons show ?case by (simp add: redact_loop_none inert_def)
qed simp

lemma holdback_fold:
  assumes "fold (\<lambda>span earliest. if unsafe_start s span then min earliest (fst span) else earliest) spans k = h"
  shows "h \<le> k \<and> (\<forall>span \<in> set spans. unsafe_start s span \<longrightarrow> h \<le> fst span) \<and>
    (h = k \<or> (\<exists>span \<in> set spans. unsafe_start s span \<and> h = fst span))"
  using assms
proof (induction spans arbitrary: k)
  case (Cons span spans)
  from Cons.IH [of "if unsafe_start s span then min k (fst span) else k"] Cons.prems show ?case
    by (auto simp: min_def split: if_splits)
qed simp

lemma holdback_index_inert: "inert env ps s \<Longrightarrow> holdback_index env ps s = length s"
proof -
  have fixed: "fold (\<lambda>span earliest. if unsafe_start s span then min earliest (fst span) else earliest) spans (length s) = length s"
    if "\<forall>span \<in> set spans. unsafe_start s span \<longrightarrow> length s \<le> fst span" for spans
    using that by (induction spans) (auto simp: min_def)
  show "inert env ps s \<Longrightarrow> holdback_index env ps s = length s"
    unfolding holdback_index_def inert_def by (induction ps) (auto simp: fixed)
qed

lemma feed_inert:
  assumes "inert env (rd_patterns r) s" "rd_buffer r = []" "\<not> rd_suppressing r"
  shows "fst (feed_redactor env r s) = s \<and> same_text r (snd (feed_redactor env r s))"
proof (cases "s = []")
  case False
  let ?r = "r\<lparr>rd_stats := (rd_stats r)\<lparr>st_characters_in := st_characters_in (rd_stats r) + length s\<rparr>\<rparr>"
  have "redact env ?r True (rd_buffer ?r @ s) = (s, ?r)"
    using assms by (simp add: redact_def redact_patterns_inert)
  from absorb_cases [OF this refl] holdback_index_inert [OF assms(1)] assms False show ?thesis
    by (simp add: feed_redactor_def Let_def same_text_def same_setup_def)
qed (simp add: feed_redactor_def same_text_def same_setup_def)

text \<open>
  Prose flows: if no detector matches inside a chunk or can still match at its end, each
  chunk is released unchanged as soon as it is fed, and nothing is held.
\<close>

theorem prose_flows:
  assumes "\<forall>c \<in> set chunks. inert env ps c"
  shows "fst (feed_chunks env (fresh_redactor ps ph limit) chunks) = chunks \<and>
    rd_buffer (snd (feed_chunks env (fresh_redactor ps ph limit) chunks)) = []"
proof -
  have "fst (feed_chunks env r chunks) = chunks \<and> rd_buffer (snd (feed_chunks env r chunks)) = []"
    if "rd_patterns r = ps" "rd_buffer r = []" "\<not> rd_suppressing r" for r
    using that assms
  proof (induction chunks arbitrary: r)
    case (Cons c cs)
    obtain r1 where 1: "feed_redactor env r c = (c, r1)" "same_text r r1"
      using feed_inert [of env r c] Cons.prems by (cases "feed_redactor env r c") auto
    with Cons.IH [of r1] Cons.prems show ?case
      by (auto simp: Let_def same_text_def same_setup_def split: prod.splits)
  qed simp
  then show ?thesis by (simp add: fresh_redactor_def)
qed

section \<open>The leaves of a JSON value\<close>

text \<open>A value with its string leaves blanked: its shape, its keys, its other scalars.\<close>

fun skeleton :: "json \<Rightarrow> json" where
  "skeleton (JStr s) = JStr []"
| "skeleton (JArr items) = JArr (map skeleton items)"
| "skeleton (JObj members) = JObj (map (\<lambda>(key, item). (key, skeleton item)) members)"
| "skeleton value = value"

text \<open>
  Failing closed on an unknown shape: whatever the JSON value, every string leaf of the result
  is the redacted one, in the same place; keys, order and the other scalars stay.
\<close>

lemma redacted_leaves:
  "leaves (redact_leaves env v) = map (redact_text env) (leaves v) \<and>
   skeleton (redact_leaves env v) = skeleton v"
proof (induction v)
  case (JArr items)
  then show ?case
    by (induction items) auto
next
  case (JObj members)
  have "\<forall>member \<in> set members. leaves (redact_leaves env (snd member)) = map (redact_text env) (leaves (snd member)) \<and>
      skeleton (redact_leaves env (snd member)) = skeleton (snd member)"
    using JObj by fastforce
  then show ?case
    by (induction members) auto
qed auto

end
