(* ===== verification/Gd_Exact.thy ===== *)
theory Gd_Exact
  imports Gd_Redactor
begin

text \<open>
  The promise of the redactor, for a detector of fixed length: however a text is cut into
  chunks, the stream redacts to what the whole text redacts to. The argument is made once, for
  any such detector (\<open>fixed_pattern\<close>), and applied to the SSN detector with any engine that
  reads its expression as documented (\<open>ssn_engine\<close>). \<open>demo_engine\<close> is such an engine; the
  examples of the redactor are evaluated on it.
\<close>

section \<open>Replacing every match\<close>

text \<open>The whole text, left to right: a match of length \<open>n\<close> becomes the placeholder.\<close>

fun replace_all :: "(pystr \<Rightarrow> bool) \<Rightarrow> nat \<Rightarrow> pystr \<Rightarrow> pystr \<Rightarrow> pystr" where
  "replace_all ok n ph [] = []"
| "replace_all ok n ph (c # s) =
     (if ok (take n (c # s)) then ph @ replace_all ok n ph (drop (n - 1) s)
      else c # replace_all ok n ph s)"

text \<open>The same while more may come: a match at the very end stays.\<close>

fun replace_settled :: "(pystr \<Rightarrow> bool) \<Rightarrow> nat \<Rightarrow> pystr \<Rightarrow> pystr \<Rightarrow> pystr" where
  "replace_settled ok n ph [] = []"
| "replace_settled ok n ph (c # s) =
     (if ok (take n (c # s)) \<and> n < length (c # s) then ph @ replace_settled ok n ph (drop (n - 1) s)
      else c # replace_settled ok n ph s)"

locale fixed_pattern =
  fixes ok :: "pystr \<Rightarrow> bool" and n :: nat and ph :: pystr
  assumes ok_length: "ok w \<Longrightarrow> length w = n"
    and positive: "0 < n"
    and ph_nonempty: "ph \<noteq> []"
    and ph_foreign: "ok w \<Longrightarrow> c \<in> set ph \<Longrightarrow> c \<notin> set w"
begin

abbreviation "whole \<equiv> replace_all ok n ph"

abbreviation "settled \<equiv> replace_settled ok n ph"

lemma take_ok: "ok (take n s) \<Longrightarrow> n \<le> length s"
  using ok_length by fastforce

lemma drop_tail: "drop (n - 1) s = drop n (c # s)"
  using positive by (cases n) auto

text \<open>Text before a placeholder is read on its own.\<close>

lemma ok_before_ph:
  assumes "ok (take n (a @ ph @ b))"
  shows "n \<le> length a"
proof (rule ccontr)
  assume "\<not> n \<le> length a"
  then obtain m where "n - length a = Suc m" by (cases "n - length a") auto
  then have "hd ph \<in> set (take n (a @ ph @ b))"
    using ph_nonempty by (cases ph) auto
  with ph_foreign [OF assms] ph_nonempty show False by auto
qed

lemma whole_ph: "set p \<subseteq> set ph \<Longrightarrow> whole (p @ s) = p @ whole s"
proof (induction p)
  case (Cons c p)
  have "\<not> ok (take n ((c # p) @ s))"
  proof
    assume ok: "ok (take n ((c # p) @ s))"
    have "c \<in> set (take n ((c # p) @ s))"
      using positive by (cases n) auto
    with ph_foreign [OF ok] Cons.prems show False by auto
  qed
  with Cons show ?case by simp
qed simp

lemma settled_shape:
  "settled t = t \<or> (\<exists>k r. settled t = take k t @ ph @ r \<and> k + n < length t \<and> ok (take n (drop k t)))"
proof (induction t)
  case (Cons c t)
  show ?case
  proof (cases "ok (take n (c # t)) \<and> n < length (c # t)")
    case True
    then show ?thesis by (intro disjI2 exI [of _ 0]) auto
  next
    case False
    from Cons show ?thesis
    proof
      assume "\<exists>k r. settled t = take k t @ ph @ r \<and> k + n < length t \<and> ok (take n (drop k t))"
      then obtain k r where "settled t = take k t @ ph @ r" "k + n < length t" "ok (take n (drop k t))" by blast
      with False show ?thesis by (intro disjI2 exI [of _ "Suc k"]) auto
    qed (use False in auto)
  qed
qed simp

lemma settled_short: "length t \<le> n \<Longrightarrow> settled t = t"
  using settled_shape [of t] by auto

lemma ok_settled:
  assumes "ok (take n (c # settled t @ u))"
  shows "ok (take n (c # t @ u)) \<and> (n \<le> length (c # t) \<or> settled t = t)"
  using settled_shape [of t]
proof
  assume "\<exists>k r. settled t = take k t @ ph @ r \<and> k + n < length t \<and> ok (take n (drop k t))"
  then obtain k r where k: "settled t = take k t @ ph @ r" "k + n < length t" by blast
  with assms have "n \<le> length (c # take k t)"
    by (intro ok_before_ph [of "c # take k t" "r @ u"]) simp
  with k have "n \<le> Suc k" "k < length t" by auto
  then have "take n (c # settled t @ u) = take n (c # t @ u)"
    unfolding k(1) using positive by (cases n) (auto simp: take_append min_def)
  with assms k \<open>n \<le> Suc k\<close> show ?thesis by auto
qed (use assms in auto)

lemma whole_settled: "whole (t @ u) = whole (settled t @ u)"
proof (induction t rule: length_induct)
  case (1 t)
  show ?case
  proof (cases t)
    case (Cons c s)
    show ?thesis
    proof (cases "ok (take n t) \<and> n < length t")
      case True
      with Cons have "whole (t @ u) = ph @ whole (drop (n - 1) s @ u)"
        using positive by (cases n) auto
      also have "\<dots> = ph @ whole (settled (drop (n - 1) s) @ u)"
        using 1 [rule_format, of "drop (n - 1) s"] Cons by simp
      also have "\<dots> = whole (settled t @ u)"
        using True Cons by (simp add: whole_ph)
      finally show ?thesis .
    next
      case False
      then have settled: "settled t = c # settled s" using Cons by auto
      show ?thesis
      proof (cases "ok (take n (t @ u))")
        case True
        with False have "length t \<le> n"
          by (metis append_take_drop_id linorder_not_le nat_less_le take_all_iff take_append take_eq_Nil append_Nil2 diff_is_0_eq)
        then show ?thesis by (simp add: settled_short)
      next
        case no: False
        then have "\<not> ok (take n (c # settled s @ u))"
          using ok_settled [of c s u] Cons by auto
        with no settled Cons 1 [rule_format, of s] show ?thesis by simp
      qed
    qed
  qed simp
qed

lemma settled_clean: "i + n < length (settled t) \<Longrightarrow> \<not> ok (take n (drop i (settled t)))"
proof (induction t arbitrary: i rule: length_induct)
  case (1 t)
  show ?case
  proof (cases t)
    case (Cons c s)
    show ?thesis
    proof (cases "ok (take n t) \<and> n < length t")
      case True
      with Cons have eq: "settled t = ph @ settled (drop (n - 1) s)" by simp
      show ?thesis
      proof (cases "i < length ph")
        case True
        then have "take n (drop i (settled t)) = ph ! i # take (n - 1) (drop (Suc i) (settled t))"
          unfolding eq using positive by (cases n) (simp_all add: Cons_nth_drop_Suc [symmetric] nth_append)
        with True ph_foreign [of "take n (drop i (settled t))" "ph ! i"] show ?thesis by auto
      next
        case False
        then have "drop i (settled t) = drop (i - length ph) (settled (drop (n - 1) s))"
          unfolding eq by simp
        with 1(1) [rule_format, of "drop (n - 1) s" "i - length ph"] Cons 1(2) eq False show ?thesis
          by simp
      qed
    next
      case False
      with Cons have eq: "settled t = c # settled s" by auto
      show ?thesis
      proof (cases i)
        case 0
        show ?thesis
        proof
          assume "ok (take n (drop i (settled t)))"
          with 0 eq have ok: "ok (take n (c # settled s @ []))" by simp
          from ok_settled [OF ok] Cons have "ok (take n t)" "n \<le> length t \<or> settled s = s" by auto
          moreover have "n \<noteq> length t"
            using settled_short [of t] 1(2) by auto
          ultimately show False using False take_ok [of t] by auto
        qed
      next
        case (Suc j)
        with eq 1(1) [rule_format, of s j] 1(2) Cons show ?thesis by simp
      qed
    qed
  qed (use 1(2) in simp)
qed

lemma whole_cut:
  "h \<le> length w \<Longrightarrow> (\<And>i. i < h \<Longrightarrow> \<not> ok (take n (drop i w))) \<Longrightarrow> whole w = take h w @ whole (drop h w)"
proof (induction h arbitrary: w)
  case (Suc h)
  then obtain c s where w: "w = c # s" by (cases w) auto
  have "\<not> ok (take n (drop i s))" if "i < h" for i
    using Suc.prems(2) [of "Suc i"] that w by simp
  with Suc.IH [of s] Suc.prems w Suc.prems(2) [of 0] show ?case by simp
qed simp

lemma settled_sentinel: "settled (t @ ph) = whole t @ ph"
proof (induction t rule: length_induct)
  case (1 t)
  show ?case
  proof (cases t)
    case Nil
    have "settled p = p" if "set p \<subseteq> set ph" for p
      using that
    proof (induction p)
      case (Cons c p)
      have "c \<in> set (take n (c # p))" using positive by (cases n) auto
      with ph_foreign [of "take n (c # p)" c] Cons show ?case by auto
    qed simp
    with Nil show ?thesis by simp
  next
    case (Cons c s)
    have fits: "n \<le> length (c # s)" if "ok (take n (c # s @ ph))"
      using ok_before_ph [of "c # s" "[]"] that by simp
    have eq: "take n ((c # s) @ ph) = take n (c # s)" "n < length ((c # s) @ ph)" if "n \<le> length (c # s)"
    proof -
      show "take n ((c # s) @ ph) = take n (c # s)" unfolding take_append using that by simp
      show "n < length ((c # s) @ ph)" using that ph_nonempty by (auto simp: neq_Nil_conv)
    qed
    have same: "ok (take n ((c # s) @ ph)) \<and> n < length ((c # s) @ ph) \<longleftrightarrow> ok (take n (c # s))"
    proof
      assume "ok (take n ((c # s) @ ph)) \<and> n < length ((c # s) @ ph)"
      with fits eq(1) show "ok (take n (c # s))" by (metis append_Cons)
    next
      assume "ok (take n (c # s))"
      with take_ok [OF this] eq show "ok (take n ((c # s) @ ph)) \<and> n < length ((c # s) @ ph)" by metis
    qed
    show ?thesis
    proof (cases "ok (take n (c # s))")
      case True
      with take_ok [OF True] have "drop (n - 1) (s @ ph) = drop (n - 1) s @ ph" by auto
      with same True 1 [rule_format, of "drop (n - 1) s"] Cons show ?thesis by simp
    next
      case False
      with same 1 [rule_format, of s] Cons show ?thesis by auto
    qed
  qed
qed

text \<open>No match is left in the result.\<close>

lemma whole_clean: "\<not> ok (take n (drop i (whole t)))"
proof
  assume ok: "ok (take n (drop i (whole t)))"
  then have fits: "n \<le> length (whole t) - i" using take_ok by fastforce
  with positive have i: "i + n \<le> length (whole t)" by auto
  with ph_nonempty have "i + n < length (settled (t @ ph))" by (auto simp: settled_sentinel neq_Nil_conv)
  from settled_clean [OF this] ok i show False by (simp add: settled_sentinel)
qed

text \<open>
  The step of the stream: settle what is pending, release what no match can reach any more.
\<close>

lemma stream_step:
  assumes "h \<le> length (settled t)" "\<And>i v. i < h \<Longrightarrow> \<not> ok (drop i (settled t) @ v)"
  shows "whole (t @ u) = take h (settled t) @ whole (drop h (settled t) @ u)"
proof -
  let ?w = "settled t"
  have "\<not> ok (take n (drop i (?w @ u)))" if i: "i < h" for i
  proof (cases "i + n < length ?w")
    case True
    then show ?thesis using settled_clean [of i t] by simp
  next
    case False
    with i assms(1) have "take n (drop i (?w @ u)) = drop i ?w @ take (n - (length ?w - i)) u"
      by simp
    with assms(2) [OF i] show ?thesis by metis
  qed
  then have "whole (?w @ u) = take h (?w @ u) @ whole (drop h (?w @ u))"
    using assms(1) by (intro whole_cut) auto
  with assms(1) whole_settled [of t u] show ?thesis by simp
qed

end

section \<open>The SSN detector\<close>

text \<open>
  The expression read out: three digits, a hyphen, two digits, a hyphen, four digits; the
  first group is not 000, 666 or 9xx, the second not 00, the third not 0000. A digit is
  \<open>0\<close> to \<open>9\<close> in ASCII and, beyond, a decimal digit of the engine's database (\<open>nd\<close>).
\<close>

definition re_digit :: "(nat \<Rightarrow> bool) \<Rightarrow> nat \<Rightarrow> bool" where
  "re_digit nd c \<longleftrightarrow> (if c < 128 then is_digit c else nd c)"

definition ssn_classes :: "(nat \<Rightarrow> bool) \<Rightarrow> (nat \<Rightarrow> bool) list" where
  "ssn_classes d = [d, d, d, (=) 45, d, d, (=) 45, d, d, d, d]"

definition ssn_shape :: "(nat \<Rightarrow> bool) \<Rightarrow> pystr \<Rightarrow> bool" where
  "ssn_shape nd w \<longleftrightarrow>
     list_all2 (\<lambda>p c. p c) (ssn_classes (re_digit nd)) w \<and>
     take 3 w \<noteq> str ''000'' \<and> take 3 w \<noteq> str ''666'' \<and> take 1 w \<noteq> str ''9'' \<and>
     slice 4 6 w \<noteq> str ''00'' \<and> slice 7 11 w \<noteq> str ''0000''"

text \<open>
  What the code relies on of an engine for this expression: \<open>match\<close> and \<open>search\<close> find
  exactly that shape; \<open>finditer(partial=True)\<close> reports no later than where text that more
  input could turn into a match begins, and nothing that is longer than a match and touches
  the end.
\<close>

definition ssn_engine :: "(nat \<Rightarrow> bool) \<Rightarrow> matcher \<Rightarrow> bool" where
  "ssn_engine nd m \<longleftrightarrow>
     (\<forall>s i. i \<le> length s \<longrightarrow>
        mt_at m s i (length s) = (if ssn_shape nd (take 11 (drop i s)) then Some (i + 11) else None)) \<and>
     (\<forall>s i v. i < length s \<longrightarrow> ssn_shape nd (drop i s @ v) \<longrightarrow>
        (\<exists>span \<in> set (mt_partial m s). unsafe_start s span \<and> fst span \<le> i)) \<and>
     (\<forall>s. \<forall>span \<in> set (mt_partial m s). unsafe_start s span \<longrightarrow> length s \<le> fst span + 11)"

lemma ssn_shape_length: "ssn_shape nd w \<Longrightarrow> length w = 11"
  by (auto simp: ssn_shape_def ssn_classes_def dest!: list_all2_lengthD)

lemma ssn_shape_chars: "ssn_shape nd w \<Longrightarrow> c \<in> set w \<Longrightarrow> re_digit nd c \<or> c = 45"
proof -
  assume "ssn_shape nd w" "c \<in> set w"
  then obtain i where i: "i < length w" "c = w ! i" "list_all2 (\<lambda>p c. p c) (ssn_classes (re_digit nd)) w"
    by (auto simp: in_set_conv_nth ssn_shape_def)
  then have "(ssn_classes (re_digit nd) ! i) c" "ssn_classes (re_digit nd) ! i \<in> set (ssn_classes (re_digit nd))"
    by (auto simp: list_all2_conv_all_nth)
  then show ?thesis
    by (auto simp: ssn_classes_def simp del: nth_mem)
qed

interpretation ssn: fixed_pattern "ssn_shape nd" 11 REDACTION_PLACEHOLDER for nd
proof
  show "REDACTION_PLACEHOLDER \<noteq> []"
    by (simp add: REDACTION_PLACEHOLDER_def)
  have "\<forall>c \<in> set REDACTION_PLACEHOLDER. \<not> re_digit nd c \<and> c \<noteq> 45"
    by (simp add: REDACTION_PLACEHOLDER_def str_def re_digit_def is_digit_def)
  then show "c \<notin> set w" if "ssn_shape nd w" "c \<in> set REDACTION_PLACEHOLDER" for w c
    using ssn_shape_chars [OF that(1)] that(2) by blast
qed (auto dest: ssn_shape_length)

text \<open>Position by position, the scan for this detector is the replacement of the reference.\<close>

lemma slice_join: "p \<le> q \<Longrightarrow> q \<le> i \<Longrightarrow> slice p i s = slice p q s @ slice q i s"
  using take_add [of "q - p" "i - q" "drop p s"] by (simp add: slice_def)

lemma splice_shift:
  "p \<le> q \<Longrightarrow> \<forall>span \<in> set spans. q \<le> fst span \<Longrightarrow> splice ph s p spans = slice p q s @ splice ph s q spans"
proof (cases spans)
  case Nil
  assume "p \<le> q"
  then have "drop q s = drop (q - p) (drop p s)" by simp
  then show ?thesis by (simp only: Nil splice.simps slice_def append_take_drop_id)
next
  case (Cons span rest)
  assume "p \<le> q" "\<forall>span \<in> set spans. q \<le> fst span"
  with Cons slice_join [of p q "fst span" s] show ?thesis by (cases span) simp
qed

lemma splice_replace:
  assumes h: "\<And>i. i \<le> length s \<Longrightarrow>
      h i = (if ok (take n (drop i s)) \<and> (protect \<longrightarrow> i + n < length s) then Some (i + n) else None)"
    and n: "0 < n" "\<And>w. ok w \<Longrightarrow> length w = n"
  shows "i \<le> length s \<Longrightarrow> splice ph s i (scan h (length s) i) =
     (if protect then replace_settled ok n ph (drop i s) else replace_all ok n ph (drop i s))"
proof (induction "length s - i" arbitrary: i rule: less_induct)
  case less
  show ?case
  proof (cases "i = length s")
    case True
    then have "h i = None" using h [of i] n(2) [of "[]"] n(1) by auto
    with True have "scan h (length s) i = []" by (intro scan_end) auto
    with True show ?thesis by simp
  next
    case False
    with less.prems have i: "i < length s" by simp
    then have cons: "drop i s = s ! i # drop (Suc i) s" by (simp add: Cons_nth_drop_Suc)
    show ?thesis
    proof (cases "h i")
      case None
      have "scan h (length s) i = scan h (length s) (i + 1)"
        using i None by (intro scan_step(2)) auto
      then have "splice ph s i (scan h (length s) i) = slice i (i + 1) s @ splice ph s (i + 1) (scan h (length s) (i + 1))"
        using scan_sound [of _ _ h "length s" "i + 1"] by (simp only:) (rule splice_shift; auto)
      moreover have "slice i (i + 1) s = [s ! i]" by (simp add: slice_def cons)
      ultimately show ?thesis
        using less.hyps [of "i + 1"] i None h [of i] by (auto simp: cons split: if_splits)
    next
      case (Some e)
      with h [of i] i have e: "e = i + n" "ok (take n (drop i s))" "protect \<longrightarrow> i + n < length s"
        by (auto split: if_splits)
      from n(2) [OF e(2)] n(1) i have fits: "i + n \<le> length s" by auto
      have "scan h (length s) i = (i, i + n) # scan h (length s) (i + n)"
        using i Some e(1) n(1) scan_step(1) [of i "length s" h e] by auto
      then have "splice ph s i (scan h (length s) i) = ph @ splice ph s (i + n) (scan h (length s) (i + n))"
        by (simp add: slice_def)
      moreover have "drop (n - 1) (drop (Suc i) s) = drop (i + n) s"
        using n(1) by (simp add: add.commute)
      ultimately show ?thesis
        using less.hyps [of "i + n"] fits n(1) e i by (auto simp: cons)
    qed
  qed
qed

section \<open>Any chunking of the stream\<close>

abbreviation ssn_matcher :: "regex_env \<Rightarrow> matcher" where
  "ssn_matcher env \<equiv> rx_engine env (pt_expression SSN)"

definition ssn_setup :: "redactor \<Rightarrow> bool" where
  "ssn_setup r \<longleftrightarrow> rd_patterns r = [SSN] \<and> rd_placeholder r = REDACTION_PLACEHOLDER \<and> rd_max_holdback r = 19 \<and>
     \<not> rd_suppressing r"

lemma ssn_stream_redactor: "stream_redactor [SSN] REDACTION_PLACEHOLDER None = Some (fresh_redactor [SSN] REDACTION_PLACEHOLDER 19)"
  by (simp add: stream_redactor_def holdback_ceiling_def SSN_def)

lemma ssn_redact_loop:
  assumes "ssn_engine nd (ssn_matcher env)"
  shows "fst (redact_loop (ssn_matcher env) SSN ph b s 0 0) =
    (if b then replace_settled (ssn_shape nd) 11 ph s else replace_all (ssn_shape nd) 11 ph s)"
proof -
  have "hit (ssn_matcher env) SSN b s i =
      (if ssn_shape nd (take 11 (drop i s)) \<and> (b \<longrightarrow> i + 11 < length s) then Some (i + 11) else None)"
    if "i \<le> length s" for i
  proof -
    have at: "mt_at (ssn_matcher env) s i (length s) = (if ssn_shape nd (take 11 (drop i s)) then Some (i + 11) else None)"
      using assms that by (simp add: ssn_engine_def)
    have "i + 11 \<le> length s" if "ssn_shape nd (take 11 (drop i s))"
      using ssn_shape_length [OF that] \<open>i \<le> length s\<close> by simp
    with at show ?thesis
      by (auto simp: hit_def validated_end_def accepts_def SSN_def)
  qed
  from splice_replace [OF this _ ssn_shape_length, where i = 0] show ?thesis
    by (simp add: redact_loop_scan)
qed

lemma ssn_redact:
  assumes "ssn_engine nd (ssn_matcher env)" "rd_patterns r = [SSN]" "rd_placeholder r = REDACTION_PLACEHOLDER"
  shows "fst (redact env r b s) =
    (if b then replace_settled (ssn_shape nd) 11 REDACTION_PLACEHOLDER s
     else replace_all (ssn_shape nd) 11 REDACTION_PLACEHOLDER s)"
  using ssn_redact_loop [OF assms(1), of REDACTION_PLACEHOLDER b s] assms(2,3)
  by (simp add: redact_def case_prod_unfold Let_def)

lemma ssn_holdback:
  assumes "ssn_engine nd (ssn_matcher env)"
  defines "h s \<equiv> holdback_index env [SSN] s"
  shows "h s \<le> length s" "length s - h s \<le> 11" "\<And>i v. i < h s \<Longrightarrow> \<not> ssn_shape nd (drop i s @ v)"
proof -
  have scanned: "fold (\<lambda>span earliest. if unsafe_start s span then min earliest (fst span) else earliest)
      (mt_partial (ssn_matcher env) s) (length s) = h s"
    by (simp add: h_def holdback_index_def)
  note h = holdback_fold [OF scanned]
  from h show le: "h s \<le> length s" by simp
  have near: "length s - fst span \<le> 11" if "span \<in> set (mt_partial (ssn_matcher env) s)" "unsafe_start s span" for span
    using assms(1) that unfolding ssn_engine_def le_diff_conv by (simp only: add.commute)
  from h have "h s = length s \<or> (\<exists>span \<in> set (mt_partial (ssn_matcher env) s). unsafe_start s span \<and> h s = fst span)"
    by blast
  then show "length s - h s \<le> 11"
    using near by auto
  show "\<not> ssn_shape nd (drop i s @ v)" if "i < h s" for i v
  proof
    assume "ssn_shape nd (drop i s @ v)"
    moreover have "i < length s" using that le by simp
    ultimately obtain span where "span \<in> set (mt_partial (ssn_matcher env) s)" "unsafe_start s span" "fst span \<le> i"
      using assms(1) unfolding ssn_engine_def by blast
    with h that show False by auto
  qed
qed

lemma ssn_feed:
  assumes engine: "ssn_engine nd (ssn_matcher env)" and r: "ssn_setup r"
  shows "ssn_setup (snd (feed_redactor env r x)) \<and>
    replace_all (ssn_shape nd) 11 REDACTION_PLACEHOLDER (rd_buffer r @ x @ u) =
      fst (feed_redactor env r x) @ replace_all (ssn_shape nd) 11 REDACTION_PLACEHOLDER (rd_buffer (snd (feed_redactor env r x)) @ u)"
proof (cases "x = []")
  case False
  let ?r = "r\<lparr>rd_stats := (rd_stats r)\<lparr>st_characters_in := st_characters_in (rd_stats r) + length x\<rparr>\<rparr>"
  let ?w = "replace_settled (ssn_shape nd) 11 REDACTION_PLACEHOLDER (rd_buffer r @ x)"
  let ?h = "holdback_index env [SSN] ?w"
  obtain r1 where 1: "redact env ?r True (rd_buffer ?r @ x) = (?w, r1)"
    using ssn_redact [OF engine, of ?r True "rd_buffer ?r @ x"] r
    by (cases "redact env ?r True (rd_buffer ?r @ x)") (auto simp: ssn_setup_def)
  have config: "rd_patterns ?r = [SSN]" "rd_max_holdback ?r = 19" using r by (auto simp: ssn_setup_def)
  note hold = ssn_holdback [OF engine, where s = "?w"]
  have feed: "feed_redactor env r x = absorb env ?r x"
    using False r by (simp add: feed_redactor_def Let_def ssn_setup_def)
  have "length ?w - ?h \<le> rd_max_holdback ?r" using hold(2) config(2) by simp
  from absorb_cases(1) [OF 1 refl, unfolded config(1), OF this] absorb_cases(3) [OF 1 refl]
  have parts: "fst (feed_redactor env r x) = take ?h ?w" "rd_buffer (snd (feed_redactor env r x)) = drop ?h ?w" "ssn_setup (snd (feed_redactor env r x))"
    using r feed by (auto simp: ssn_setup_def same_setup_def)
  from ssn.stream_step [OF hold(1,3), where u = u] parts show ?thesis by simp
qed (use r in \<open>simp add: feed_redactor_def\<close>)

lemma ssn_feeds:
  assumes "ssn_engine nd (ssn_matcher env)"
  shows "ssn_setup r \<Longrightarrow> ssn_setup (snd (feed_chunks env r chunks)) \<and>
    replace_all (ssn_shape nd) 11 REDACTION_PLACEHOLDER (rd_buffer r @ concat chunks) =
      concat (fst (feed_chunks env r chunks)) @
      replace_all (ssn_shape nd) 11 REDACTION_PLACEHOLDER (rd_buffer (snd (feed_chunks env r chunks)))"
proof (induction chunks arbitrary: r)
  case (Cons c cs)
  from ssn_feed [OF assms Cons.prems, of c "concat cs"] Cons.IH [of "snd (feed_redactor env r c)"]
  show ?case by (auto simp: Let_def split: prod.splits)
qed simp

lemma ssn_process:
  assumes "ssn_engine nd (ssn_matcher env)"
  shows "process env (fresh_redactor [SSN] REDACTION_PLACEHOLDER 19) cs =
    replace_all (ssn_shape nd) 11 REDACTION_PLACEHOLDER (concat cs)"
proof -
  let ?r = "fresh_redactor [SSN] REDACTION_PLACEHOLDER 19"
  have "ssn_setup ?r" "rd_buffer ?r = []" by (simp_all add: ssn_setup_def fresh_redactor_def)
  from ssn_feeds [OF assms this(1), of cs] this(2)
    ssn_redact [OF assms, of "snd (feed_chunks env ?r cs)" False "rd_buffer (snd (feed_chunks env ?r cs))"]
  show ?thesis
    by (auto simp: process_def flush_redactor_def Let_def ssn_setup_def split: prod.splits)
qed


section \<open>A concrete engine\<close>

text \<open>
  An engine that reads two of the expressions: the SSN as above, and a card as a run of 13 to
  19 ASCII digits; nothing else ever matches.
\<close>

definition ssn_prefix :: "(nat \<Rightarrow> bool) \<Rightarrow> pystr \<Rightarrow> bool" where
  "ssn_prefix nd t \<longleftrightarrow>
     length t \<le> 11 \<and> list_all2 (\<lambda>p c. p c) (take (length t) (ssn_classes (re_digit nd))) t"

definition demo_ssn :: matcher where
  "demo_ssn =
     \<lparr>mt_at = (\<lambda>s i k. if ssn_shape (\<lambda>_. False) (slice i (min k (i + 11)) s) then Some (i + 11) else None),
      mt_partial = (\<lambda>s. map (\<lambda>i. (i, length s, True)) (filter (\<lambda>i. ssn_prefix (\<lambda>_. False) (drop i s)) [0..<length s]))\<rparr>"

definition demo_card :: matcher where
  "demo_card =
     \<lparr>mt_at = (\<lambda>s i k.
        let digits = length (takeWhile is_digit (slice i (min k (i + 19)) s))
        in if 13 \<le> digits then Some (i + digits) else None),
      mt_partial = (\<lambda>s. [])\<rparr>"

definition demo_digit :: digit_values where
  "demo_digit c = (if is_digit c then Some (c - 48) else None)"

definition demo_engine :: engine where
  "demo_engine e =
     (if e = pt_expression SSN then demo_ssn
      else if e = pt_expression (CREDIT_CARD demo_digit) then demo_card
      else \<lparr>mt_at = (\<lambda>s i k. None), mt_partial = (\<lambda>s. [])\<rparr>)"

definition demo_regex :: regex_env where
  "demo_regex = \<lparr>rx_engine = demo_engine, rx_word = (\<lambda>c. is_digit c \<or> 97 \<le> c \<and> c \<le> 122), rx_digit = demo_digit\<rparr>"

lemma length_slice: "length (slice i j s) = min (j - i) (length s - i)"
  by (simp add: slice_def)

lemma demo_ssn_ok: "matcher_ok demo_ssn"
proof -
  have "i + 11 \<le> k" if "ssn_shape nd (slice i (min k (i + 11)) s)" for nd i k and s :: pystr
    using ssn_shape_length [OF that] by (simp add: length_slice)
  then show ?thesis
    by (auto simp: matcher_ok_def demo_ssn_def split: if_splits)
qed

lemma demo_card_ok: "matcher_ok demo_card"
proof -
  have "i + length (takeWhile is_digit (slice i (min k (i + 19)) s)) \<le> k"
    if "13 \<le> length (takeWhile is_digit (slice i (min k (i + 19)) s))" for i k and s :: pystr
    using that length_takeWhile_le [of is_digit "slice i (min k (i + 19)) s"]
    by (simp add: length_slice min_def split: if_splits)
  then show ?thesis
    by (auto simp: matcher_ok_def demo_card_def Let_def split: if_splits)
qed

lemma demo_engine_simps:
  "demo_engine (pt_expression SSN) = demo_ssn"
  "rx_engine demo_regex (pt_expression SSN) = demo_ssn"
  by (simp_all add: demo_engine_def demo_regex_def)

lemma demo_ssn_engine: "ssn_engine (\<lambda>_. False) demo_ssn"
  unfolding ssn_engine_def
proof (intro conjI allI impI ballI)
  let ?nd = "\<lambda>_::nat. False"
  fix s :: pystr and i
  show "mt_at demo_ssn s i (length s) = (if ssn_shape ?nd (take 11 (drop i s)) then Some (i + 11) else None)"
  proof -
    have "slice i (min (length s) (i + 11)) s = take 11 (drop i s)"
      by (simp add: slice_def min_def)
    then show ?thesis by (simp add: demo_ssn_def)
  qed
  fix v
  assume i: "i < length s" and shape: "ssn_shape ?nd (drop i s @ v)"
  have "ssn_prefix ?nd (drop i s)"
  proof -
    have "length (drop i s) \<le> 11" using ssn_shape_length [OF shape] by simp
    moreover have "list_all2 (\<lambda>p c. p c) (take (length (drop i s)) (ssn_classes (re_digit ?nd))) (take (length (drop i s)) (drop i s @ v))"
      using shape unfolding ssn_shape_def by (intro list_all2_takeI) simp
    ultimately show ?thesis by (simp add: ssn_prefix_def)
  qed
  with i show "\<exists>span \<in> set (mt_partial demo_ssn s). unsafe_start s span \<and> fst span \<le> i"
    by (intro bexI [of _ "(i, length s, True)"]) (auto simp: demo_ssn_def unsafe_start_def)
next
  fix s :: pystr and span
  assume "span \<in> set (mt_partial demo_ssn s)"
  then show "length s \<le> fst span + 11"
    by (auto simp: demo_ssn_def ssn_prefix_def)
qed


theorem back_off_unrolls_witness:
  "back_off (Suc 17) demo_card (CREDIT_CARD demo_digit) (str ''41111111111111112'') 0 13 17 = Some 16"
proof -
  have at: "mt_at demo_card (str ''41111111111111112'') 0 17 = Some 17"
    "accepts (CREDIT_CARD demo_digit) (slice 0 17 (str ''41111111111111112'')) = False"
    "back_off (Suc (17 - 1)) demo_card (CREDIT_CARD demo_digit) (str ''41111111111111112'') 0 13 (17 - 1) = Some 16"
    by code_simp+
  show ?thesis
    by (subst back_off_unrolls [OF demo_card_ok]) (use at in simp_all)
qed

theorem redaction_is_exact_witness:
  "\<exists>spans. redact_loop demo_ssn SSN REDACTION_PLACEHOLDER True (str ''a 123-45-6789 078-05-1120'') 0 0 =
     (splice REDACTION_PLACEHOLDER (str ''a 123-45-6789 078-05-1120'') 0 spans, length spans) \<and> length spans = 1 \<and>
     (\<forall>(i, e) \<in> set spans. i \<le> e)"
proof -
  obtain spans where spans: "redact_loop demo_ssn SSN REDACTION_PLACEHOLDER True (str ''a 123-45-6789 078-05-1120'') 0 0 =
      (splice REDACTION_PLACEHOLDER (str ''a 123-45-6789 078-05-1120'') 0 spans, length spans)"
      "\<forall>(i, e) \<in> set spans. i \<le> e"
    using redaction_is_exact [OF demo_ssn_ok, of SSN REDACTION_PLACEHOLDER True "str ''a 123-45-6789 078-05-1120''"]
    by blast
  have "redact_loop demo_ssn SSN REDACTION_PLACEHOLDER True (str ''a 123-45-6789 078-05-1120'') 0 0 =
      (str ''a [REDACTED] 078-05-1120'', 1)"
    by code_simp
  with spans show ?thesis by auto
qed

theorem holdback_bounded_witness:
  "let r = snd (feed_chunks demo_regex (fresh_redactor [SSN] REDACTION_PLACEHOLDER 3) [str ''ssn 123-4'', str ''5-67''])
   in length (rd_buffer r) \<le> 3 \<and> rd_suppressing r \<and> rd_buffer r = []"
proof -
  have "rd_suppressing (snd (feed_chunks demo_regex (fresh_redactor [SSN] REDACTION_PLACEHOLDER 3) [str ''ssn 123-4'', str ''5-67'']))"
    by code_simp
  with holdback_bounded [of demo_regex "[SSN]" REDACTION_PLACEHOLDER 3 "[str ''ssn 123-4'', str ''5-67'']"]
  show ?thesis by (simp add: Let_def)
qed

theorem overlong_run_suppressed_witness:
  "concat (fst (feed_chunks demo_regex ((default_redactor demo_regex)\<lparr>rd_suppressing := True\<rparr>) [str ''aaaa'', str ''bbb''])) = []"
proof -
  have "rd_suppressing ((default_redactor demo_regex)\<lparr>rd_suppressing := True\<rparr>)" by simp
  moreover have "\<forall>c \<in> set (concat [str ''aaaa'', str ''bbb''] @ []). overlong_char (rx_word demo_regex) c"
    by code_simp
  moreover have "\<not> overlong_char (rx_word demo_regex) 32"
    by code_simp
  ultimately show ?thesis
    by (rule conjunct1 [OF overlong_run_suppressed])
qed

theorem prose_flows_witness:
  "fst (feed_chunks demo_regex (fresh_redactor (DEFAULT_PATTERNS demo_digit) REDACTION_PLACEHOLDER 328) [str ''plain '', str ''prose.'']) =
     [str ''plain '', str ''prose.'']"
proof -
  have "\<forall>c \<in> set [str ''plain '', str ''prose.'']. inert demo_regex (DEFAULT_PATTERNS demo_digit) c"
    by code_simp
  from prose_flows [OF this] show ?thesis by blast
qed

end
