(* ===== verification/Gd_Sse.thy ===== *)
theory Gd_Sse
  imports PyBytes
begin

text \<open>
  \<open>llm_guardrail/sse.py\<close>: server-sent events, written as bytes and read back from the pieces
  a transport delivers. The parser keeps the incomplete line and the event under construction.
  \<open>parse_encoded\<close>: what \<open>encode\<close> writes, the parser reads, wherever the text is cut.
\<close>

record sse_event =
  ev_event :: "pystr option"
  ev_data :: pystr

text \<open>\<open>SSEEvent.json\<close>: \<open>None\<close>, as JSON's null is, for data that is no JSON.\<close>

definition event_json :: "sse_event \<Rightarrow> json" where
  "event_json ev = (case json_loads (ev_data ev) of Inl _ \<Rightarrow> JNull | Inr v \<Rightarrow> v)"

definition event_lines :: "sse_event \<Rightarrow> pystr list" where
  "event_lines ev =
     (case ev_event ev of None \<Rightarrow> [] | Some e \<Rightarrow> if e = [] then [] else [str ''event: '' @ e]) @
     map (\<lambda>line. str ''data: '' @ line) (py_split 10 (ev_data ev))"

definition event_text :: "sse_event \<Rightarrow> pystr" where
  "event_text ev = py_join [10] (event_lines ev) @ [10, 10]"

text \<open>\<open>SSEEvent.encode\<close>.\<close>

definition encode_event :: "sse_event \<Rightarrow> bytes" where
  "encode_event ev = utf8_encode (event_text ev)"

section \<open>The parser\<close>

record sse_parser =
  sp_buffer :: pystr
  sp_event :: "pystr option"
  sp_data :: "pystr list"

definition new_parser :: sse_parser where
  "new_parser = \<lparr>sp_buffer = [], sp_event = None, sp_data = []\<rparr>"

fun find_crlf :: "pystr \<Rightarrow> nat option" where
  "find_crlf [] = None"
| "find_crlf (c # s) = (if c = 13 \<and> prefix [10] s then Some 0 else map_option Suc (find_crlf s))"

definition find_char :: "nat \<Rightarrow> pystr \<Rightarrow> nat option" where
  "find_char c s = (if c \<in> set s then Some (length (takeWhile (\<lambda>x. x \<noteq> c) s)) else None)"

text \<open>\<open>_find_line_end\<close>.\<close>

definition find_line_end :: "pystr \<Rightarrow> (nat \<times> nat) option" where
  "find_line_end buffer =
     (case find_crlf buffer of
        Some position \<Rightarrow> Some (position, position + 2)
      | None \<Rightarrow>
          (case find_char 10 buffer of
             Some position \<Rightarrow> Some (position, position + 1)
           | None \<Rightarrow>
               (case find_char 13 buffer of
                  Some position \<Rightarrow> if position = length buffer - 1 then None else Some (position, position + 1)
                | None \<Rightarrow> None)))"

definition dispatch :: "sse_parser \<Rightarrow> sse_parser \<times> sse_event option" where
  "dispatch p =
     (if sp_data p = [] \<and> sp_event p = None then (p, None)
      else (p\<lparr>sp_event := None, sp_data := []\<rparr>,
            Some \<lparr>ev_event = sp_event p, ev_data = py_join [10] (sp_data p)\<rparr>))"

definition handle_line :: "pystr \<Rightarrow> sse_parser \<Rightarrow> sse_parser \<times> sse_event option" where
  "handle_line line p =
     (if line = [] then dispatch p
      else if prefix [58] line then (p, None)
      else
        (let (field, _, value0) = py_partition 58 line;
             val = (if prefix [32] value0 then tl value0 else value0)
         in if field = str ''event'' then (p\<lparr>sp_event := Some val\<rparr>, None)
            else if field = str ''data'' then (p\<lparr>sp_data := sp_data p @ [val]\<rparr>, None)
            else (p, None)))"

lemma find_crlf_bound: "find_crlf s = Some i \<Longrightarrow> i + 2 \<le> length s"
  by (induction s arbitrary: i) (auto simp: prefix_def split: if_splits)

lemma find_line_end_bound: "find_line_end s = Some (i, j) \<Longrightarrow> i < j \<and> 0 < j \<and> j \<le> length s"
proof -
  have "length (takeWhile (\<lambda>x. x \<noteq> c) s) < length s" if "c \<in> set s" for c
    using that by (induction s) auto
  then show "find_line_end s = Some (i, j) \<Longrightarrow> ?thesis"
    by (auto simp: find_line_end_def find_char_def Suc_le_eq dest: find_crlf_bound split: option.splits if_splits)
qed

lemma dispatch_buffer [simp]: "sp_buffer (fst (dispatch p)) = sp_buffer p"
  by (simp add: dispatch_def)

lemma handle_line_buffer [simp]: "sp_buffer (fst (handle_line line p)) = sp_buffer p"
  by (auto simp: handle_line_def Let_def split: prod.split)

definition opt_list :: "'a option \<Rightarrow> 'a list" where
  "opt_list x = (case x of None \<Rightarrow> [] | Some v \<Rightarrow> [v])"

text \<open>The loop of \<open>feed\<close>: every complete line of the buffer.\<close>

function drain :: "sse_parser \<Rightarrow> sse_parser \<times> sse_event list" where
  "drain p =
     (case find_line_end (sp_buffer p) of
        None \<Rightarrow> (p, [])
      | Some (i, j) \<Rightarrow>
          (let (p1, ev) = handle_line (take i (sp_buffer p)) (p\<lparr>sp_buffer := drop j (sp_buffer p)\<rparr>);
               (p2, evs) = drain p1
           in (p2, opt_list ev @ evs)))"
  by pat_completeness auto
termination
proof (relation "measure (\<lambda>p. length (sp_buffer p))", goal_cases)
  case (2 p ij i j x p1 ev)
  then have "sp_buffer p1 = drop j (sp_buffer p)"
    using handle_line_buffer by (metis fst_conv sse_parser.select_convs(1) sse_parser.surjective sse_parser.update_convs(1))
  with find_line_end_bound [of "sp_buffer p" i j] 2 show ?case by auto
qed simp

declare drain.simps [simp del]

definition parser_text :: "sse_parser \<Rightarrow> pystr \<Rightarrow> sse_parser \<times> sse_event list" where
  "parser_text p s = drain (p\<lparr>sp_buffer := sp_buffer p @ s\<rparr>)"

text \<open>\<open>feed\<close> on the bytes of a chunk, and \<open>flush\<close>.\<close>

definition parser_feed :: "sse_parser \<Rightarrow> bytes \<Rightarrow> sse_parser \<times> sse_event list" where
  "parser_feed p chunk = parser_text p (utf8_replace chunk)"

definition parser_flush :: "sse_parser \<Rightarrow> sse_parser \<times> sse_event list" where
  "parser_flush p =
     (let p1 = (if sp_buffer p \<noteq> [] then fst (handle_line (sp_buffer p) (p\<lparr>sp_buffer := []\<rparr>)) else p);
          (p2, ev) = dispatch p1
      in (p2, opt_list ev))"

fun parser_feeds :: "sse_parser \<Rightarrow> bytes list \<Rightarrow> sse_parser \<times> sse_event list" where
  "parser_feeds p [] = (p, [])"
| "parser_feeds p (c # cs) =
     (let (p1, evs) = parser_feed p c; (p2, more) = parser_feeds p1 cs in (p2, evs @ more))"

definition parse_stream :: "bytes list \<Rightarrow> sse_event list" where
  "parse_stream chunks =
     (let (p, evs) = parser_feeds new_parser chunks in evs @ snd (parser_flush p))"

section \<open>Text without a carriage return\<close>

lemma find_crlf_none: "13 \<notin> set s \<Longrightarrow> find_crlf s = None"
  by (induction s) auto

lemma find_line_end_lf:
  assumes "13 \<notin> set s"
  shows "10 \<notin> set s \<Longrightarrow> find_line_end s = None"
    and "s = l @ 10 # r \<Longrightarrow> 10 \<notin> set l \<Longrightarrow> find_line_end s = Some (length l, length l + 1)"
proof -
  show "10 \<notin> set s \<Longrightarrow> find_line_end s = None"
    using assms by (simp add: find_line_end_def find_crlf_none find_char_def)
  assume s: "s = l @ 10 # r" and l: "10 \<notin> set l"
  from l have "takeWhile (\<lambda>x. x \<noteq> 10) s = l" unfolding s by (subst takeWhile_append2) auto
  with s find_crlf_none [OF assms] show "find_line_end s = Some (length l, length l + 1)"
    by (simp add: find_line_end_def find_char_def)
qed

lemma handle_line_set_buffer:
  "handle_line line (p\<lparr>sp_buffer := b\<rparr>) = (fst (handle_line line p)\<lparr>sp_buffer := b\<rparr>, snd (handle_line line p))"
  by (auto simp: handle_line_def dispatch_def Let_def split: prod.split)

lemma drain_none: "13 \<notin> set (sp_buffer p) \<Longrightarrow> 10 \<notin> set (sp_buffer p) \<Longrightarrow> drain p = (p, [])"
  by (simp add: drain.simps [of p] find_line_end_lf(1))

lemma drain_line:
  assumes "13 \<notin> set l" "13 \<notin> set r" "10 \<notin> set l"
  shows "drain (p\<lparr>sp_buffer := l @ 10 # r\<rparr>) =
    (let (p2, evs) = drain (fst (handle_line l p)\<lparr>sp_buffer := r\<rparr>) in (p2, opt_list (snd (handle_line l p)) @ evs))"
proof -
  have "find_line_end (l @ 10 # r) = Some (length l, length l + 1)"
    using assms by (intro find_line_end_lf(2)) auto
  then show ?thesis
    by (subst drain.simps) (simp add: handle_line_set_buffer)
qed

lemma drain_append:
  "13 \<notin> set s \<Longrightarrow> 13 \<notin> set t \<Longrightarrow> drain (p\<lparr>sp_buffer := s @ t\<rparr>) =
     (let (p1, e1) = drain (p\<lparr>sp_buffer := s\<rparr>); (p2, e2) = drain (p1\<lparr>sp_buffer := sp_buffer p1 @ t\<rparr>) in (p2, e1 @ e2))"
proof (induction "length s" arbitrary: s p rule: less_induct)
  case less
  show ?case
  proof (cases "10 \<in> set s")
    case False
    with less.prems show ?thesis by (simp add: drain_none)
  next
    case True
    then obtain l r where s: "s = l @ 10 # r" "10 \<notin> set l" by (meson split_list_first)
    let ?p = "fst (handle_line l p)"
    have "drain (?p\<lparr>sp_buffer := r @ t\<rparr>) =
        (let (p1, e1) = drain (?p\<lparr>sp_buffer := r\<rparr>); (p2, e2) = drain (p1\<lparr>sp_buffer := sp_buffer p1 @ t\<rparr>) in (p2, e1 @ e2))"
      using less.prems s by (intro less.hyps) auto
    moreover have "drain (p\<lparr>sp_buffer := l @ 10 # r @ t\<rparr>) =
        (let (p2, evs) = drain (?p\<lparr>sp_buffer := r @ t\<rparr>) in (p2, opt_list (snd (handle_line l p)) @ evs))"
      using less.prems s by (intro drain_line) auto
    moreover have "drain (p\<lparr>sp_buffer := l @ 10 # r\<rparr>) =
        (let (p2, evs) = drain (?p\<lparr>sp_buffer := r\<rparr>) in (p2, opt_list (snd (handle_line l p)) @ evs))"
      using less.prems s by (intro drain_line) auto
    ultimately show ?thesis
      by (simp add: s(1) Let_def case_prod_unfold)
  qed
qed

lemma drain_keeps_lf: "13 \<notin> set (sp_buffer p) \<Longrightarrow> 13 \<notin> set (sp_buffer (fst (drain p)))"
proof (induction "length (sp_buffer p)" arbitrary: p rule: less_induct)
  case less
  show ?case
  proof (cases "10 \<in> set (sp_buffer p)")
    case False
    with less.prems show ?thesis by (simp add: drain_none)
  next
    case True
    then obtain l r where s: "sp_buffer p = l @ 10 # r" "10 \<notin> set l" by (meson split_list_first)
    have "drain p = drain (p\<lparr>sp_buffer := l @ 10 # r\<rparr>)" using s(1) by (cases p) simp
    with drain_line [of l r p] less.prems s
      less.hyps [of "fst (handle_line l p)\<lparr>sp_buffer := r\<rparr>"]
    show ?thesis by (simp add: case_prod_unfold Let_def)
  qed
qed

lemma parser_text_append:
  assumes "13 \<notin> set (sp_buffer p)" "13 \<notin> set a" "13 \<notin> set b"
  shows "parser_text p (a @ b) =
    (let (p1, e1) = parser_text p a; (p2, e2) = parser_text p1 b in (p2, e1 @ e2))"
  using drain_append [of "sp_buffer p @ a" b p] assms by (simp add: parser_text_def)

section \<open>Round trip\<close>

lemma utf8_replace_encode: "valid_str s \<Longrightarrow> utf8_replace (utf8_encode s) = s"
proof (induction s)
  case Nil
  then show ?case by (simp add: utf8_replace.simps)
next
  case (Cons c s)
  then obtain b bs where b: "utf8_cp c = b # bs"
      "\<And>u. utf8_step False b (bs @ u) = Inr (c, Suc (length bs))"
    using utf8_step_cp [of c False] by (auto simp: valid_str_def)
  with Cons show ?case
    by (simp add: utf8_replace.simps valid_str_def)
qed

text \<open>Events a sender writes: a name, if any, is not empty; no line breaks in it, no carriage
  return in the data.\<close>

definition sendable :: "sse_event \<Rightarrow> bool" where
  "sendable ev \<longleftrightarrow>
     (case ev_event ev of None \<Rightarrow> True | Some e \<Rightarrow> e \<noteq> [] \<and> 10 \<notin> set e \<and> 13 \<notin> set e) \<and>
     13 \<notin> set (ev_data ev)"

definition lined :: "pystr list \<Rightarrow> pystr" where
  "lined ls = concat (map (\<lambda>l. l @ [10]) ls)"

lemma join_lined: "ls \<noteq> [] \<Longrightarrow> py_join [10] ls @ [10, 10] = lined (ls @ [[]])"
proof (induction ls)
  case (Cons l ls)
  then show ?case by (cases ls) (auto simp: lined_def)
qed simp

lemma event_text_lined: "event_text ev = lined (event_lines ev @ [[]])"
  by (simp add: event_text_def event_lines_def join_lined)

lemma handle_data:
  "handle_line (str ''data: '' @ line) p = (p\<lparr>sp_data := sp_data p @ [line]\<rparr>, None)"
  by (simp add: handle_line_def py_partition_def str_def)

lemma handle_line_event:
  "handle_line (str ''event: '' @ e) p = (p\<lparr>sp_event := Some e\<rparr>, None)"
  by (simp add: handle_line_def py_partition_def str_def)

lemma drain_data:
  assumes "\<forall>l \<in> set ls. 10 \<notin> set l \<and> 13 \<notin> set l" "13 \<notin> set r"
  shows "drain (p\<lparr>sp_buffer := lined (map (\<lambda>l. str ''data: '' @ l) ls) @ r\<rparr>) =
    drain (p\<lparr>sp_data := sp_data p @ ls, sp_buffer := r\<rparr>)"
  using assms(1)
proof (induction ls arbitrary: p)
  case (Cons l ls)
  let ?rest = "lined (map (\<lambda>l. str ''data: '' @ l) ls) @ r"
  have free: "13 \<notin> set ?rest" "10 \<notin> set (str ''data: '' @ l)" "13 \<notin> set (str ''data: '' @ l)"
    using Cons.prems assms(2) by (auto simp: lined_def str_def)
  have "drain (p\<lparr>sp_buffer := lined (map (\<lambda>l. str ''data: '' @ l) (l # ls)) @ r\<rparr>) =
      drain (p\<lparr>sp_buffer := (str ''data: '' @ l) @ 10 # ?rest\<rparr>)"
    by (simp add: lined_def)
  also have "\<dots> = drain (p\<lparr>sp_data := sp_data p @ [l], sp_buffer := ?rest\<rparr>)"
    unfolding drain_line [OF free(3,1,2)] by (simp add: handle_data opt_list_def case_prod_unfold Let_def)
  also have "\<dots> = drain (p\<lparr>sp_data := sp_data p @ l # ls, sp_buffer := r\<rparr>)"
    using Cons.IH [of "p\<lparr>sp_data := sp_data p @ [l]\<rparr>"] Cons.prems by simp
  finally show ?case .
qed (simp add: lined_def)

lemma py_split_subset: "l \<in> set (py_split c s) \<Longrightarrow> set l \<subseteq> set s"
proof (induction s arbitrary: l)
  case (Cons x s)
  show ?case
  proof (cases "py_split c s")
    case (Cons q qs)
    then have "set q \<subseteq> set s" "\<And>k. k \<in> set qs \<Longrightarrow> set k \<subseteq> set s"
      using Cons.IH by auto
    with Cons.prems Cons show ?thesis by (fastforce split: if_splits)
  qed simp
qed simp

lemma drain_event:
  assumes ev: "sendable ev" and r: "13 \<notin> set r" and p: "sp_event p = None" "sp_data p = []"
  shows "drain (p\<lparr>sp_buffer := event_text ev @ r\<rparr>) =
    (let (p2, evs) = drain (p\<lparr>sp_buffer := r\<rparr>) in (p2, ev # evs))"
proof -
  let ?data = "lined (map (\<lambda>l. str ''data: '' @ l) (py_split 10 (ev_data ev)))"
  have pieces: "\<forall>l \<in> set (py_split 10 (ev_data ev)). 10 \<notin> set l \<and> 13 \<notin> set l"
  proof
    fix l
    assume l: "l \<in> set (py_split 10 (ev_data ev))"
    have "set l \<subseteq> set (ev_data ev)"
      by (rule py_split_subset [OF l])
    with ev py_split_pieces [OF l] show "10 \<notin> set l \<and> 13 \<notin> set l"
      by (auto simp: sendable_def)
  qed
  have blank: "drain (q\<lparr>sp_buffer := ?data @ 10 # r\<rparr>) =
      (let (p2, evs) = drain (q\<lparr>sp_event := None, sp_data := [], sp_buffer := r\<rparr>)
       in (p2, \<lparr>ev_event = sp_event q, ev_data = ev_data ev\<rparr> # evs))"
    if "sp_data q = []" for q
  proof -
    have "drain (q\<lparr>sp_buffer := ?data @ 10 # r\<rparr>) =
        drain (q\<lparr>sp_data := py_split 10 (ev_data ev), sp_buffer := [] @ 10 # r\<rparr>)"
      using drain_data [OF pieces, of "10 # r" q] r that by simp
    also have "\<dots> = (let (p2, evs) = drain (q\<lparr>sp_event := None, sp_data := [], sp_buffer := r\<rparr>)
       in (p2, \<lparr>ev_event = sp_event q, ev_data = ev_data ev\<rparr> # evs))"
      by (subst drain_line) (use r in \<open>simp_all add: handle_line_def dispatch_def opt_list_def py_split_join\<close>)
    finally show ?thesis .
  qed
  have same: "p\<lparr>sp_event := None, sp_data := [], sp_buffer := r\<rparr> = p\<lparr>sp_buffer := r\<rparr>"
    using p by (cases p) simp
  show ?thesis
  proof (cases "ev_event ev")
    case None
    then have buffer: "event_text ev @ r = ?data @ 10 # r"
      by (simp add: event_text_lined event_lines_def lined_def)
    have "\<lparr>ev_event = None, ev_data = ev_data ev\<rparr> = ev"
      using None by (cases ev) simp
    then show ?thesis
      unfolding buffer blank [OF p(2)] same p(1) by (simp only:)
  next
    case (Some e)
    with ev have e: "e \<noteq> []" "10 \<notin> set e" "13 \<notin> set e" by (auto simp: sendable_def)
    then have "event_text ev @ r = (str ''event: '' @ e) @ 10 # ?data @ 10 # r"
      using Some by (simp add: event_text_lined event_lines_def lined_def)
    moreover have "drain (p\<lparr>sp_buffer := (str ''event: '' @ e) @ 10 # ?data @ 10 # r\<rparr>) =
        drain (p\<lparr>sp_event := Some e, sp_buffer := ?data @ 10 # r\<rparr>)"
    proof -
      have "13 \<notin> set (str ''event: '' @ e)" "13 \<notin> set (?data @ 10 # r)" "10 \<notin> set (str ''event: '' @ e)"
        using e r pieces by (auto simp: lined_def str_def)
      from drain_line [OF this, of p] show ?thesis
        by (simp add: handle_line_event opt_list_def case_prod_unfold Let_def)
    qed
    ultimately have "drain (p\<lparr>sp_buffer := event_text ev @ r\<rparr>) =
        (let (p2, evs) = drain (p\<lparr>sp_event := None, sp_data := [], sp_buffer := r\<rparr>)
         in (p2, \<lparr>ev_event = Some e, ev_data = ev_data ev\<rparr> # evs))"
      using blank [of "p\<lparr>sp_event := Some e\<rparr>"] p by simp
    moreover have "\<lparr>ev_event = Some e, ev_data = ev_data ev\<rparr> = ev"
      using Some by (cases ev) simp
    ultimately show ?thesis
      unfolding same by (simp only:)
  qed
qed

lemma drain_events:
  assumes "\<forall>ev \<in> set evs. sendable ev" "sp_event p = None" "sp_data p = []"
  shows "drain (p\<lparr>sp_buffer := concat (map event_text evs)\<rparr>) = (p\<lparr>sp_buffer := []\<rparr>, evs)"
  using assms(1)
proof (induction evs)
  case Nil
  then show ?case by (simp add: drain_none)
next
  case (Cons ev evs)
  have "13 \<notin> set (event_text ev')" if "sendable ev'" for ev'
    using that py_split_subset [of _ 10 "ev_data ev'"]
    by (fastforce simp: event_text_lined lined_def event_lines_def sendable_def str_def split: option.splits if_splits)
  with Cons.prems have "13 \<notin> set (concat (map event_text evs))" by auto
  with Cons drain_event [of ev "concat (map event_text evs)" p] assms show ?case by simp
qed

lemma parser_feeds_text:
  "13 \<notin> set (sp_buffer p) \<Longrightarrow> \<forall>c \<in> set cs. valid_str c \<and> 13 \<notin> set c \<Longrightarrow>
   parser_feeds p (map utf8_encode cs) = parser_text p (concat cs) \<or> cs = []"
proof (induction cs arbitrary: p)
  case (Cons c cs)
  have feed: "parser_feed p (utf8_encode c) = parser_text p c"
    using Cons.prems by (simp add: parser_feed_def utf8_replace_encode)
  have "13 \<notin> set (sp_buffer (fst (parser_text p c)))"
    using drain_keeps_lf [of "p\<lparr>sp_buffer := sp_buffer p @ c\<rparr>"] Cons.prems by (simp add: parser_text_def)
  note IH = Cons.IH [OF this]
  have "13 \<notin> set (concat cs)" using Cons.prems by auto
  show ?case
  proof (cases "cs = []")
    case False
    with IH Cons.prems have "parser_feeds (fst (parser_text p c)) (map utf8_encode cs) =
        parser_text (fst (parser_text p c)) (concat cs)" by simp
    with parser_text_append [of p c "concat cs"] Cons.prems feed \<open>13 \<notin> set (concat cs)\<close> show ?thesis
      by (simp add: case_prod_unfold Let_def)
  qed (simp add: feed case_prod_unfold Let_def prod_eq_iff)
qed simp

lemma parse_encoded:
  assumes "\<forall>ev \<in> set evs. sendable ev" "concat chunks = concat (map event_text evs)" "\<forall>c \<in> set chunks. valid_str c"
  shows "parse_stream (map utf8_encode chunks) = evs"
proof (cases "chunks = []")
  case True
  with assms(2) have "evs = []" by (cases evs) (auto simp: event_text_def)
  with True show ?thesis
    by (simp add: parse_stream_def new_parser_def parser_flush_def dispatch_def opt_list_def)
next
  case False
  have "13 \<notin> set (event_text ev)" if "sendable ev" for ev
    using that py_split_subset [of _ 10 "ev_data ev"]
    by (fastforce simp: event_text_lined lined_def event_lines_def sendable_def str_def split: option.splits if_splits)
  with assms(1) have "13 \<notin> set (concat (map event_text evs))" by auto
  with assms(2) have "\<forall>c \<in> set chunks. 13 \<notin> set c" by (metis UN_I set_concat)
  with parser_feeds_text [of new_parser chunks] assms(3) False
  have "parser_feeds new_parser (map utf8_encode chunks) = parser_text new_parser (concat chunks)"
    by (simp add: new_parser_def)
  also have "\<dots> = (new_parser, evs)"
    using drain_events [OF assms(1), of new_parser] assms(2) by (simp add: parser_text_def new_parser_def)
  finally show ?thesis
    by (simp add: parse_stream_def parser_flush_def new_parser_def dispatch_def opt_list_def)
qed



text \<open>Mixed line ends are read wrongly: a lone carriage return before a line feed is taken
  for part of the line, although each of the two ends a line.\<close>

lemma mixed_line_ends:
  "parse_stream [str ''data: a'' @ [13] @ str ''data: b'' @ [10, 10]] =
     [\<lparr>ev_event = None, ev_data = str ''a'' @ [13] @ str ''data: b''\<rparr>]"
  by code_simp

end
