(* ===== verification/Gd_Stream.thy ===== *)
theory Gd_Stream
  imports Gd_Exact Gd_Sse PyText
begin

text \<open>
  \<open>llm_guardrail/stream.py\<close>: the redaction of a live stream of server-sent events. Every
  logical text in the stream is a channel with its own redactor; a frame is put in one of the
  documented buckets (\<open>handle_event\<close>), and the loop over the upstream's bytes ends by
  releasing what is held, or by an error frame (\<open>redact_sse_stream\<close>). An exception is a
  value: what was released before it is kept, as a generator's output is.
\<close>

record guard_env =
  ge_regex :: regex_env
  ge_ucd :: unicode_db

definition TEXT_DELTA_EVENT :: pystr where "TEXT_DELTA_EVENT = str ''content_block_delta''"

definition BLOCK_STOP_EVENT :: pystr where "BLOCK_STOP_EVENT = str ''content_block_stop''"

definition MAIN_TEXT :: pystr where "MAIN_TEXT = []"

definition THINKING_DELTA_TYPES :: "pystr list" where
  "THINKING_DELTA_TYPES = map str [''thinking_delta'', ''signature_delta'']"

definition POLICY_REDACT :: pystr where "POLICY_REDACT = str ''redact''"

definition POLICY_DROP :: pystr where "POLICY_DROP = str ''drop''"

definition POLICY_BLOCK :: pystr where "POLICY_BLOCK = str ''block''"

definition POLICY_PASS :: pystr where "POLICY_PASS = str ''pass''"

definition UPSTREAM_FAILED_MESSAGE :: pystr where
  "UPSTREAM_FAILED_MESSAGE = str ''The upstream model provider failed part-way through this response.''"

record stream_policy =
  po_thinking :: pystr
  po_unknown_schema :: pystr

text \<open>\<open>StreamPolicy.from_env\<close>; any other word than the documented ones is kept as it is.\<close>

definition policy_from_env :: "(pystr \<Rightarrow> pystr option) \<Rightarrow> stream_policy" where
  "policy_from_env environ =
     (let get = (\<lambda>name default. py_lower (py_strip (case environ name of None \<Rightarrow> default | Some v \<Rightarrow> v)))
      in \<lparr>po_thinking = get (str ''GUARDRAIL_THINKING_POLICY'') POLICY_DROP,
          po_unknown_schema = get (str ''GUARDRAIL_ON_UNKNOWN_SCHEMA'') POLICY_REDACT\<rparr>)"

section \<open>Payloads\<close>

datatype path_step = Key pystr | At nat

text \<open>\<open>list(payload)\<close>; \<open>None\<close> is a \<open>TypeError\<close>.\<close>

definition list_of :: "json \<Rightarrow> json list option" where
  "list_of v =
     (case v of JArr xs \<Rightarrow> Some xs | JStr s \<Rightarrow> Some (map (\<lambda>c. JStr [c]) s)
      | JObj kvs \<Rightarrow> Some (map (\<lambda>(k, _). JStr k) kvs) | _ \<Rightarrow> None)"

text \<open>\<open>_replace_at\<close>; \<open>None\<close> is the \<open>KeyError\<close>, \<open>TypeError\<close> or \<open>IndexError\<close>.\<close>

fun replace_at :: "json \<Rightarrow> path_step list \<Rightarrow> pystr \<Rightarrow> json option" where
  "replace_at payload [] s = Some (JStr s)"
| "replace_at payload (At i # rest) s =
     (case list_of payload of
        None \<Rightarrow> None
      | Some xs \<Rightarrow>
          if i < length xs then map_option (\<lambda>v. JArr (xs[i := v])) (replace_at (xs ! i) rest s) else None)"
| "replace_at payload (Key k # rest) s =
     (case payload of
        JObj d \<Rightarrow>
          (case map_of d k of
             None \<Rightarrow> None
           | Some v \<Rightarrow> map_option (\<lambda>v'. JObj (AList.update k v' d)) (replace_at v rest s))
      | _ \<Rightarrow> None)"

definition serialise :: "pystr option \<Rightarrow> json \<Rightarrow> sse_event" where
  "serialise name payload = \<lparr>ev_event = name, ev_data = dumps_compact float_repr payload\<rparr>"

text \<open>\<open>index in (0, None)\<close>: also \<open>False\<close> and \<open>0.0\<close>, which equal 0.\<close>

definition zero_or_none :: "json \<Rightarrow> bool" where
  "zero_or_none v \<longleftrightarrow> v = JNull \<or> v = JInt 0 \<or> v = JBool False \<or> v = JFloat (Fin 0)"

type_synonym located = "pystr \<times> path_step list \<times> pystr"

definition locate_delta :: "unicode_db \<Rightarrow> jobject \<Rightarrow> located list" where
  "locate_delta db payload =
     (case jget (str ''delta'') payload of
        JObj delta \<Rightarrow>
          (let kind = jget (str ''type'') delta;
               index = jget_or (JInt 0) (str ''index'') payload
           in if kind = JStr (str ''text_delta'') \<and> as_str (jget (str ''text'') delta) \<noteq> None then
                [(if zero_or_none index then MAIN_TEXT else str ''text:'' @ str_json db index,
                  [Key (str ''delta''), Key (str ''text'')], the (as_str (jget (str ''text'') delta)))]
              else if kind = JStr (str ''input_json_delta'') \<and> as_str (jget (str ''partial_json'') delta) \<noteq> None then
                [(str ''json:'' @ str_json db index,
                  [Key (str ''delta''), Key (str ''partial_json'')], the (as_str (jget (str ''partial_json'') delta)))]
              else [])
      | _ \<Rightarrow> [])"

fun locate_choices :: "nat \<Rightarrow> json list \<Rightarrow> located list \<Rightarrow> located list" where
  "locate_choices position [] found = found"
| "locate_choices position (JObj choice # choices) found =
     (let inner = (if truthy (jget (str ''delta'') choice) then jget (str ''delta'') choice
                   else jget (str ''message'') choice)
      in case inner of
           JObj d \<Rightarrow>
             (case jget (str ''content'') d of
                JStr content \<Rightarrow>
                  (let field_name = (if has_key (str ''delta'') choice then str ''delta'' else str ''message'');
                       key = (if position = 0 \<and> found = [] then MAIN_TEXT
                              else str ''openai:'' @ int_digits (int position))
                   in locate_choices (position + 1) choices
                        (found @ [(key, [Key (str ''choices''), At position, Key field_name, Key (str ''content'')], content)]))
              | _ \<Rightarrow> locate_choices (position + 1) choices found)
         | _ \<Rightarrow> locate_choices (position + 1) choices found)"
| "locate_choices position (choice # choices) found = locate_choices (position + 1) choices found"

text \<open>\<open>_locate_texts\<close>.\<close>

definition locate_texts :: "unicode_db \<Rightarrow> json \<Rightarrow> located list" where
  "locate_texts db payload =
     (case payload of
        JObj d \<Rightarrow>
          (let found = locate_delta db d
           in case jget (str ''choices'') d of
                JArr choices \<Rightarrow> locate_choices 0 choices found
              | _ \<Rightarrow> found)
      | _ \<Rightarrow> [])"

text \<open>
  \<open>_is_thinking\<close>; \<open>None\<close> is the \<open>TypeError\<close> of looking an unhashable type up in a set.
\<close>

definition is_thinking :: "json \<Rightarrow> bool option" where
  "is_thinking payload =
     (case payload of
        JObj d \<Rightarrow>
          (let block = (case jget (str ''content_block'') d of
                          JObj b \<Rightarrow> jget (str ''type'') b = JStr (str ''thinking'') | _ \<Rightarrow> False)
           in case jget (str ''delta'') d of
                JObj delta \<Rightarrow>
                  (case jget (str ''type'') delta of
                     JArr _ \<Rightarrow> None
                   | JObj _ \<Rightarrow> None
                   | JStr t \<Rightarrow> Some (t \<in> set THINKING_DELTA_TYPES \<or> block)
                   | _ \<Rightarrow> Some block)
              | _ \<Rightarrow> Some block)
      | _ \<Rightarrow> Some False)"

section \<open>Channels\<close>

text \<open>What the closure \<open>rebuild\<close> captures: the payload it was made for, a path, an event name.\<close>

record rebuild =
  rb_payload :: json
  rb_path :: "path_step list"
  rb_event :: "pystr option"

record channel =
  ch_redactor :: redactor
  ch_rebuild :: "rebuild option"

record channels =
  cs_main :: redactor
  cs_others :: "(pystr \<times> channel) list"
  cs_rebuild_main :: "rebuild option"
  cs_saw_text :: bool

definition new_channels :: "redactor \<Rightarrow> channels" where
  "new_channels r = \<lparr>cs_main = r, cs_others = [], cs_rebuild_main = None, cs_saw_text = False\<rparr>"

text \<open>\<open>get\<close>, which registers a channel it does not know, and \<open>remember\<close>.\<close>

definition channels_get :: "regex_env \<Rightarrow> pystr \<Rightarrow> channels \<Rightarrow> channel \<times> channels" where
  "channels_get env key cs =
     (if key = MAIN_TEXT then (\<lparr>ch_redactor = cs_main cs, ch_rebuild = cs_rebuild_main cs\<rparr>, cs)
      else
        (case map_of (cs_others cs) key of
           Some ch \<Rightarrow> (ch, cs)
         | None \<Rightarrow>
             (let ch = \<lparr>ch_redactor = default_redactor env, ch_rebuild = None\<rparr>
              in (ch, cs\<lparr>cs_others := cs_others cs @ [(key, ch)]\<rparr>))))"

definition channels_remember :: "pystr \<Rightarrow> rebuild \<Rightarrow> channels \<Rightarrow> channels" where
  "channels_remember key rb cs =
     (if key = MAIN_TEXT then cs\<lparr>cs_rebuild_main := Some rb\<rparr>
      else
        (case map_of (cs_others cs) key of
           None \<Rightarrow> cs
         | Some ch \<Rightarrow> cs\<lparr>cs_others := AList.update key (ch\<lparr>ch_rebuild := Some rb\<rparr>) (cs_others cs)\<rparr>))"

text \<open>The redactor object of a channel after an operation on it.\<close>

definition set_redactor :: "pystr \<Rightarrow> redactor \<Rightarrow> channels \<Rightarrow> channels" where
  "set_redactor key r cs =
     (if key = MAIN_TEXT then cs\<lparr>cs_main := r\<rparr>
      else
        (case map_of (cs_others cs) key of
           None \<Rightarrow> cs
         | Some ch \<Rightarrow> cs\<lparr>cs_others := AList.update key (ch\<lparr>ch_redactor := r\<rparr>) (cs_others cs)\<rparr>))"

definition text_delta_payload :: "pystr \<Rightarrow> json" where
  "text_delta_payload s =
     JObj [(str ''type'', JStr TEXT_DELTA_EVENT), (str ''index'', JInt 0),
           (str ''delta'', JObj [(str ''type'', JStr (str ''text_delta'')), (str ''text'', JStr s)])]"

definition default_text_rebuild :: "pystr \<Rightarrow> sse_event" where
  "default_text_rebuild s = serialise (Some TEXT_DELTA_EVENT) (text_delta_payload s)"

definition run_rebuild :: "rebuild option \<Rightarrow> pystr \<Rightarrow> sse_event option" where
  "run_rebuild rebuild s =
     (case rebuild of
        None \<Rightarrow> Some (default_text_rebuild s)
      | Some rb \<Rightarrow> map_option (serialise (rb_event rb)) (replace_at (rb_payload rb) (rb_path rb) s))"

text \<open>\<open>_Channels.flush\<close>: the events, the channels after it, and whether a rebuild raised.\<close>

fun flush_keys :: "regex_env \<Rightarrow> pystr list \<Rightarrow> channels \<Rightarrow> sse_event list \<times> channels \<times> bool" where
  "flush_keys env [] cs = ([], cs, False)"
| "flush_keys env (key # keys) cs =
     (let (channel, cs1) = channels_get env key cs;
          (remaining, r) = flush_redactor env (ch_redactor channel);
          cs2 = set_redactor key r cs1
      in if remaining = [] then flush_keys env keys cs2
         else
           (case run_rebuild (ch_rebuild channel) remaining of
              None \<Rightarrow> ([], cs2, True)
            | Some ev \<Rightarrow> (let (evs, cs3, raised) = flush_keys env keys cs2 in (ev # evs, cs3, raised))))"

definition channels_flush :: "regex_env \<Rightarrow> channels \<Rightarrow> sse_event list \<times> channels \<times> bool" where
  "channels_flush env cs = flush_keys env (MAIN_TEXT # sort (map fst (cs_others cs))) cs"

text \<open>\<open>total_redactions\<close>, for the log.\<close>

definition total_redactions :: "channels \<Rightarrow> nat" where
  "total_redactions cs =
     stats_total (rd_stats (cs_main cs)) + sum_list (map (\<lambda>(_, ch). stats_total (rd_stats (ch_redactor ch))) (cs_others cs))"

section \<open>Frames\<close>

record stream_state =
  ss_channels :: channels
  ss_dropped :: nat

text \<open>
  The loop over the located texts: the payload with every one of them replaced and whether any
  text was released, or \<open>None\<close> when a replacement raised.
\<close>

fun feed_located ::
  "regex_env \<Rightarrow> pystr option \<Rightarrow> json \<Rightarrow> located list \<Rightarrow> json \<Rightarrow> bool \<Rightarrow> channels \<Rightarrow> (json \<times> bool) option \<times> channels"
where
  "feed_located env name payload [] updated released cs = (Some (updated, released), cs)"
| "feed_located env name payload ((key, path, s) # rest) updated released cs =
     (let (channel, cs1) = channels_get env key cs;
          cs2 = channels_remember key \<lparr>rb_payload = payload, rb_path = path, rb_event = name\<rparr> cs1;
          (safe, r) = feed_redactor env (ch_redactor channel) s;
          cs3 = set_redactor key r cs2
      in case replace_at updated path safe of
           None \<Rightarrow> (None, cs3)
         | Some updated' \<Rightarrow> feed_located env name payload rest updated' (released \<or> safe \<noteq> []) cs3)"

text \<open>
  \<open>handle\<close>: the frames it yields, the state after it, and whether it raised. A payload that is
  JSON but no object raises at \<open>payload.get\<close>, unless the event's name is the stop event's.
\<close>

definition handle_event ::
  "guard_env \<Rightarrow> stream_policy \<Rightarrow> sse_event \<Rightarrow> stream_state \<Rightarrow> sse_event list \<times> stream_state \<times> bool"
where
  "handle_event env policy ev st =
     (let rx = ge_regex env; payload = event_json ev in
      if payload = JNull then ([ev\<lparr>ev_data := redact_text rx (ev_data ev)\<rparr>], st, False)
      else
        (case is_thinking payload of
           None \<Rightarrow> ([], st, True)
         | Some True \<Rightarrow>
             if po_thinking policy = POLICY_DROP then ([], st\<lparr>ss_dropped := ss_dropped st + 1\<rparr>, False)
             else if po_thinking policy = POLICY_REDACT
               then ([serialise (ev_event ev) (redact_leaves rx payload)], st, False)
             else ([ev], st, False)
         | Some False \<Rightarrow>
             (case locate_texts (ge_ucd env) payload of
                located # others \<Rightarrow>
                  (let (result, cs) = feed_located rx (ev_event ev) payload (located # others) payload False
                                        ((ss_channels st)\<lparr>cs_saw_text := True\<rparr>);
                       st' = st\<lparr>ss_channels := cs\<rparr>
                   in case result of
                        None \<Rightarrow> ([], st', True)
                      | Some (updated, released) \<Rightarrow>
                          (if released then [serialise (ev_event ev) updated] else [], st', False))
              | [] \<Rightarrow>
                  (let is_stop = (if ev_event ev = Some BLOCK_STOP_EVENT then Some True
                                  else case payload of
                                         JObj d \<Rightarrow> Some (jget (str ''type'') d = JStr BLOCK_STOP_EVENT)
                                       | _ \<Rightarrow> None)
                   in case is_stop of
                        None \<Rightarrow> ([], st, True)
                      | Some stop \<Rightarrow>
                          (let (flushed, cs, raised) =
                                 (if stop then channels_flush rx (ss_channels st) else ([], ss_channels st, False));
                               st' = st\<lparr>ss_channels := cs\<rparr>
                           in if raised then (flushed, st', True)
                              else if po_unknown_schema policy = POLICY_BLOCK
                                then (flushed, st'\<lparr>ss_dropped := ss_dropped st' + 1\<rparr>, False)
                              else if po_unknown_schema policy = POLICY_PASS then (flushed @ [ev], st', False)
                              else (flushed @ [serialise (ev_event ev) (redact_leaves rx payload)], st', False))))))"

fun handle_events ::
  "guard_env \<Rightarrow> stream_policy \<Rightarrow> sse_event list \<Rightarrow> stream_state \<Rightarrow> sse_event list \<times> stream_state \<times> bool"
where
  "handle_events env policy [] st = ([], st, False)"
| "handle_events env policy (ev # evs) st =
     (let (outs, st1, raised) = handle_event env policy ev st
      in if raised then (outs, st1, True)
         else (let (later, st2, raised') = handle_events env policy evs st1 in (outs @ later, st2, raised')))"

text \<open>
  How the generator ends: normally, after the error frame, or by an exception of its own (a
  rebuild that raised while the held text was released).
\<close>

datatype ending = Completed | ErrorReported | Aborted

definition error_frame :: sse_event where
  "error_frame =
     serialise (Some (str ''error''))
       (JObj [(str ''type'', JStr (str ''error'')),
              (str ''error'', JObj [(str ''type'', JStr (str ''api_error'')),
                                    (str ''message'', JStr UPSTREAM_FAILED_MESSAGE)])])"

definition stream_failure :: "regex_env \<Rightarrow> channels \<Rightarrow> sse_event list \<times> ending" where
  "stream_failure env cs =
     (let (evs, _, raised) = channels_flush env cs
      in if raised then (evs, Aborted) else (evs @ [error_frame], ErrorReported))"

text \<open>
  The upstream delivers chunks and then ends, or fails. The frames are those yielded, each
  then encoded (\<open>stream_bytes\<close>).
\<close>

definition redact_sse_stream ::
  "guard_env \<Rightarrow> stream_policy \<Rightarrow> redactor \<Rightarrow> bytes list \<Rightarrow> bool \<Rightarrow> sse_event list \<times> ending"
where
  "redact_sse_stream env policy redactor upstream fails =
     (let rx = ge_regex env;
          st0 = \<lparr>ss_channels = new_channels redactor, ss_dropped = 0\<rparr>;
          (parser, evs) = parser_feeds new_parser upstream;
          (outs, st1, raised) = handle_events env policy evs st0
      in if raised \<or> fails then (let (rest, e) = stream_failure rx (ss_channels st1) in (outs @ rest, e))
         else
           (let (outs2, st2, raised2) = handle_events env policy (snd (parser_flush parser)) st1
            in if raised2 then (let (rest, e) = stream_failure rx (ss_channels st2) in (outs @ outs2 @ rest, e))
               else (let (flushed, _, raised3) = channels_flush rx (ss_channels st2)
                     in (outs @ outs2 @ flushed, if raised3 then Aborted else Completed))))"

definition stream_bytes :: "sse_event list \<Rightarrow> bytes" where
  "stream_bytes evs = concat (map encode_event evs)"

end
