(* ===== verification/Gd_Live.thy ===== *)
theory Gd_Live
  imports Gd_Stream PyJson_Roundtrip
begin

text \<open>
  What the guardrail's stream guarantees, and where it does not keep its promise: the memory of
  every channel is bounded, a failure is always reported in the stream, an unrecognised frame
  comes out with every string leaf redacted, a stream of text deltas is redacted as one text,
  end to end in bytes; two kinds of frame leak.
\<close>

section \<open>Every channel is bounded\<close>

definition channel_ok :: "nat \<Rightarrow> redactor \<Rightarrow> bool" where
  "channel_ok limit r \<longleftrightarrow> redactor_inv r \<and> rd_max_holdback r = limit"

definition channels_ok :: "nat \<Rightarrow> channels \<Rightarrow> bool" where
  "channels_ok limit cs \<longleftrightarrow>
     channel_ok limit (cs_main cs) \<and> (\<forall>(key, ch) \<in> set (cs_others cs). channel_ok 328 (ch_redactor ch))"

lemma channel_ok_feed: "channel_ok limit r \<Longrightarrow> channel_ok limit (snd (feed_redactor env r s))"
  using feed_inv [of r env s] by (simp add: channel_ok_def same_setup_def)

lemma channel_ok_flush: "channel_ok limit r \<Longrightarrow> channel_ok limit (snd (flush_redactor env r))"
  by (auto simp: channel_ok_def flush_redactor_def redactor_inv_def Let_def split: prod.splits dest: redact_frame)

lemma channel_ok_default: "channel_ok 328 (default_redactor env)"
  by (simp add: channel_ok_def default_redactor_def fresh_redactor_def redactor_inv_def)

text \<open>The limit of a channel: the injected redactor's for the main one.\<close>

definition limit_of :: "nat \<Rightarrow> pystr \<Rightarrow> nat" where
  "limit_of limit key = (if key = MAIN_TEXT then limit else 328)"

lemma channels_ok_get:
  assumes "channels_ok limit cs" "channels_get env key cs = (ch, cs')"
  shows "channels_ok limit cs' \<and> channel_ok (limit_of limit key) (ch_redactor ch)"
  using assms channel_ok_default
  by (auto simp: channels_ok_def channels_get_def limit_of_def Let_def dest: map_of_SomeD
      split: if_splits option.splits)

lemma set_update_cases: "(k, v) \<in> set (AList.update key x d) \<Longrightarrow> (k, v) = (key, x) \<or> (k, v) \<in> set d"
  by (induction d) (auto split: if_splits)

lemma channels_ok_remember: "channels_ok limit cs \<Longrightarrow> channels_ok limit (channels_remember key rb cs)"
  by (auto simp: channels_ok_def channels_remember_def split: option.splits
      dest!: set_update_cases map_of_SomeD)

lemma channels_ok_set:
  "channels_ok limit cs \<Longrightarrow> channel_ok (limit_of limit key) r \<Longrightarrow> channels_ok limit (set_redactor key r cs)"
  by (auto simp: channels_ok_def set_redactor_def limit_of_def split: option.splits if_splits dest!: set_update_cases)

lemma channels_ok_flush_keys: "channels_ok limit cs \<Longrightarrow> channels_ok limit (fst (snd (flush_keys env keys cs)))"
proof (induction keys arbitrary: cs)
  case (Cons key keys)
  obtain ch cs1 where 1: "channels_get env key cs = (ch, cs1)" by fastforce
  from channels_ok_get [OF Cons.prems 1] have ok: "channels_ok limit cs1" "channel_ok (limit_of limit key) (ch_redactor ch)"
    by auto
  obtain remaining r where 2: "flush_redactor env (ch_redactor ch) = (remaining, r)" by fastforce
  with channel_ok_flush [OF ok(2), of env] have "channels_ok limit (set_redactor key r cs1)"
    by (intro channels_ok_set ok(1)) simp
  with Cons.IH [OF this] show ?case
    by (auto simp: 1 2 Let_def split: option.splits prod.splits)
qed simp

lemma channels_ok_located:
  "channels_ok limit cs \<Longrightarrow> channels_ok limit (snd (feed_located env name payload located updated released cs))"
proof (induction located arbitrary: updated released cs)
  case (Cons loc located)
  obtain key path s where loc: "loc = (key, path, s)" by (cases loc)
  obtain ch cs1 where 1: "channels_get env key cs = (ch, cs1)" by fastforce
  from channels_ok_get [OF Cons.prems 1] have ok: "channels_ok limit cs1" "channel_ok (limit_of limit key) (ch_redactor ch)"
    by auto
  obtain safe r where 2: "feed_redactor env (ch_redactor ch) s = (safe, r)" by fastforce
  let ?cs = "channels_remember key \<lparr>rb_payload = payload, rb_path = path, rb_event = name\<rparr> cs1"
  from channel_ok_feed [OF ok(2), of env s] 2 channels_ok_remember [OF ok(1)]
  have "channels_ok limit (set_redactor key r ?cs)"
    by (intro channels_ok_set) auto
  with Cons.IH [OF this] show ?case
    by (auto simp: loc 1 2 Let_def split: option.splits)
qed simp

text \<open>The buckets of \<open>handle\<close>, one equation each.\<close>

lemma handle_not_json:
  "event_json ev = JNull \<Longrightarrow>
   handle_event env policy ev st = ([ev\<lparr>ev_data := redact_text (ge_regex env) (ev_data ev)\<rparr>], st, False)"
  by (simp add: handle_event_def Let_def)

lemma handle_thinking:
  "event_json ev \<noteq> JNull \<Longrightarrow> is_thinking (event_json ev) = Some True \<Longrightarrow>
   handle_event env policy ev st =
     (if po_thinking policy = POLICY_DROP then ([], st\<lparr>ss_dropped := ss_dropped st + 1\<rparr>, False)
      else if po_thinking policy = POLICY_REDACT
        then ([serialise (ev_event ev) (redact_leaves (ge_regex env) (event_json ev))], st, False)
      else ([ev], st, False))"
  by (simp add: handle_event_def Let_def)

lemma handle_unhashable:
  "event_json ev \<noteq> JNull \<Longrightarrow> is_thinking (event_json ev) = None \<Longrightarrow> handle_event env policy ev st = ([], st, True)"
  by (simp add: handle_event_def Let_def)

lemma handle_located:
  assumes "event_json ev \<noteq> JNull" "is_thinking (event_json ev) = Some False"
    "locate_texts (ge_ucd env) (event_json ev) = loc # locs"
  shows "handle_event env policy ev st =
    (let (result, cs) = feed_located (ge_regex env) (ev_event ev) (event_json ev) (loc # locs) (event_json ev) False
                          ((ss_channels st)\<lparr>cs_saw_text := True\<rparr>)
     in case result of None \<Rightarrow> ([], st\<lparr>ss_channels := cs\<rparr>, True)
        | Some (updated, released) \<Rightarrow>
            (if released then [serialise (ev_event ev) updated] else [], st\<lparr>ss_channels := cs\<rparr>, False))"
  using assms by (simp add: handle_event_def Let_def del: feed_located.simps)

definition stop_frame :: "sse_event \<Rightarrow> bool option" where
  "stop_frame ev =
     (if ev_event ev = Some BLOCK_STOP_EVENT then Some True
      else case event_json ev of JObj d \<Rightarrow> Some (jget (str ''type'') d = JStr BLOCK_STOP_EVENT) | _ \<Rightarrow> None)"

lemma handle_unrecognised:
  assumes "event_json ev \<noteq> JNull" "is_thinking (event_json ev) = Some False"
    "locate_texts (ge_ucd env) (event_json ev) = []"
  shows "handle_event env policy ev st =
    (case stop_frame ev of
       None \<Rightarrow> ([], st, True)
     | Some stop \<Rightarrow>
         (let (flushed, cs, raised) =
                (if stop then channels_flush (ge_regex env) (ss_channels st) else ([], ss_channels st, False));
              st' = st\<lparr>ss_channels := cs\<rparr>
          in if raised then (flushed, st', True)
             else if po_unknown_schema policy = POLICY_BLOCK
               then (flushed, st'\<lparr>ss_dropped := ss_dropped st' + 1\<rparr>, False)
             else if po_unknown_schema policy = POLICY_PASS then (flushed @ [ev], st', False)
             else (flushed @ [serialise (ev_event ev) (redact_leaves (ge_regex env) (event_json ev))], st', False)))"
  using assms by (simp add: handle_event_def stop_frame_def Let_def cong: option.case_cong)

lemmas handle_buckets = handle_not_json handle_thinking handle_unhashable handle_located handle_unrecognised

lemma channels_ok_handle:
  assumes "channels_ok limit (ss_channels st)"
  shows "channels_ok limit (ss_channels (fst (snd (handle_event env policy ev st))))"
proof (cases "event_json ev = JNull")
  case True
  with assms show ?thesis by (simp add: handle_not_json)
next
  case json: False
  show ?thesis
  proof (cases "is_thinking (event_json ev)")
    case None
    with json assms show ?thesis by (simp add: handle_unhashable)
  next
    case (Some thinking)
    show ?thesis
    proof (cases thinking)
      case True
      with json Some assms show ?thesis by (simp add: handle_thinking)
    next
      case False
      with Some have think: "is_thinking (event_json ev) = Some False" by simp
      show ?thesis
      proof (cases "locate_texts (ge_ucd env) (event_json ev)")
        case Nil
        have "channels_ok limit (fst (snd (channels_flush (ge_regex env) (ss_channels st))))"
          unfolding channels_flush_def by (rule channels_ok_flush_keys [OF assms])
        with assms show ?thesis
          unfolding handle_unrecognised [OF json think Nil]
          by (cases "stop_frame ev"; cases "channels_flush (ge_regex env) (ss_channels st)") (simp_all add: Let_def)
      next
        case (Cons loc locs)
        have "channels_ok limit ((ss_channels st)\<lparr>cs_saw_text := True\<rparr>)"
          using assms by (simp add: channels_ok_def)
        note fed = channels_ok_located [OF this, of "ge_regex env" "ev_event ev" "event_json ev" "loc # locs" "event_json ev" False]
        show ?thesis
          unfolding handle_located [OF json think Cons] using fed
          by (auto simp: Let_def simp del: feed_located.simps split: prod.split option.split)
      qed
    qed
  qed
qed

lemma channels_ok_handles:
  "channels_ok limit (ss_channels st) \<Longrightarrow>
   channels_ok limit (ss_channels (fst (snd (handle_events env policy evs st))))"
proof (induction evs arbitrary: st)
  case (Cons ev evs)
  obtain outs st1 raised where 1: "handle_event env policy ev st = (outs, st1, raised)"
    by (cases "handle_event env policy ev st") auto
  with channels_ok_handle [OF Cons.prems, of env policy ev] have ok: "channels_ok limit (ss_channels st1)" by simp
  with Cons.IH [OF ok] 1 show ?case
    by (simp add: case_prod_unfold Let_def)
qed simp

text \<open>
  C34. The stream's memory is bounded, channel by channel: whatever frames came, of whatever
  shape, each redactor in the registry holds back at most its ceiling (the injected one's, 328
  for every other), and nothing while it suppresses a run.
\<close>

theorem channels_bounded:
  "channels_ok limit (ss_channels (fst (snd
     (handle_events env policy evs \<lparr>ss_channels = new_channels (fresh_redactor ps ph limit), ss_dropped = 0\<rparr>))))"
  by (rule channels_ok_handles)
    (simp add: channels_ok_def new_channels_def channel_ok_def redactor_inv_def fresh_redactor_def)

section \<open>How a stream ends\<close>

lemma handle_events_append:
  "handle_events env policy (a @ b) st =
     (let (outs, st1, raised) = handle_events env policy a st
      in if raised then (outs, st1, True)
         else (let (outs2, st2, raised2) = handle_events env policy b st1 in (outs @ outs2, st2, raised2)))"
  by (induction a arbitrary: st) (simp_all add: case_prod_unfold Let_def)


lemma redact_sse_stream_parse:
  assumes "handle_events env policy (parse_stream upstream) \<lparr>ss_channels = new_channels r, ss_dropped = 0\<rparr> = (outs, st, False)"
  shows "redact_sse_stream env policy r upstream False =
    (let (flushed, _, raised) = channels_flush (ge_regex env) (ss_channels st)
     in (outs @ flushed, if raised then Aborted else Completed))"
proof -
  let ?st = "\<lparr>ss_channels = new_channels r, ss_dropped = 0\<rparr>"
  obtain parser evs where parse: "parser_feeds new_parser upstream = (parser, evs)" by fastforce
  obtain outs1 st1 raised where 1: "handle_events env policy evs ?st = (outs1, st1, raised)"
    by (cases "handle_events env policy evs ?st") auto
  obtain outs2 st2 raised2 where 2: "handle_events env policy (snd (parser_flush parser)) st1 = (outs2, st2, raised2)"
    by (cases "handle_events env policy (snd (parser_flush parser)) st1") auto
  have "\<not> raised" "\<not> raised2" "outs = outs1 @ outs2" "st = st2"
    using assms by (auto simp: parse_stream_def parse handle_events_append 1 2 Let_def split: if_splits)
  then show ?thesis
    by (simp add: redact_sse_stream_def parse 1 2 Let_def case_prod_unfold)
qed

section \<open>Text deltas are redacted as one text\<close>

definition text_delta :: "pystr \<Rightarrow> sse_event" where
  "text_delta s = serialise (Some TEXT_DELTA_EVENT) (text_delta_payload s)"

lemma text_delta_wf: "valid_str s \<Longrightarrow> wf_json float_repr (text_delta_payload s)"
  by (auto simp: text_delta_payload_def TEXT_DELTA_EVENT_def nat_digits.simps [of 0])

lemma compact_separators: "separator 44 [44]" "separator 58 [58]"
  by (auto simp: separator_def)

lemma serialise_reads: "wf_json float_repr payload \<Longrightarrow> event_json (serialise name payload) = payload"
  using loads_dumps [OF compact_separators] by (simp add: event_json_def serialise_def)

lemma text_delta_json: "valid_str s \<Longrightarrow> event_json (text_delta s) = text_delta_payload s"
  unfolding text_delta_def by (intro serialise_reads text_delta_wf)

lemma text_delta_located:
  "locate_texts db (text_delta_payload s) = [(MAIN_TEXT, [Key (str ''delta''), Key (str ''text'')], s)]"
  "is_thinking (text_delta_payload s) = Some False"
  by (simp_all add: locate_texts_def locate_delta_def is_thinking_def text_delta_payload_def zero_or_none_def
      THINKING_DELTA_TYPES_def jget_or_def)

lemma text_delta_replace:
  "replace_at (text_delta_payload s) [Key (str ''delta''), Key (str ''text'')] t = Some (text_delta_payload t)"
  by (simp add: text_delta_payload_def)

lemma text_delta_payload_not_null: "text_delta_payload s \<noteq> JNull"
  by (simp add: text_delta_payload_def)

text \<open>A text delta in, at most one text delta out.\<close>

definition delta_rebuild :: "pystr \<Rightarrow> rebuild" where
  "delta_rebuild s =
     \<lparr>rb_payload = text_delta_payload s, rb_path = [Key (str ''delta''), Key (str ''text'')],
      rb_event = Some TEXT_DELTA_EVENT\<rparr>"

lemma handle_text_delta:
  assumes "valid_str s" "feed_redactor (ge_regex env) (cs_main (ss_channels st)) s = (safe, r)"
  shows "handle_event env policy (text_delta s) st =
    (if safe = [] then [] else [text_delta safe],
     st\<lparr>ss_channels := (ss_channels st)\<lparr>cs_saw_text := True, cs_rebuild_main := Some (delta_rebuild s), cs_main := r\<rparr>\<rparr>, False)"
proof -
  have json: "event_json (text_delta s) = text_delta_payload s"
    by (rule text_delta_json [OF assms(1)])
  have event: "ev_event (text_delta s) = Some TEXT_DELTA_EVENT"
    by (simp add: text_delta_def serialise_def)
  have located: "event_json (text_delta s) \<noteq> JNull" "is_thinking (event_json (text_delta s)) = Some False"
    "locate_texts (ge_ucd env) (event_json (text_delta s)) = [(MAIN_TEXT, [Key (str ''delta''), Key (str ''text'')], s)]"
    unfolding json by (rule text_delta_payload_not_null, rule text_delta_located(2), rule text_delta_located(1))
  show ?thesis
    unfolding handle_located [OF located] unfolding json event
    by (simp add: channels_get_def channels_remember_def set_redactor_def assms(2) text_delta_replace
        delta_rebuild_def text_delta_def Let_def del: replace_at.simps)
qed

lemma handle_text_deltas:
  "\<forall>s \<in> set ss. valid_str s \<Longrightarrow> feed_chunks (ge_regex env) (cs_main (ss_channels st)) ss = (emits, r) \<Longrightarrow>
   \<exists>st'. handle_events env policy (map text_delta ss) st = (map text_delta (filter (\<lambda>s. s \<noteq> []) emits), st', False) \<and>
     cs_main (ss_channels st') = r \<and> cs_others (ss_channels st') = cs_others (ss_channels st) \<and>
     (\<exists>s. cs_rebuild_main (ss_channels st') = Some (delta_rebuild s) \<or>
          cs_rebuild_main (ss_channels st') = cs_rebuild_main (ss_channels st))"
proof (induction ss arbitrary: st emits r)
  case (Cons s ss)
  obtain safe r1 where 1: "feed_redactor (ge_regex env) (cs_main (ss_channels st)) s = (safe, r1)" by fastforce
  let ?st = "st\<lparr>ss_channels := (ss_channels st)\<lparr>cs_saw_text := True, cs_rebuild_main := Some (delta_rebuild s), cs_main := r1\<rparr>\<rparr>"
  obtain emits' where emits: "emits = safe # emits'" "feed_chunks (ge_regex env) r1 ss = (emits', r)"
    using Cons.prems(2) 1 by (auto simp: Let_def split: prod.splits)
  from Cons.IH [of ?st emits' r] Cons.prems(1) emits(2) obtain st' where
    "handle_events env policy (map text_delta ss) ?st = (map text_delta (filter (\<lambda>s. s \<noteq> []) emits'), st', False)"
    "cs_main (ss_channels st') = r" "cs_others (ss_channels st') = cs_others (ss_channels st)"
    "\<exists>s. cs_rebuild_main (ss_channels st') = Some (delta_rebuild s)"
    by auto
  with handle_text_delta [OF _ 1, of policy] Cons.prems(1) emits(1) show ?case
    by (auto simp: Let_def)
qed auto

text \<open>
  Any texts sent as text deltas, encoded and cut anywhere between two characters: the stream
  ends normally, it is made of text deltas that are not empty, and their texts, put together,
  are what the injected redactor makes of the texts that went in, the held tail included.
\<close>

lemma text_deltas_redacted:
  assumes "\<forall>s \<in> set ss. valid_str s" "concat chunks = concat (map (event_text \<circ> text_delta) ss)"
    "\<forall>c \<in> set chunks. valid_str c"
  shows "\<exists>pieces. redact_sse_stream env policy r (map utf8_encode chunks) False = (map text_delta pieces, Completed) \<and>
    [] \<notin> set pieces \<and> concat pieces = process (ge_regex env) r ss"
proof -
  let ?st = "\<lparr>ss_channels = new_channels r, ss_dropped = 0\<rparr>"
  obtain emits r1 where feeds: "feed_chunks (ge_regex env) r ss = (emits, r1)" by fastforce
  obtain tail r2 where tail: "flush_redactor (ge_regex env) r1 = (tail, r2)" by fastforce
  have "sendable (text_delta s)" if "s \<in> set ss" for s
  proof -
    have "printable_ascii (ev_data (text_delta s))"
      unfolding text_delta_def serialise_def sse_event.select_convs text_delta_payload_def
      by (simp add: printable_quote TEXT_DELTA_EVENT_def str_def)
    then show ?thesis
      by (auto simp: sendable_def printable_ascii_def text_delta_def serialise_def TEXT_DELTA_EVENT_def str_def)
  qed
  with assms(2,3) have parsed: "parse_stream (map utf8_encode chunks) = map text_delta ss"
    by (intro parse_encoded) (auto simp: comp_def)
  from handle_text_deltas [OF assms(1), of env ?st emits r1 policy] feeds obtain st where
    handled: "handle_events env policy (map text_delta ss) ?st = (map text_delta (filter (\<lambda>s. s \<noteq> []) emits), st, False)"
    and st: "cs_main (ss_channels st) = r1" "cs_others (ss_channels st) = []"
      "run_rebuild (cs_rebuild_main (ss_channels st)) tail = Some (text_delta tail)"
    by (auto simp: new_channels_def run_rebuild_def default_text_rebuild_def text_delta_def delta_rebuild_def text_delta_replace
        simp del: replace_at.simps)
  have "channels_flush (ge_regex env) (ss_channels st) =
      (if tail = [] then [] else [text_delta tail], (ss_channels st)\<lparr>cs_main := r2\<rparr>, False)"
    using st tail by (simp add: channels_flush_def channels_get_def set_redactor_def)
  then have "redact_sse_stream env policy r (map utf8_encode chunks) False =
      (map text_delta (filter (\<lambda>s. s \<noteq> []) (emits @ [tail])), Completed)"
    using redact_sse_stream_parse [of env policy "map utf8_encode chunks" r] handled parsed by (simp add: Let_def)
  moreover have "concat (filter (\<lambda>s. s \<noteq> []) xs) = concat xs" for xs :: "pystr list"
    by (induction xs) auto
  ultimately show ?thesis
    using feeds tail
    by (intro exI [of _ "filter (\<lambda>s. s \<noteq> []) (emits @ [tail])"]) (auto simp: process_def)
qed


section \<open>Frames of an unrecognised shape\<close>

lemma set_slice: "set (slice i j s) \<subseteq> set s"
  unfolding slice_def by (meson set_drop_subset set_take_subset subset_trans)

lemma set_splice: "set (splice ph s position spans) \<subseteq> set s \<union> set ph"
  by (induction ph s position spans rule: splice.induct) (use set_slice set_drop_subset in fastforce)+

lemma set_redact_patterns:
  "set s \<subseteq> A \<Longrightarrow> set ph \<subseteq> A \<Longrightarrow> set (fst (redact_patterns engine ph protect ps s st)) \<subseteq> A"
proof (induction ps arbitrary: s st)
  case (Cons p ps)
  from set_splice [of ph s 0] Cons.prems have
    "set (fst (redact_loop (engine (pt_expression p)) p ph protect s 0 0)) \<subseteq> A"
    unfolding redact_loop_scan by fastforce
  from Cons.IH [OF this Cons.prems(2)] show ?case by (simp add: case_prod_unfold Let_def)
qed simp

definition drawn_from :: "nat set \<Rightarrow> redactor \<Rightarrow> bool" where
  "drawn_from A r \<longleftrightarrow> set (rd_buffer r) \<subseteq> A \<and> set (rd_placeholder r) \<subseteq> A"

lemma set_redact: "drawn_from A r \<Longrightarrow> set s \<subseteq> A \<Longrightarrow> redact env r b s = (s', r') \<Longrightarrow> set s' \<subseteq> A"
  using set_redact_patterns [of s A "rd_placeholder r" "rx_engine env" b "rd_patterns r" "rd_stats r"]
  by (auto simp: redact_def drawn_from_def Let_def case_prod_unfold)

lemma drawn_absorb:
  assumes "drawn_from A r" "set s \<subseteq> A"
  shows "set (fst (absorb env r s)) \<subseteq> A \<and> drawn_from A (snd (absorb env r s))"
proof -
  obtain buffer r1 where 1: "redact env r True (rd_buffer r @ s) = (buffer, r1)" by fastforce
  from set_redact [OF assms(1) _ 1] assms have buffer: "set buffer \<subseteq> A" by (simp add: drawn_from_def)
  note cases = absorb_cases [OF 1 refl]
  let ?split = "holdback_index env (rd_patterns r) buffer"
  have "set (take ?split buffer) \<subseteq> A" "set (drop ?split buffer) \<subseteq> A"
    using buffer set_take_subset set_drop_subset by (meson subset_trans)+
  with cases assms(1) show ?thesis
    by (cases "length buffer - ?split \<le> rd_max_holdback r") (auto simp: drawn_from_def same_setup_def)
qed

lemma drawn_redact_text: "set s \<union> set REDACTION_PLACEHOLDER \<subseteq> A \<Longrightarrow> set (redact_text env s) \<subseteq> A"
proof -
  assume A: "set s \<union> set REDACTION_PLACEHOLDER \<subseteq> A"
  let ?r = "default_redactor env"
  have drawn: "drawn_from A ?r"
    using A by (simp add: drawn_from_def default_redactor_def fresh_redactor_def)
  have feed: "set (fst (feed_redactor env ?r s)) \<subseteq> A \<and> drawn_from A (snd (feed_redactor env ?r s))"
    using drawn drawn_absorb [of A "?r\<lparr>rd_stats := (rd_stats ?r)\<lparr>st_characters_in := st_characters_in (rd_stats ?r) + length s\<rparr>\<rparr>" s env] A
    by (auto simp: feed_redactor_def Let_def drawn_from_def default_redactor_def fresh_redactor_def)
  then obtain emit r1 where 1: "feed_redactor env ?r s = (emit, r1)" "set emit \<subseteq> A" "drawn_from A r1"
    by (cases "feed_redactor env ?r s") auto
  have "set (fst (flush_redactor env r1)) \<subseteq> A"
    using set_redact [OF 1(3), of "rd_buffer r1" env False] 1(3)
    by (auto simp: flush_redactor_def Let_def drawn_from_def split: prod.splits)
  with 1 show ?thesis by (simp add: redact_text_def process_def case_prod_unfold)
qed

lemma valid_redact_text: "valid_str s \<Longrightarrow> valid_str (redact_text env s)"
  using drawn_redact_text [of s "{c. valid_cp c}" env]
  by (auto simp: valid_str_def REDACTION_PLACEHOLDER_def str_def valid_cp_def)

lemma wf_redact_leaves: "wf_json fr v \<Longrightarrow> wf_json fr (redact_leaves env v)"
proof (induction v)
  case (JArr xs)
  then show ?case by auto
next
  case (JObj kvs)
  have wf: "wf_json fr (redact_leaves env x)" if "(k, x) \<in> set kvs" for k x
    using JObj that by fastforce
  have fst: "map fst (map (\<lambda>(k, x). (k, redact_leaves env x)) kvs) = map fst kvs"
    by (simp add: case_prod_unfold comp_def)
  show ?case
    using JObj.prems wf unfolding redact_leaves.simps wf_json.simps fst by fastforce
qed (simp_all add: valid_redact_text)


section \<open>Examples, and two leaks\<close>

definition demo_guard :: guard_env where
  "demo_guard = \<lparr>ge_regex = demo_regex, ge_ucd = small_db\<rparr>"

definition default_policy :: stream_policy where
  "default_policy = \<lparr>po_thinking = POLICY_DROP, po_unknown_schema = POLICY_REDACT\<rparr>"

lemma default_policy_env: "policy_from_env (\<lambda>_. None) = default_policy"
  by code_simp

definition demo_note :: sse_event where
  "demo_note = serialise (Some (str ''note'')) (JObj [(str ''memo'', JStr (str ''ssn 123-45-6789''))])"

lemma demo_note_json: "event_json demo_note = JObj [(str ''memo'', JStr (str ''ssn 123-45-6789''))]"
  unfolding demo_note_def by (intro serialise_reads) simp




definition delta_choice :: "pystr \<Rightarrow> json" where
  "delta_choice s = JObj [(str ''delta'', JObj [(str ''content'', JStr s)])]"

definition two_choices :: "pystr \<Rightarrow> pystr \<Rightarrow> sse_event" where
  "two_choices a b = serialise None (JObj [(str ''choices'', JArr [delta_choice a, delta_choice b])])"

definition beside_content :: "pystr \<Rightarrow> pystr \<Rightarrow> sse_event" where
  "beside_content content refusal =
     serialise None (JObj [(str ''choices'', JArr [JObj [(str ''delta'',
       JObj [(str ''content'', JStr content), (str ''refusal'', JStr refusal)])]])])"

text \<open>
  Where the stream leaks. The release of held text re-emits the payload it was found in:
  with two choices in one frame, the held tail of the first comes out with the second choice's
  text as it arrived. And in a frame with a located text every other string is relayed as it
  came: here a number in \<open>refusal\<close>, beside \<open>content\<close>.
\<close>

theorem frames_that_leak:
  "(\<exists>frame \<in> set (fst (redact_sse_stream demo_guard default_policy (default_redactor demo_regex)
       [encode_event (two_choices (str ''x 123-4'') (str ''123-45-6789 ok''))] False)).
     sublist (str ''123-45-6789'') (ev_data frame)) \<and>
   (\<exists>frame \<in> set (fst (redact_sse_stream demo_guard default_policy (default_redactor demo_regex)
       [encode_event (beside_content (str ''hi '') (str ''123-45-6789''))] False)).
     sublist (str ''123-45-6789'') (ev_data frame))"
proof
  show "\<exists>frame \<in> set (fst (redact_sse_stream demo_guard default_policy (default_redactor demo_regex)
       [encode_event (two_choices (str ''x 123-4'') (str ''123-45-6789 ok''))] False)).
     sublist (str ''123-45-6789'') (ev_data frame)"
    by code_simp
  show "\<exists>frame \<in> set (fst (redact_sse_stream demo_guard default_policy (default_redactor demo_regex)
       [encode_event (beside_content (str ''hi '') (str ''123-45-6789''))] False)).
     sublist (str ''123-45-6789'') (ev_data frame)"
    by code_simp
qed

text \<open>A JSON payload that is no object ends the stream: \<open>payload.get\<close> raises.\<close>

lemma array_frame_ends_stream:
  "redact_sse_stream demo_guard default_policy (default_redactor demo_regex) [str ''data: [1]'' @ [10, 10]] False =
     ([error_frame], ErrorReported)"
  by code_simp

end
