(* ===== verification/Gd_App.thy ===== *)
theory Gd_App
  imports Gw_App Gd_Live
begin

text \<open>
  \<open>llm_guardrail/app.py\<close> and \<open>config.py\<close>: the guardrail's proxy. The provider, behind
  \<open>httpx\<close>, is an argument: what it does with the one request a handler sends. A handler
  returns the request it sent, if any, and how it ends.
\<close>

section \<open>Configuration\<close>

record gd_config =
  gd_upstream_url :: pystr
  gd_request_timeout_seconds :: pyfloat
  gd_read_timeout_seconds :: pyfloat
  gd_tokens :: "pystr list"  \<comment> \<open>a frozenset, without repetition\<close>
  gd_trusted_network :: bool
  gd_max_body_bytes :: int

definition requires_authentication :: "gd_config \<Rightarrow> bool" where
  "requires_authentication config \<longleftrightarrow> gd_tokens config \<noteq> []"

definition describe_trust_boundary :: "gd_config \<Rightarrow> pystr" where
  "describe_trust_boundary config =
     (if requires_authentication config
      then str ''authenticated: '' @ int_digits (int (length (gd_tokens config))) @ str '' bearer token(s) accepted''
      else str ''UNAUTHENTICATED. This proxy relays the caller'' @ [39] @ str ''s own provider credential to ''
        @ gd_upstream_url config @ str '' and does not check who is calling. Anyone who can reach ''
        @ str ''this port can use it as a relay. Deploy it on a private network behind an ''
        @ str ''authenticating gateway, or set LLM_GUARDRAIL_TOKENS to require a bearer token.'')"

text \<open>\<open>Config.from_env\<close>; \<open>None\<close> is a \<open>ValueError\<close> from \<open>float\<close> or \<open>int\<close>.\<close>

definition gd_config_from_env :: "py_runtime \<Rightarrow> gd_config option" where
  "gd_config_from_env rt =
     (let tokens = remdups (filter (\<lambda>t. t \<noteq> []) (map py_strip (py_split 44 (getenv rt ''LLM_GUARDRAIL_TOKENS'' ''''))))
      in case (rt_float rt (getenv rt ''LLM_GUARDRAIL_CONNECT_TIMEOUT'' ''10''),
               rt_float rt (getenv rt ''LLM_GUARDRAIL_READ_TIMEOUT'' ''600''),
               py_int (getenv rt ''LLM_GUARDRAIL_MAX_BODY_BYTES'' ''4194304'')) of
           (Some connect, Some read, Some n) \<Rightarrow> Some
             \<lparr>gd_upstream_url = getenv rt ''LLM_UPSTREAM_URL'' ''http://127.0.0.1:8091/v1/messages'',
              gd_request_timeout_seconds = connect, gd_read_timeout_seconds = read, gd_tokens = tokens,
              gd_trusted_network = (tokens = []), gd_max_body_bytes = n\<rparr>
         | _ \<Rightarrow> None)"

section \<open>Headers and authentication\<close>

definition DROP_REQUEST_HEADERS :: "pystr list" where
  "DROP_REQUEST_HEADERS =
     map str [''host'', ''content-length'', ''connection'', ''transfer-encoding'', ''keep-alive'', ''upgrade'']"

definition DROP_RESPONSE_HEADERS :: "pystr list" where
  "DROP_RESPONSE_HEADERS =
     map str [''content-length'', ''content-encoding'', ''connection'', ''transfer-encoding'', ''keep-alive'']"

definition forward_headers :: "headers \<Rightarrow> headers" where
  "forward_headers hs = dict_of (filter (\<lambda>(k, v). py_lower k \<notin> set DROP_REQUEST_HEADERS) hs)"

definition response_headers :: "headers \<Rightarrow> headers" where
  "response_headers hs = dict_of (filter (\<lambda>(k, v). py_lower k \<notin> set DROP_RESPONSE_HEADERS) hs)"

definition authorized :: "gd_config \<Rightarrow> http_request \<Rightarrow> bool" where
  "authorized config request =
     (if \<not> requires_authentication config then True
      else
        (let header = (case header_get (str ''authorization'') (rq_headers request) of None \<Rightarrow> [] | Some h \<Rightarrow> h);
             (scheme, _, token) = py_partition 32 header
         in if py_lower scheme \<noteq> str ''bearer'' then False
            else (let candidate = utf8_encode (py_strip token)
                  in \<exists>known \<in> set (gd_tokens config). candidate = utf8_encode known)))"

definition guard_error :: "string \<Rightarrow> string \<Rightarrow> json" where
  "guard_error kind message =
     JObj [(str ''type'', JStr (str ''error'')),
           (str ''error'', JObj [(str ''type'', JStr (str kind)), (str ''message'', JStr (str message))])]"

section \<open>The provider\<close>

record guard_request =
  gq_url :: pystr
  gq_body :: bytes
  gq_headers :: headers
  gq_connect_timeout :: pyfloat  \<comment> \<open>also for writing and for the pool\<close>
  gq_read_timeout :: pyfloat

text \<open>A streamed answer: the chunks that arrive, and whether reading them then fails.\<close>

record provider_answer =
  pa_status :: int
  pa_headers :: headers
  pa_chunks :: "bytes list"
  pa_fails :: bool

datatype provider_result =
    Responds provider_answer
  | HttpError  \<comment> \<open>\<open>httpx.HTTPError\<close>\<close>
  | OtherError  \<comment> \<open>anything else, not handled\<close>

type_synonym guard_provider = "guard_request \<Rightarrow> provider_result"

text \<open>
  How a handler ends: a whole response, a stream of frames, or an exception it does not handle,
  which the server answers with a 500.
\<close>

datatype guard_outcome =
    Reply http_response
  | Streams int headers "sse_event list" ending
  | Unhandled

section \<open>The handlers\<close>

text \<open>Whether the caller asked for a stream; \<open>None\<close> is an exception that is not caught.\<close>

definition wants_stream :: "bytes \<Rightarrow> bool option" where
  "wants_stream body =
     (if body = [] then Some True
      else
        (case loads_bytes body of
           Inl e \<Rightarrow> if is_decode_error e then Some True else None
         | Inr (JObj d) \<Rightarrow> Some (truthy (jget_or (JBool True) (str ''stream'') d))
         | Inr _ \<Rightarrow> Some True))"

definition redact_message_body :: "guard_env \<Rightarrow> json \<Rightarrow> json" where
  "redact_message_body env payload = redact_leaves (ge_regex env) payload"

text \<open>The answer of the provider, read whole.\<close>

definition relay_whole :: "guard_env \<Rightarrow> provider_answer \<Rightarrow> guard_outcome" where
  "relay_whole env answer =
     (if pa_fails answer then Unhandled
      else
        (let content = concat (pa_chunks answer)
         in case loads_bytes content of
              Inl e \<Rightarrow>
                if is_decode_error e then
                  Reply \<lparr>hr_status = pa_status answer, hr_headers = response_headers (pa_headers answer),
                         hr_media = None, hr_body = RawBody content\<rparr>
                else Unhandled
            | Inr payload \<Rightarrow>
                Reply (json_response (redact_message_body env payload) (pa_status answer)
                         (response_headers (pa_headers answer)))))"

definition content_type :: "headers \<Rightarrow> pystr" where
  "content_type hs = (case header_get (str ''content-type'') hs of None \<Rightarrow> [] | Some t \<Rightarrow> t)"

definition guard_request_of :: "gd_config \<Rightarrow> http_request \<Rightarrow> bytes \<Rightarrow> guard_request" where
  "guard_request_of config request body =
     \<lparr>gq_url = gd_upstream_url config, gq_body = body, gq_headers = forward_headers (rq_headers request),
      gq_connect_timeout = gd_request_timeout_seconds config, gq_read_timeout = gd_read_timeout_seconds config\<rparr>"

definition handle_messages_guard ::
  "py_runtime \<Rightarrow> guard_env \<Rightarrow> gd_config \<Rightarrow> guard_provider \<Rightarrow> http_request \<Rightarrow> guard_request option \<times> guard_outcome"
where
  "handle_messages_guard rt env config provider request =
     (if \<not> authorized config request then
        (None, Reply (json_response (guard_error ''authentication_error'' ''Invalid or missing bearer token.'') 401
                        [(str ''WWW-Authenticate'', str ''Bearer realm='' @ [34] @ str ''llm-guardrail'' @ [34])]))
      else
        (case read_bounded_body (gd_max_body_bytes config) request of
           BadContentLength \<Rightarrow> (None, Unhandled)
         | BodyTooLarge \<Rightarrow>
             (None, Reply (json_response (guard_error ''invalid_request_error'' ''Request body is too large.'') 413 []))
         | BodyRead body \<Rightarrow>
             (case wants_stream body of
                None \<Rightarrow> (None, Unhandled)
              | Some streaming \<Rightarrow>
                  (let sent = guard_request_of config request body
                   in (Some sent,
                       case provider sent of
                         HttpError \<Rightarrow>
                           Reply (json_response (guard_error ''api_error'' ''The upstream model provider is unavailable.'')
                                    502 [])
                       | OtherError \<Rightarrow> Unhandled
                       | Responds answer \<Rightarrow>
                           if \<not> streaming \<or> \<not> prefix (str ''text/event-stream'') (content_type (pa_headers answer))
                           then relay_whole env answer
                           else
                             (let (frames, e) = redact_sse_stream env (policy_from_env (rt_environ rt))
                                                  (default_redactor (ge_regex env)) (pa_chunks answer) (pa_fails answer)
                              in Streams (pa_status answer) (response_headers (pa_headers answer)) frames e))))))"

definition gd_handle_health :: "gd_config \<Rightarrow> http_response" where
  "gd_handle_health config =
     json_response (JObj [(str ''status'', JStr (str ''ok'')), (str ''upstream'', JStr (gd_upstream_url config))]) 200 []"

section \<open>What the proxy guarantees\<close>

text \<open>With tokens configured, a caller is let in by a bearer token that is one of them.\<close>

lemma authorized_iff:
  assumes "requires_authentication config" "\<forall>t \<in> set (gd_tokens config). valid_str t" "valid_str token"
    "header_get (str ''authorization'') (rq_headers request) = Some (scheme @ 32 # token)" "32 \<notin> set scheme"
  shows "authorized config request \<longleftrightarrow> py_lower scheme = str ''bearer'' \<and> py_strip token \<in> set (gd_tokens config)"
proof -
  have part: "py_partition 32 (scheme @ 32 # token) = (scheme, True, token)"
  proof -
    have "takeWhile (\<lambda>x. x \<noteq> 32) (scheme @ 32 # token) = scheme @ takeWhile (\<lambda>x. x \<noteq> 32) (32 # token)"
      "dropWhile (\<lambda>x. x \<noteq> 32) (scheme @ 32 # token) = dropWhile (\<lambda>x. x \<noteq> 32) (32 # token)"
      using assms(5) by (intro takeWhile_append2 dropWhile_append2; auto)+
    then show ?thesis by (simp add: py_partition_def)
  qed
  have "valid_str (py_strip token)"
    using assms(3) set_strip_by [of py_isspace token] by (auto simp: valid_str_def py_strip_def)
  then have "utf8_encode (py_strip token) = utf8_encode t \<longleftrightarrow> py_strip token = t" if "t \<in> set (gd_tokens config)" for t
    using utf8_encode_inject assms(2) that by blast
  with assms(1,4) part show ?thesis
    by (auto simp: authorized_def Let_def)
qed

lemma forward_headers_kept:
  assumes "(k, v) \<in> set (forward_headers hs)"
  shows "py_lower k \<notin> set DROP_REQUEST_HEADERS \<and> k \<in> fst ` set hs"
proof -
  have "k \<in> fst ` set (filter (\<lambda>(k, v). py_lower k \<notin> set DROP_REQUEST_HEADERS) hs)"
    using assms keys_dict_of [of "filter (\<lambda>(k, v). py_lower k \<notin> set DROP_REQUEST_HEADERS) hs"]
    unfolding forward_headers_def by force
  then show ?thesis by force
qed

lemma handle_messages_guard_sent:
  assumes "fst (handle_messages_guard rt env config provider request) = Some sent"
  shows "authorized config request"
    and "\<exists>body. read_bounded_body (gd_max_body_bytes config) request = BodyRead body \<and>
      sent = guard_request_of config request body"
proof -
  show auth: "authorized config request"
    using assms by (simp add: handle_messages_guard_def split: if_split_asm)
  show "\<exists>body. read_bounded_body (gd_max_body_bytes config) request = BodyRead body \<and>
      sent = guard_request_of config request body"
    using assms auth by (cases "read_bounded_body (gd_max_body_bytes config) request")
      (simp_all add: handle_messages_guard_def Let_def split: option.split_asm)
qed

text \<open>
  C37. The gate of the proxy: the provider is called only for a caller the configuration lets in,
  at the configured address and nowhere else, with exactly the bytes the caller sent, which
  never exceed the cap, and without the hop-by-hop headers; a caller that is refused is
  answered 401, a body over the cap 413, before the provider hears of either.
\<close>

theorem proxy_gate:
  "(\<forall>sent. fst (handle_messages_guard rt env config provider request) = Some sent \<longrightarrow>
      authorized config request \<and> gq_url sent = gd_upstream_url config \<and>
      gq_body sent = concat (rq_chunks request) \<and>
      (0 \<le> gd_max_body_bytes config \<longrightarrow> int (length (gq_body sent)) \<le> gd_max_body_bytes config) \<and>
      (\<forall>(k, v) \<in> set (gq_headers sent). py_lower k \<notin> set DROP_REQUEST_HEADERS)) \<and>
   (\<not> authorized config request \<longrightarrow>
      (\<exists>r. handle_messages_guard rt env config provider request = (None, Reply r) \<and> hr_status r = 401)) \<and>
   (authorized config request \<longrightarrow> read_bounded_body (gd_max_body_bytes config) request = BodyTooLarge \<longrightarrow>
      (\<exists>r. handle_messages_guard rt env config provider request = (None, Reply r) \<and> hr_status r = 413))"
proof (intro conjI allI impI)
  fix sent
  assume sent: "fst (handle_messages_guard rt env config provider request) = Some sent"
  note auth = handle_messages_guard_sent(1) [OF sent]
  obtain body where body: "read_bounded_body (gd_max_body_bytes config) request = BodyRead body"
      "sent = guard_request_of config request body"
    using handle_messages_guard_sent(2) [OF sent] by blast
  have "\<forall>(k, v) \<in> set (gq_headers sent). py_lower k \<notin> set DROP_REQUEST_HEADERS"
    using forward_headers_kept by (fastforce simp: body(2) guard_request_of_def)
  with auth read_bounded_body_BodyRead [OF body(1)] body(2)
  show "authorized config request" "gq_url sent = gd_upstream_url config" "gq_body sent = concat (rq_chunks request)"
    "0 \<le> gd_max_body_bytes config \<Longrightarrow> int (length (gq_body sent)) \<le> gd_max_body_bytes config"
    "\<forall>(k, v) \<in> set (gq_headers sent). py_lower k \<notin> set DROP_REQUEST_HEADERS"
    by (simp_all add: guard_request_of_def)
qed (simp_all add: handle_messages_guard_def json_response_def)

text \<open>
  The provider is sent the very header that let the caller in. A proxy that requires its own
  bearer token (\<open>LLM_GUARDRAIL_TOKENS\<close>) therefore passes that token on to the provider, as
  the provider's credential: \<open>_forward_headers\<close> assumes that the proxy does not authenticate.
\<close>

lemma forward_headers_lookup:
  "header_get k (forward_headers hs) = (if py_lower k \<in> set DROP_REQUEST_HEADERS then None else header_get k (rev hs))"
  by (simp add: header_get_def forward_headers_def map_of_dict_of rev_filter
      map_of_filter_key [where P = "\<lambda>k. py_lower k \<notin> set DROP_REQUEST_HEADERS"])

lemma authorized_has_header:
  assumes "authorized config request" "requires_authentication config"
  shows "\<exists>h. header_get (str ''authorization'') (rq_headers request) = Some h"
  using assms by (cases "header_get (str ''authorization'') (rq_headers request)")
    (simp_all add: authorized_def py_partition_def py_lower_def)

theorem proxy_token_goes_upstream:
  assumes "fst (handle_messages_guard rt env config provider request) = Some sent"
    "requires_authentication config" "distinct (map fst (rq_headers request))"
  shows "\<exists>h. header_get (str ''authorization'') (gq_headers sent) = Some h \<and>
      header_get (str ''authorization'') (rq_headers request) = Some h"
proof -
  obtain body where "sent = guard_request_of config request body"
    using handle_messages_guard_sent(2) [OF assms(1)] by blast
  moreover have "py_lower (str ''authorization'') \<notin> set DROP_REQUEST_HEADERS"
    by code_simp
  moreover have "map_of (rev (rq_headers request)) = map_of (rq_headers request)"
    using assms(3) by (intro map_of_inject_set [THEN iffD2]) (simp_all add: rev_map [symmetric])
  ultimately show ?thesis
    using authorized_has_header [OF handle_messages_guard_sent(1) [OF assms(1)] assms(2)]
    by (simp add: guard_request_of_def forward_headers_lookup [unfolded header_get_def] header_get_def)
qed

text \<open>
  What reaches the caller of an answer read whole: JSON comes out with every string leaf
  redacted, in the same structure and with the provider's status; the provider's own bytes
  are relayed exactly when they are no JSON document, and then unredacted.
\<close>

theorem whole_answer_redacted:
  "(\<forall>payload. \<not> pa_fails answer \<and> loads_bytes (concat (pa_chunks answer)) = Inr payload \<longrightarrow>
      (\<exists>r j. relay_whole env answer = Reply r \<and> hr_status r = pa_status answer \<and> hr_body r = JsonBody j \<and>
         leaves j = map (redact_text (ge_regex env)) (leaves payload) \<and> skeleton j = skeleton payload)) \<and>
   ((\<exists>r content. relay_whole env answer = Reply r \<and> hr_body r = RawBody content) \<longleftrightarrow>
      \<not> pa_fails answer \<and> (\<exists>e. loads_bytes (concat (pa_chunks answer)) = Inl e \<and> is_decode_error e)) \<and>
   (\<forall>r content. relay_whole env answer = Reply r \<and> hr_body r = RawBody content \<longrightarrow> content = concat (pa_chunks answer))"
  using redacted_leaves
  by (auto simp: relay_whole_def redact_message_body_def json_response_def Let_def split: sum.splits if_splits)

definition demo_answer :: provider_answer where
  "demo_answer =
     \<lparr>pa_status = 200, pa_headers = [(str ''content-type'', str ''text/plain'')],
      pa_chunks = [str ''ssn 123-'', str ''45-6789''], pa_fails = False\<rparr>"

theorem whole_answer_redacted_witness:
  "\<exists>r. relay_whole demo_guard demo_answer = Reply r \<and> hr_body r = RawBody (str ''ssn 123-45-6789'')"
proof -
  have "loads_bytes (concat (pa_chunks demo_answer)) = Inl ExpectingValue" "\<not> pa_fails demo_answer"
    "concat (pa_chunks demo_answer) = str ''ssn 123-45-6789''"
    by code_simp+
  moreover have "is_decode_error ExpectingValue" by simp
  ultimately show ?thesis
    using whole_answer_redacted [of demo_answer demo_guard] by metis
qed

definition demo_gd_config :: gd_config where
  "demo_gd_config =
     \<lparr>gd_upstream_url = str ''http://model/v1/messages'', gd_request_timeout_seconds = Fin 10,
      gd_read_timeout_seconds = Fin 600, gd_tokens = [str ''tk-1''], gd_trusted_network = False,
      gd_max_body_bytes = 64\<rparr>"

definition demo_gd_request :: "string \<Rightarrow> http_request" where
  "demo_gd_request token =
     \<lparr>rq_method = str ''POST'', rq_headers = [(str ''authorization'', str ''Bearer '' @ str token), (str ''host'', str ''h'')],
      rq_chunks = [str ''{}'']\<rparr>"

theorem proxy_gate_witness:
  "\<forall>rt. \<exists>sent. fst (handle_messages_guard rt demo_guard demo_gd_config (\<lambda>_. HttpError) (demo_gd_request ''tk-1'')) = Some sent \<and>
      gq_body sent = str ''{}'' \<and> gq_headers sent = [(str ''authorization'', str ''Bearer tk-1'')] \<and>
      authorized demo_gd_config (demo_gd_request ''tk-1'') \<and>
      (\<exists>r. handle_messages_guard rt demo_guard demo_gd_config (\<lambda>_. HttpError) (demo_gd_request ''tk-2'') = (None, Reply r) \<and>
         hr_status r = 401)"
proof
  fix rt
  let ?sent = "guard_request_of demo_gd_config (demo_gd_request ''tk-1'') (str ''{}'')"
  have facts: "read_bounded_body (gd_max_body_bytes demo_gd_config) (demo_gd_request ''tk-1'') = BodyRead (str ''{}'')"
    "wants_stream (str ''{}'') = Some True" "authorized demo_gd_config (demo_gd_request ''tk-1'')"
    "\<not> authorized demo_gd_config (demo_gd_request ''tk-2'')"
    "gq_headers ?sent = [(str ''authorization'', str ''Bearer tk-1'')]" "gq_body ?sent = str ''{}''"
    by code_simp+
  then have "fst (handle_messages_guard rt demo_guard demo_gd_config (\<lambda>_. HttpError) (demo_gd_request ''tk-1'')) = Some ?sent"
    by (simp add: handle_messages_guard_def Let_def)
  with facts proxy_gate [of rt demo_guard demo_gd_config "\<lambda>_. HttpError" "demo_gd_request ''tk-1''"]
    proxy_gate [of rt demo_guard demo_gd_config "\<lambda>_. HttpError" "demo_gd_request ''tk-2''"]
  show "\<exists>sent. fst (handle_messages_guard rt demo_guard demo_gd_config (\<lambda>_. HttpError) (demo_gd_request ''tk-1'')) = Some sent \<and>
      gq_body sent = str ''{}'' \<and> gq_headers sent = [(str ''authorization'', str ''Bearer tk-1'')] \<and>
      authorized demo_gd_config (demo_gd_request ''tk-1'') \<and>
      (\<exists>r. handle_messages_guard rt demo_guard demo_gd_config (\<lambda>_. HttpError) (demo_gd_request ''tk-2'') = (None, Reply r) \<and>
         hr_status r = 401)"
    by blast
qed

end
