(* ===== verification/Mp_Provider.thy ===== *)
theory Mp_Provider
  imports Gd_App PyText
begin

text \<open>
  \<open>mock_provider/app.py\<close> of the guardrail: a model provider that streams a given text in pieces
  of a given size, and the guardrail behind it (\<open>mock_stream_redacted\<close>): of the whole stream
  of a message, with its opening and closing frames, every text delta together is the text with
  every social security number replaced, for any piece size and any cut of the bytes.

  Pauses between frames are not modelled.
\<close>

section \<open>The pieces of a text\<close>

definition DEFAULT_TEXT :: pystr where
  "DEFAULT_TEXT =
     str (''Sure. You can reach Ada at ada.lovelace@example.com or on (555) 123-4567. '' @
          ''Her SSN is 123-45-6789 and the card on file is 4111 1111 1111 1111. '' @
          ''Order 1234567890123456 shipped Tuesday.'')"

text \<open>\<open>range(0, n, step)\<close> for a step that is not zero.\<close>

definition range_by :: "nat \<Rightarrow> int \<Rightarrow> nat list" where
  "range_by n step =
     (if step > 0 then map (\<lambda>j. j * nat step) [0..<(n + nat step - 1) div nat step] else [])"

definition slices :: "'a list \<Rightarrow> int \<Rightarrow> 'a list list" where
  "slices xs width = map (\<lambda>i. take (nat width) (drop i xs)) (range_by (length xs) width)"

text \<open>
  \<open>_chunks\<close>, of any value a body may hold as its text; \<open>None\<close> when it raises: on a step of
  zero, on a value without a length, and on slicing an object.
\<close>

definition mp_chunks :: "json \<Rightarrow> int \<Rightarrow> json list option" where
  "mp_chunks v width =
     (let one_empty = (\<lambda>ps. if ps = [] then [JStr []] else ps)
      in if width = 0 then None
         else
           (case v of
              JStr s \<Rightarrow> Some (one_empty (map JStr (slices s width)))
            | JArr xs \<Rightarrow> Some (one_empty (map JArr (slices xs width)))
            | JObj d \<Rightarrow> if d = [] \<or> width < 0 then Some [JStr []] else None
            | _ \<Rightarrow> None))"

lemma concat_slices_upto: "concat (map (\<lambda>j. take k (drop (j * k) xs)) [0..<m]) = take (m * k) xs"
proof (induction m)
  case (Suc m)
  have "take (m * k) xs @ take k (drop (m * k) xs) = take (m * k + k) xs" by (simp add: take_add)
  with Suc show ?case by (simp add: add.commute)
qed simp

lemma concat_slices: "0 < width \<Longrightarrow> concat (slices xs width) = xs"
proof -
  assume "0 < width"
  define k where "k = nat width"
  define m where "m = (length xs + k - 1) div k"
  have k: "0 < k" using \<open>0 < width\<close> by (simp add: k_def)
  have "length xs + k - 1 < (m + 1) * k"
    using k dividend_less_div_times [of k "length xs + k - 1"] by (simp add: m_def algebra_simps)
  then have "length xs \<le> m * k" using k by (simp add: algebra_simps)
  then have "take (m * k) xs = xs" by simp
  moreover have "concat (slices xs width) = take (m * k) xs"
    using concat_slices_upto [of k xs m] \<open>0 < width\<close>
    by (simp add: slices_def range_by_def comp_def m_def flip: k_def)
  ultimately show ?thesis by simp
qed

section \<open>The stream\<close>

text \<open>\<open>_event\<close>.\<close>

definition mp_event :: "string \<times> json \<Rightarrow> bytes" where
  "mp_event frame =
     (case frame of (name, payload) \<Rightarrow>
        utf8_encode (str ''event: '' @ str name @ [10] @ str ''data: '' @ dumps_compact float_repr payload @ [10, 10]))"

definition mp_opening :: "json \<Rightarrow> (string \<times> json) list" where
  "mp_opening model =
     [(''message_start'',
       JObj [(str ''type'', JStr (str ''message_start'')),
         (str ''message'', JObj [(str ''id'', JStr (str ''msg_mock'')), (str ''type'', JStr (str ''message'')),
            (str ''role'', JStr (str ''assistant'')), (str ''model'', model), (str ''content'', JArr []),
            (str ''usage'', JObj [(str ''input_tokens'', JInt 12), (str ''output_tokens'', JInt 0)])])]),
      (''content_block_start'',
       JObj [(str ''type'', JStr (str ''content_block_start'')), (str ''index'', JInt 0),
         (str ''content_block'', JObj [(str ''type'', JStr (str ''text'')), (str ''text'', JStr [])])])]"

definition mp_delta :: "json \<Rightarrow> string \<times> json" where
  "mp_delta piece =
     (''content_block_delta'',
      JObj [(str ''type'', JStr (str ''content_block_delta'')), (str ''index'', JInt 0),
        (str ''delta'', JObj [(str ''type'', JStr (str ''text_delta'')), (str ''text'', piece)])])"

definition mp_closing :: "nat \<Rightarrow> (string \<times> json) list" where
  "mp_closing n =
     [(''content_block_stop'',
       JObj [(str ''type'', JStr (str ''content_block_stop'')), (str ''index'', JInt 0)]),
      (''message_delta'',
       JObj [(str ''type'', JStr (str ''message_delta'')), (str ''delta'', JObj [(str ''stop_reason'', JStr (str ''end_turn''))]),
         (str ''usage'', JObj [(str ''output_tokens'', JInt (int (n div 4)))])]),
      (''message_stop'', JObj [(str ''type'', JStr (str ''message_stop''))])]"

text \<open>\<open>generate\<close>: the frames yielded, and whether it then raised.\<close>

definition mp_generate :: "json \<Rightarrow> json \<Rightarrow> int \<Rightarrow> (string \<times> json) list \<times> bool" where
  "mp_generate model v width =
     (case (mp_chunks v width, len_of_json v) of
        (Some pieces, Some n) \<Rightarrow> (mp_opening model @ map mp_delta pieces @ mp_closing n, False)
      | _ \<Rightarrow> (mp_opening model, True))"

datatype mp_reply =
    MpJson json
  | MpStream "(string \<times> json) list" bool

text \<open>\<open>handle_messages\<close>; \<open>None\<close> is an exception, which the server answers with a 500.\<close>

definition mp_handle_messages :: "py_runtime \<Rightarrow> bytes \<Rightarrow> mp_reply option" where
  "mp_handle_messages rt sent =
     (case (if sent = [] then Inr (JObj []) else loads_bytes sent) of
        Inr (JObj d) \<Rightarrow>
          (let v = jget_or (JStr DEFAULT_TEXT) (str ''text'') d;
               model = jget_or (JStr (str ''claude-sonnet-5'')) (str ''model'') d
           in case (int_of_json (jget_or (JInt 8) (str ''chunk_size'') d),
                    float_of_json rt (jget_or (JInt 0) (str ''delay_ms'') d)) of
                (Some width, Some delay) \<Rightarrow>
                  if jget (str ''stream'') d = JBool False then
                    map_option (\<lambda>n. MpJson (JObj
                      [(str ''id'', JStr (str ''msg_mock'')), (str ''type'', JStr (str ''message'')),
                       (str ''role'', JStr (str ''assistant'')), (str ''model'', model),
                       (str ''content'', JArr [JObj [(str ''type'', JStr (str ''text'')), (str ''text'', v)]]),
                       (str ''stop_reason'', JStr (str ''end_turn'')),
                       (str ''usage'', JObj [(str ''input_tokens'', JInt 12),
                          (str ''output_tokens'', JInt (int (n div 4)))])])) (len_of_json v)
                  else (case mp_generate model v width of (frames, raised) \<Rightarrow> Some (MpStream frames raised))
              | _ \<Rightarrow> None)
      | _ \<Rightarrow> None)"

section \<open>The frames as events\<close>

definition mp_ev :: "string \<times> json \<Rightarrow> sse_event" where
  "mp_ev frame = serialise (Some (str (fst frame))) (snd frame)"

lemma printable_nat_digits [simp]: "printable_ascii (nat_digits n)"
  using set_nat_digits by (fastforce simp: printable_ascii_def)

lemma printable_zero_pad: "printable_ascii s \<Longrightarrow> printable_ascii (zero_pad n s)"
  by (auto simp: zero_pad_def printable_ascii_def)

lemma printable_float_repr: "printable_ascii (float_repr x)"
proof -
  have "printable_ascii (scientific_text ds e)" if "printable_ascii ds" for ds e
  proof -
    have "printable_ascii (strip_zeros ds)"
      using that strip_zeros_digits [of ds] by (auto simp: printable_ascii_def)
    then show ?thesis by (auto simp: scientific_text_def printable_zero_pad split: list.split)
  qed
  moreover have "printable_ascii (fixed_text m k)" for m k
    by (simp add: fixed_text_def printable_zero_pad)
  ultimately have "printable_ascii (positive_repr y)" for y
    by (simp add: positive_repr_def Let_def)
  then show ?thesis by (simp add: float_repr_def str_def)
qed

lemma printable_payload: "printable_ascii (dumps_compact float_repr payload)"
  by (rule printable_dumps) (simp_all add: printable_float_repr)

lemma mp_event_encode: "mp_event frame = encode_event (mp_ev frame)" if "fst frame \<noteq> []"
proof -
  have "10 \<notin> set (dumps_compact float_repr (snd frame))"
    using printable_payload [of "snd frame"] by (auto simp: printable_ascii_def)
  then have "py_split 10 (dumps_compact float_repr (snd frame)) = [dumps_compact float_repr (snd frame)]"
    by (rule py_split_no_sep)
  with that show ?thesis
    by (cases frame) (simp add: mp_event_def mp_ev_def serialise_def encode_event_def event_text_def event_lines_def str_def)
qed

lemma mp_delta_text: "mp_ev (mp_delta (JStr s)) = text_delta s"
  by (simp add: mp_ev_def mp_delta_def text_delta_def text_delta_payload_def TEXT_DELTA_EVENT_def)

lemma mp_sendable:
  assumes "printable_ascii (str name)" "name \<noteq> []"
  shows "sendable (mp_ev (name, payload))"
  using assms printable_payload [of payload]
  by (auto simp: sendable_def mp_ev_def serialise_def printable_ascii_def str_def)

section \<open>The guardrail in front of the provider\<close>

text \<open>A frame without text, as the guardrail passes it on.\<close>

definition redacted_frame :: "regex_env \<Rightarrow> string \<times> json \<Rightarrow> sse_event" where
  "redacted_frame rx frame = serialise (Some (str (fst frame))) (redact_leaves rx (snd frame))"

definition default_unknown :: "stream_policy \<Rightarrow> bool" where
  "default_unknown policy \<longleftrightarrow> po_unknown_schema policy \<notin> {POLICY_BLOCK, POLICY_PASS}"

definition plain_frame :: "unicode_db \<Rightarrow> string \<times> json \<Rightarrow> bool" where
  "plain_frame db frame \<longleftrightarrow>
     wf_json float_repr (snd frame) \<and> snd frame \<noteq> JNull \<and> is_thinking (snd frame) = Some False \<and>
     locate_texts db (snd frame) = []"

lemma handle_plain:
  assumes "plain_frame (ge_ucd env) frame" "stop_frame (mp_ev frame) = Some False" "default_unknown policy"
  shows "handle_event env policy (mp_ev frame) st = ([redacted_frame (ge_regex env) frame], st, False)"
proof -
  have "event_json (mp_ev frame) = snd frame"
    using assms(1) by (simp add: mp_ev_def serialise_reads plain_frame_def)
  with assms handle_unrecognised [of "mp_ev frame" env policy st] show ?thesis
    by (simp add: plain_frame_def default_unknown_def redacted_frame_def mp_ev_def serialise_def)
qed

lemma handle_stop:
  assumes "plain_frame (ge_ucd env) frame" "stop_frame (mp_ev frame) = Some True" "default_unknown policy"
    and "channels_flush (ge_regex env) (ss_channels st) = (flushed, cs, False)"
  shows "handle_event env policy (mp_ev frame) st =
    (flushed @ [redacted_frame (ge_regex env) frame], st\<lparr>ss_channels := cs\<rparr>, False)"
proof -
  have "event_json (mp_ev frame) = snd frame"
    using assms(1) by (simp add: mp_ev_def serialise_reads plain_frame_def)
  with assms handle_unrecognised [of "mp_ev frame" env policy st] show ?thesis
    by (simp add: plain_frame_def default_unknown_def redacted_frame_def mp_ev_def serialise_def)
qed

lemma valid_empty: "valid_str []"
  by (simp add: valid_str_def)

lemmas frame_simps_mp = plain_frame_def is_thinking_def locate_texts_def locate_delta_def jget_or_def

lemma opening_plain:
  assumes "wf_json float_repr model" "f \<in> set (mp_opening model)"
  shows "plain_frame db f" "stop_frame (mp_ev f) = Some False"
proof -
  show plain: "plain_frame db f"
    using assms by (auto simp: mp_opening_def frame_simps_mp nat_digits.simps valid_empty)
  have "event_json (mp_ev f) = snd f"
    using plain by (simp add: mp_ev_def serialise_reads plain_frame_def)
  with assms(2) show "stop_frame (mp_ev f) = Some False"
    by (auto simp: stop_frame_def mp_opening_def jget_or_def BLOCK_STOP_EVENT_def)
      (simp_all add: mp_ev_def serialise_def)
qed

lemma closing_plain:
  assumes "length (nat_digits (n div 4)) \<le> 4300"
  shows "f \<in> set (mp_closing n) \<Longrightarrow> plain_frame db f"
    and "stop_frame (mp_ev (hd (mp_closing n))) = Some True"
    and "f \<in> set (tl (mp_closing n)) \<Longrightarrow> stop_frame (mp_ev f) = Some False"
proof -
  show plain: "plain_frame db f" if "f \<in> set (mp_closing n)" for f
    using assms that by (auto simp: mp_closing_def frame_simps_mp nat_digits.simps [of 0])
  show "stop_frame (mp_ev (hd (mp_closing n))) = Some True"
    by (simp add: stop_frame_def mp_closing_def mp_ev_def serialise_def BLOCK_STOP_EVENT_def)
  assume f: "f \<in> set (tl (mp_closing n))"
  then have "event_json (mp_ev f) = snd f"
    using plain [of f] by (simp add: mp_ev_def serialise_reads plain_frame_def list.set_sel(2) mp_closing_def)
  with f show "stop_frame (mp_ev f) = Some False"
    by (auto simp: stop_frame_def mp_closing_def jget_or_def BLOCK_STOP_EVENT_def)
      (simp_all add: mp_ev_def serialise_def)
qed

lemma handle_plains:
  assumes "default_unknown policy" "\<forall>f \<in> set fs. plain_frame (ge_ucd env) f \<and> stop_frame (mp_ev f) = Some False"
  shows "handle_events env policy (map mp_ev fs) st = (map (redacted_frame (ge_regex env)) fs, st, False)"
  using assms(2) by (induction fs) (simp_all add: handle_plain [OF _ _ assms(1)] Let_def)

text \<open>The main text is released once: at the stop frame, and not again at the end.\<close>

lemma flush_main:
  assumes "ssn_engine nd (ssn_matcher env)" "ssn_setup (cs_main cs)" "cs_others cs = []"
    and "\<And>t. run_rebuild (cs_rebuild_main cs) t = Some (text_delta t)"
  shows "\<exists>r. channels_flush env cs =
      ((if fst (flush_redactor env (cs_main cs)) = [] then [] else [text_delta (fst (flush_redactor env (cs_main cs)))]),
       cs\<lparr>cs_main := r\<rparr>, False) \<and>
    fst (channels_flush env (cs\<lparr>cs_main := r\<rparr>)) = [] \<and> \<not> snd (snd (channels_flush env (cs\<lparr>cs_main := r\<rparr>)))"
proof -
  obtain tail r where tail: "flush_redactor env (cs_main cs) = (tail, r)" by fastforce
  then have r: "rd_buffer r = []" "rd_patterns r = [SSN]" "rd_placeholder r = REDACTION_PLACEHOLDER"
    using assms(2) by (auto simp: flush_redactor_def redact_def ssn_setup_def Let_def split: prod.splits)
  have "fst (flush_redactor env r) = []"
    using ssn_redact [OF assms(1) r(2,3), of False "[]"] r(1)
    by (simp add: flush_redactor_def Let_def case_prod_beta)
  then show ?thesis
    using tail assms(3,4)
    by (intro exI [of _ r]) (simp add: channels_flush_def channels_get_def set_redactor_def case_prod_beta)
qed

lemma handle_closing:
  assumes "length (nat_digits (n div 4)) \<le> 4300" "default_unknown policy"
    and "channels_flush (ge_regex env) (ss_channels st) = (flushed, cs, False)"
  shows "handle_events env policy (map mp_ev (mp_closing n)) st =
    (flushed @ map (redacted_frame (ge_regex env)) (mp_closing n), st\<lparr>ss_channels := cs\<rparr>, False)"
proof -
  have split: "mp_closing n = hd (mp_closing n) # tl (mp_closing n)" by (simp add: mp_closing_def)
  have plain: "\<forall>f \<in> set (tl (mp_closing n)). plain_frame (ge_ucd env) f \<and> stop_frame (mp_ev f) = Some False"
    using closing_plain [OF assms(1)] by (auto simp: mp_closing_def)
  have first: "plain_frame (ge_ucd env) (hd (mp_closing n))"
    by (rule closing_plain(1) [OF assms(1)]) (simp add: mp_closing_def)
  show ?thesis
    by (subst (1 2) split) (simp add: handle_stop [OF first closing_plain(2) [OF assms(1)] assms(2,3)]
        handle_plains [OF assms(2) plain])
qed

lemma frames_sendable:
  assumes "f \<in> set (mp_opening model @ map mp_delta pieces @ mp_closing n)"
  shows "sendable (mp_ev f) \<and> printable_ascii (str (fst f)) \<and> fst f \<noteq> []"
  using assms by (auto simp: mp_opening_def mp_delta_def mp_closing_def str_def intro!: mp_sendable)

text \<open>What the provider writes is ASCII, so any cut of its bytes is a cut between characters.\<close>

lemma stream_parses:
  assumes "\<forall>f \<in> set frames. sendable (mp_ev f) \<and> printable_ascii (str (fst f)) \<and> fst f \<noteq> []"
    and "concat upstream = concat (map mp_event frames)"
  shows "parse_stream upstream = map mp_ev frames"
proof -
  have ascii: "\<forall>c \<in> set (event_text (mp_ev f)). c < 128" if "f \<in> set frames" for f
  proof -
    have "10 \<notin> set (dumps_compact float_repr (snd f))"
      using printable_payload [of "snd f"] by (auto simp: printable_ascii_def)
    then show ?thesis
      using assms(1) that printable_payload [of "snd f"]
      by (auto simp: mp_ev_def serialise_def event_text_def event_lines_def py_split_no_sep printable_ascii_def str_def)
        fastforce+
  qed
  have same: "concat (map mp_event frames) = concat (map (event_text \<circ> mp_ev) frames)"
    using ascii assms(1)
    by (intro arg_cong [of _ _ concat] map_cong refl)
      (simp add: mp_event_encode encode_event_def utf8_encode_ascii)
  with ascii assms(2) have low: "\<forall>c \<in> set (concat upstream). c < 128"
    by fastforce
  then have "map utf8_encode upstream = upstream"
    by (intro map_idI utf8_encode_ascii) auto
  moreover have "\<forall>c \<in> set upstream. valid_str c"
    using low by (fastforce simp: valid_str_def valid_cp_def)
  moreover have "concat upstream = concat (map event_text (map mp_ev frames))"
    using same assms(2) by simp
  ultimately show ?thesis
    using parse_encoded [of "map mp_ev frames" upstream] assms(1) by (auto simp: comp_def)
qed

lemma mp_chunks_str:
  assumes "0 < width"
  shows "\<exists>ss. mp_chunks (JStr s) width = Some (map JStr ss) \<and> concat ss = s"
proof (cases "slices s width = []")
  case True
  with concat_slices [OF assms, of s] assms show ?thesis
    by (intro exI [of _ "[[]]"]) (simp add: mp_chunks_def)
next
  case False
  with concat_slices [OF assms, of s] assms show ?thesis
    by (intro exI [of _ "slices s width"]) (simp add: mp_chunks_def)
qed

lemma mp_stream_redacted:
  assumes "ssn_engine nd (rx_engine (ge_regex env) (pt_expression SSN))" "default_unknown policy"
    and "valid_str s" "wf_json float_repr model" "length (nat_digits (length s div 4)) \<le> 4300"
    and "0 < width" "mp_generate model (JStr s) width = (frames, raised)"
    and "concat upstream = concat (map mp_event frames)"
  defines "r \<equiv> fresh_redactor [SSN] REDACTION_PLACEHOLDER 19"
  shows "\<not> raised \<and> (\<exists>pieces.
    redact_sse_stream env policy r upstream False =
      (map (redacted_frame (ge_regex env)) (mp_opening model) @ map text_delta pieces @
       map (redacted_frame (ge_regex env)) (mp_closing (length s)), Completed) \<and>
    concat pieces = replace_all (ssn_shape nd) 11 REDACTION_PLACEHOLDER s)"
proof -
  let ?rx = "ge_regex env" and ?st = "\<lparr>ss_channels = new_channels r, ss_dropped = 0\<rparr>"
  from mp_chunks_str [OF assms(6)] obtain ss where ss: "mp_chunks (JStr s) width = Some (map JStr ss)" "concat ss = s"
    by blast
  with assms(7) have frames: "frames = mp_opening model @ map mp_delta (map JStr ss) @ mp_closing (length s)" "\<not> raised"
    by (auto simp: mp_generate_def len_of_json_def)
  have sendable: "\<forall>f \<in> set frames. sendable (mp_ev f) \<and> printable_ascii (str (fst f)) \<and> fst f \<noteq> []"
    unfolding frames by (intro ballI frames_sendable)
  from stream_parses [OF sendable assms(8)]
  have parsed: "parse_stream upstream = map mp_ev (mp_opening model) @ map text_delta ss @ map mp_ev (mp_closing (length s))"
    by (simp add: frames mp_delta_text)
  obtain emits r1 where feeds: "feed_chunks ?rx r ss = (emits, r1)" by fastforce
  have valid: "\<forall>t \<in> set ss. valid_str t" using assms(3) ss(2) by (auto simp: valid_str_def)
  from handle_text_deltas [OF valid, of env ?st emits r1 policy] feeds obtain st where
    texts: "handle_events env policy (map text_delta ss) ?st = (map text_delta (filter (\<lambda>s. s \<noteq> []) emits), st, False)"
    and st: "cs_main (ss_channels st) = r1" "cs_others (ss_channels st) = []"
      "run_rebuild (cs_rebuild_main (ss_channels st)) t = Some (text_delta t)" for t
    by (auto simp: new_channels_def run_rebuild_def default_text_rebuild_def text_delta_def delta_rebuild_def
        text_delta_replace simp del: replace_at.simps)
  have "ssn_setup r" by (simp add: r_def ssn_setup_def fresh_redactor_def)
  with ssn_feeds [OF assms(1), of r ss] feeds have "ssn_setup (cs_main (ss_channels st))" by (simp add: st)
  from flush_main [OF assms(1) this st(2,3)] obtain r2 flushed where flush:
    "channels_flush ?rx (ss_channels st) = (flushed, (ss_channels st)\<lparr>cs_main := r2\<rparr>, False)"
    "flushed = (let tail = fst (flush_redactor ?rx r1) in if tail = [] then [] else [text_delta tail])"
    "fst (channels_flush ?rx ((ss_channels st)\<lparr>cs_main := r2\<rparr>)) = []"
    "\<not> snd (snd (channels_flush ?rx ((ss_channels st)\<lparr>cs_main := r2\<rparr>)))"
    by (auto simp: st(1) Let_def)
  let ?pieces = "filter (\<lambda>s. s \<noteq> []) (emits @ [fst (flush_redactor ?rx r1)])"
  have "handle_events env policy (parse_stream upstream) ?st =
      (map (redacted_frame ?rx) (mp_opening model) @ map text_delta ?pieces @
       map (redacted_frame ?rx) (mp_closing (length s)), st\<lparr>ss_channels := (ss_channels st)\<lparr>cs_main := r2\<rparr>\<rparr>, False)"
    using handle_plains [OF assms(2), of "mp_opening model" env ?st] opening_plain [OF assms(4)] texts
      handle_closing [OF assms(5,2) flush(1)]
    by (simp add: parsed handle_events_append flush(2) Let_def)
  from redact_sse_stream_parse [OF this] flush(3,4)
  have "redact_sse_stream env policy r upstream False =
      (map (redacted_frame ?rx) (mp_opening model) @ map text_delta ?pieces @
       map (redacted_frame ?rx) (mp_closing (length s)), Completed)"
    by (simp add: case_prod_beta)
  moreover have "concat ?pieces = process ?rx r ss"
  proof -
    have "concat (filter (\<lambda>s. s \<noteq> []) xs) = concat xs" for xs :: "pystr list"
      by (induction xs) auto
    then show ?thesis by (simp add: process_def feeds)
  qed
  ultimately show ?thesis
    using frames(2) ssn_process [OF assms(1), of ss] ss(2) r_def by metis
qed


end
