(* ===== verification/Md_Downstream.thy ===== *)
theory Md_Downstream
  imports Gw_Edges PyText
begin

text \<open>
  \<open>mock_downstream/app.py\<close>: the trusting MCP server behind the gateway, with the log of every
  message it was asked to handle, and the two of them together. The server authorises nothing,
  so what its log holds is what the gateway let through (\<open>downstream_log_exact\<close>,
  \<open>blocked_calls_never_arrive\<close>).

  A message is recorded before it is looked at. An exception (\<open>None\<close> for a reply) is answered
  by the server's own 500.
\<close>

section \<open>The tools\<close>

definition tool_schema :: "string \<Rightarrow> json" where
  "tool_schema argument =
     JObj [(str ''type'', JStr (str ''object'')),
       (str ''properties'', JObj [(str argument, JObj [(str ''type'', JStr (str ''string''))])]),
       (str ''required'', JArr [JStr (str argument)])]"

definition md_tool :: "string \<Rightarrow> string \<Rightarrow> string \<Rightarrow> json" where
  "md_tool name description argument =
     JObj [(str ''name'', JStr (str name)), (str ''description'', JStr (str description)),
       (str ''inputSchema'', tool_schema argument)]"

definition MOCK_TOOLS :: "json list" where
  "MOCK_TOOLS =
     [md_tool ''search_docs'' ''Search the internal documentation.'' ''query'',
      md_tool ''get_ticket'' ''Fetch a support ticket by id.'' ''ticket_id'',
      md_tool ''admin_reset_key'' (''Rotate a tenant'' @ [CHR 39] @ ''s API key. Admin only.'') ''tenant'',
      md_tool ''admin_delete_tenant'' ''Permanently delete a tenant. Admin only.'' ''tenant'']"

definition known_tools :: "pystr list" where
  "known_tools = map str [''search_docs'', ''get_ticket'', ''admin_reset_key'', ''admin_delete_tenant'']"

section \<open>Handling a message\<close>

definition md_ok :: "jobject \<Rightarrow> json \<Rightarrow> json option" where
  "md_ok message result =
     (if \<not> has_key (str ''id'') message then None
      else Some (JObj [(str ''jsonrpc'', JStr (str ''2.0'')), (str ''id'', jget (str ''id'') message),
        (str ''result'', result)]))"

definition md_fail :: "jobject \<Rightarrow> int \<Rightarrow> pystr \<Rightarrow> json option" where
  "md_fail message code reason =
     (if \<not> has_key (str ''id'') message then None
      else Some (JObj [(str ''jsonrpc'', JStr (str ''2.0'')), (str ''id'', jget (str ''id'') message),
        (str ''error'', JObj [(str ''code'', JInt code), (str ''message'', JStr reason)])]))"

text \<open>\<open>v or {}\<close>.\<close>

definition or_empty :: "json \<Rightarrow> json" where
  "or_empty v = (if truthy v then v else JObj [])"

definition md_tools_call :: "unicode_db \<Rightarrow> jobject \<Rightarrow> json option option" where
  "md_tools_call db message =
     (case or_empty (jget (str ''params'') message) of
        JObj params \<Rightarrow>
          (let name = jget (str ''name'') params;
               arguments = or_empty (jget (str ''arguments'') params)
           in case key_in name known_tools of
                None \<Rightarrow> None
              | Some False \<Rightarrow> Some (md_fail message (-32601) (str ''Unknown tool: '' @ repr_json db name))
              | Some True \<Rightarrow> Some (md_ok message (JObj
                  [(str ''content'', JArr [JObj [(str ''type'', JStr (str ''text'')),
                     (str ''text'', JStr (str ''executed '' @ str_json db name @ str '' with '' @ str_json db arguments))]]),
                   (str ''isError'', JBool False)])))
      | _ \<Rightarrow> None)"

definition md_reply :: "unicode_db \<Rightarrow> json \<Rightarrow> json option option" where
  "md_reply db v =
     (case v of
        JObj message \<Rightarrow>
          (let rpc_method = jget (str ''method'') message
           in if rpc_method = JStr (str ''initialize'') then
                Some (md_ok message (JObj
                  [(str ''protocolVersion'', JStr (str ''2025-06-18'')),
                   (str ''capabilities'', JObj [(str ''tools'', JObj [(str ''listChanged'', JBool False)])]),
                   (str ''serverInfo'', JObj [(str ''name'', JStr (str ''mock-downstream'')),
                      (str ''version'', JStr (str ''0.1.0''))])]))
              else if rpc_method = JStr (str ''tools/list'') then
                Some (md_ok message (JObj [(str ''tools'', JArr MOCK_TOOLS)]))
              else if rpc_method = JStr (str ''tools/call'') then md_tools_call db message
              else if rpc_method = JStr (str ''ping'') then Some (md_ok message (JObj []))
              else Some (md_fail message (-32601) (str ''Method not found: '' @ repr_json db rpc_method)))
      | _ \<Rightarrow> None)"

text \<open>\<open>_handle_message\<close>, with the log.\<close>

definition md_handle_message :: "unicode_db \<Rightarrow> json list \<Rightarrow> json \<Rightarrow> json list \<times> json option option" where
  "md_handle_message db received message = (received @ [message], md_reply db message)"

fun md_handle_batch :: "unicode_db \<Rightarrow> json list \<Rightarrow> json list \<Rightarrow> json list \<times> json list option" where
  "md_handle_batch db received [] = (received, Some [])"
| "md_handle_batch db received (item # items) =
     (case md_handle_message db received item of
        (received1, None) \<Rightarrow> (received1, None)
      | (received1, Some response) \<Rightarrow>
          (case md_handle_batch db received1 items of
             (received2, rest) \<Rightarrow>
               (received2, map_option (\<lambda>rs. (case response of None \<Rightarrow> rs | Some r \<Rightarrow> r # rs)) rest)))"

definition no_content :: http_response where
  "no_content = \<lparr>hr_status = 204, hr_headers = [], hr_media = None, hr_body = NoBody\<rparr>"

definition md_handle_post :: "unicode_db \<Rightarrow> json list \<Rightarrow> bytes \<Rightarrow> json list \<times> http_response option" where
  "md_handle_post db received content =
     (case loads_bytes content of
        Inl e \<Rightarrow> (received, None)
      | Inr (JArr items) \<Rightarrow>
          (case md_handle_batch db received items of
             (received1, rs) \<Rightarrow>
               (received1, map_option (\<lambda>rs. if rs = [] then no_content else json_response (JArr rs) 200 []) rs))
      | Inr document \<Rightarrow>
          (case md_handle_message db received document of
             (received1, response) \<Rightarrow>
               (received1, map_option (\<lambda>r. (case r of None \<Rightarrow> no_content | Some j \<Rightarrow> json_response j 200 [])) response)))"

definition md_handle_received :: "json list \<Rightarrow> http_response" where
  "md_handle_received received = json_response (JArr received) 200 []"

definition md_handle_get :: http_response where
  "md_handle_get =
     \<lparr>hr_status = 200, hr_headers = [(str ''mcp-session-id'', str ''mock-session'')],
      hr_media = Some (str ''text/event-stream''),
      hr_body = RawBody (str ''event: message'' @ 10 # str ''data: {}'' @ [10, 10])\<rparr>"

definition md_handle_delete :: http_response where "md_handle_delete = no_content"

text \<open>The routes of \<open>/mcp\<close>; for another method Starlette answers 405.\<close>

definition md_app :: "unicode_db \<Rightarrow> json list \<Rightarrow> pystr \<Rightarrow> bytes \<Rightarrow> json list \<times> http_response option" where
  "md_app db received verb content =
     (if verb = str ''POST'' then md_handle_post db received content
      else if verb = str ''GET'' \<or> verb = str ''HEAD'' then (received, Some md_handle_get)
      else if verb = str ''DELETE'' then (received, Some md_handle_delete)
      else (received, Some \<lparr>hr_status = 405, hr_headers = [(str ''Allow'', str ''POST'')],
         hr_media = Some (str ''text/plain''), hr_body = RawBody (str ''Method Not Allowed'')\<rparr>))"

section \<open>What the log holds\<close>

lemma md_batch_log: "\<exists>n. fst (md_handle_batch db received items) = received @ take n items"
proof (induction items arbitrary: received)
  case (Cons item items)
  show ?case
  proof (cases "md_reply db item")
    case None
    then show ?thesis by (intro exI [of _ 1]) (simp add: md_handle_message_def)
  next
    case (Some r)
    from Cons.IH [of "received @ [item]"] obtain n where
      "fst (md_handle_batch db (received @ [item]) items) = received @ take (Suc n) (item # items)" by auto
    with Some show ?thesis
      by (intro exI [of _ "Suc n"]) (simp add: md_handle_message_def case_prod_beta)
  qed
qed simp

lemma md_post_log:
  "\<exists>n. fst (md_handle_post db received content) =
     received @ (case loads_bytes content of Inl e \<Rightarrow> [] | Inr v \<Rightarrow> take n (document_messages v))"
proof (cases "\<exists>items. loads_bytes content = Inr (JArr items)")
  case True
  then obtain items where items: "loads_bytes content = Inr (JArr items)" by blast
  from md_batch_log [of db received items] obtain n where
    "fst (md_handle_batch db received items) = received @ take n items" by blast
  with items show ?thesis
    by (intro exI [of _ n]) (simp add: md_handle_post_def document_messages_def case_prod_beta)
next
  case False
  then show ?thesis
    by (intro exI [of _ 1])
      (auto simp: md_handle_post_def md_handle_message_def document_messages_def split: sum.splits json.splits)
qed

lemma md_log_grows:
  assumes "x \<in> set (fst (md_app db received verb content))" "x \<notin> set received"
  shows "\<exists>v. loads_bytes content = Inr v \<and> x \<in> set (document_messages v)"
  using assms md_post_log [of db received content]
  by (auto simp: md_app_def split: if_splits sum.splits dest: in_set_takeD)

lemma known_tools_listed: "map (\<lambda>t. JStr t) known_tools = map (\<lambda>t. case t of JObj d \<Rightarrow> jget (str ''name'') d | _ \<Rightarrow> JNull) MOCK_TOOLS"
  by code_simp

section \<open>The gateway in front of the server\<close>

text \<open>
  \<open>deliver\<close> is what the transport and Starlette make of the handler's response (\<open>None\<close>, an
  exception) for the client of the gateway.
\<close>

type_synonym deliver = "http_response option \<Rightarrow> httpx_result"

definition md_downstream :: "py_runtime \<Rightarrow> deliver \<Rightarrow> json list \<Rightarrow> downstream" where
  "md_downstream rt deliver received fw =
     deliver (snd (md_app (rt_ucd rt) received (fw_method fw) (fw_body fw)))"

definition md_receive :: "py_runtime \<Rightarrow> forwarded \<Rightarrow> json list \<Rightarrow> json list" where
  "md_receive rt fw received = fst (md_app (rt_ucd rt) received (fw_method fw) (fw_body fw))"

text \<open>One request of a client, the log before and after.\<close>

definition deployed_call ::
    "py_runtime \<Rightarrow> gw_config \<Rightarrow> deliver \<Rightarrow> http_request \<Rightarrow> json list \<Rightarrow> gw_outcome \<times> json list" where
  "deployed_call rt cfg deliver request received =
     (let outcome =
            (if rq_method request = str ''POST''
             then handle_mcp_post rt cfg (md_downstream rt deliver received) request
             else handle_mcp_passthrough rt cfg (md_downstream rt deliver received) request)
      in (outcome, fold (md_receive rt) (go_forwarded outcome) received))"

fun deployed_log :: "py_runtime \<Rightarrow> gw_config \<Rightarrow> deliver \<Rightarrow> http_request list \<Rightarrow> json list \<Rightarrow> json list" where
  "deployed_log rt cfg deliver [] received = received"
| "deployed_log rt cfg deliver (request # requests) received =
     deployed_log rt cfg deliver requests (snd (deployed_call rt cfg deliver request received))"

lemma passthrough_forwarded:
  "fw \<in> set (go_forwarded (handle_mcp_passthrough rt cfg ds request)) \<Longrightarrow> fw_method fw = rq_method request"
  by (auto simp: handle_mcp_passthrough_def Let_def split: sum.splits)

section \<open>The log is exactly what the policy allows\<close>

lemma tool_name_params: "tool_name m = Some name \<Longrightarrow> \<exists>p. rm_params m = JObj p \<and> jget (str ''name'') p = JStr name"
  by (cases "rm_params m") (auto elim: as_str.elims)

text \<open>The server raises on nothing the gateway lets through.\<close>

lemma allowed_md_reply:
  assumes "unicode_ascii db" "parse_one x = Inr m" "evaluate db e caller m = None"
  shows "md_reply db x \<noteq> None"
proof -
  from assms(2) obtain d where d: "x = JObj d" "jget (str ''method'') d = JStr (rm_method m)"
    "rm_params m = jget (str ''params'') d"
    by (auto simp: parse_one_Inr)
  show ?thesis
  proof (cases "rm_method m = str ''tools/call''")
    case True
    with assms(1,3) obtain name where "tool_name m = Some name"
      using normalize_TOOLS_CALL [OF assms(1)]
      by (auto simp: evaluate_def Let_def TOOLS_CALL_def split: if_splits option.splits)
    with tool_name_params obtain p where p: "jget (str ''params'') d = JObj p" "jget (str ''name'') p = JStr name"
      using d(3) by metis
    then have "or_empty (jget (str ''params'') d) = JObj p"
      by (cases p) (auto simp: or_empty_def)
    with p have "md_tools_call db d \<noteq> None"
      by (auto simp: md_tools_call_def Let_def key_in_def split: bool.splits)
    with d True show ?thesis by (simp add: md_reply_def)
  qed (use d in \<open>simp add: md_reply_def Let_def\<close>)
qed

lemma md_batch_complete:
  "\<forall>x \<in> set items. md_reply db x \<noteq> None \<Longrightarrow> fst (md_handle_batch db received items) = received @ items"
  by (induction items arbitrary: received) (auto simp: md_handle_message_def case_prod_beta)

lemma md_post_complete:
  assumes "loads_bytes content = Inr v" "\<forall>x \<in> set (document_messages v). md_reply db x \<noteq> None"
  shows "fst (md_handle_post db received content) = received @ document_messages v"
proof (cases "is_list v")
  case True
  with assms md_batch_complete [of _ db received] show ?thesis
    by (cases v) (auto simp: md_handle_post_def document_messages_def case_prod_beta)
next
  case False
  with assms(1) show ?thesis
    by (cases v) (auto simp: md_handle_post_def md_handle_message_def document_messages_def)
qed

text \<open>The specification: the messages of a request its caller may send, in their order.\<close>

definition allowed_messages :: "py_runtime \<Rightarrow> gw_config \<Rightarrow> http_request \<Rightarrow> json list" where
  "allowed_messages rt cfg request =
     (if rq_method request \<noteq> str ''POST'' then []
      else
        (case (resolve_principal (rt_environ rt) (header_get (str ''authorization'') (rq_headers request)),
               read_bounded_body (gc_max_body_bytes cfg) request) of
           (Inr caller, BodyRead body) \<Rightarrow>
             (case parse_payload (rt_ucd rt) body of
                Inl e \<Rightarrow> []
              | Inr parsed \<Rightarrow> map (\<lambda>m. JObj (rm_raw m)) (allowed_of rt cfg caller (pp_messages parsed)))
         | _ \<Rightarrow> []))"

lemma passthrough_log:
  "rq_method request \<noteq> str ''POST'' \<Longrightarrow> snd (deployed_call rt cfg deliver request received) = received"
proof -
  assume verb: "rq_method request \<noteq> str ''POST''"
  have "fold (md_receive rt) fws received = received"
    if "\<forall>fw \<in> set fws. fw_method fw \<noteq> str ''POST''" for fws
    using that by (induction fws) (auto simp: md_receive_def md_app_def)
  then show ?thesis
    using passthrough_forwarded verb by (fastforce simp: deployed_call_def)
qed

lemma handle_mcp_post_forwarded:
  "go_forwarded (handle_mcp_post rt cfg ds request) =
     (case (resolve_principal (rt_environ rt) (header_get (str ''authorization'') (rq_headers request)),
            read_bounded_body (gc_max_body_bytes cfg) request) of
        (Inr caller, BodyRead body) \<Rightarrow>
          (case parse_payload (rt_ucd rt) body of
             Inl e \<Rightarrow> []
           | Inr parsed \<Rightarrow> go_forwarded (handle_parsed rt cfg ds caller (rq_headers request) body parsed))
      | _ \<Rightarrow> [])"
  by (simp add: handle_mcp_post_def split: sum.split body_result.split payload_failure.split)

lemma parsed_log:
  assumes "unicode_ascii (rt_ucd rt)" "document_wf rt body" "parse_payload (rt_ucd rt) body = Inr parsed"
  shows "fold (md_receive rt) (go_forwarded (handle_parsed rt cfg ds caller hs body parsed)) received =
    received @ map (\<lambda>m. JObj (rm_raw m)) (allowed_of rt cfg caller (pp_messages parsed))"
proof (cases "allowed_of rt cfg caller (pp_messages parsed) = []")
  case True
  then show ?thesis by (simp add: handle_parsed_forwarded)
next
  case False
  let ?ok = "\<lambda>m. evaluate (rt_ucd rt) (gc_enforce_allowlist cfg) caller m = None"
  from forward_body_document [OF assms(3,2) keeps_distinct_last, of ?ok] False
  obtain v where v: "loads_bytes (forward_body_of rt body parsed (allowed_of rt cfg caller (pp_messages parsed))) = Inr v"
    "document_messages v = map (\<lambda>m. JObj (rm_raw m)) (allowed_of rt cfg caller (pp_messages parsed))"
    by (auto simp: allowed_of_def loads_bytes_eq)
  have "md_reply (rt_ucd rt) x \<noteq> None" if "x \<in> set (document_messages v)" for x
    using that v(2) payload_message_ok [OF assms(3)] allowed_md_reply [OF assms(1)]
    by (fastforce simp: allowed_of_def)
  with md_post_complete [OF v(1)] v(2) False show ?thesis
    by (simp add: handle_parsed_forwarded Let_def md_receive_def md_app_def)
qed

lemma deployed_call_log:
  assumes "unicode_ascii (rt_ucd rt)" "document_wf rt (concat (rq_chunks request))"
  shows "snd (deployed_call rt cfg deliver request received) = received @ allowed_messages rt cfg request"
proof (cases "rq_method request = str ''POST''")
  case True
  have "document_wf rt body" if "read_bounded_body (gc_max_body_bytes cfg) request = BodyRead body" for body
    using assms(2) read_bounded_body_BodyRead(1) [OF that] by simp
  with parsed_log [OF assms(1)] True show ?thesis
    by (auto simp: deployed_call_def Let_def allowed_messages_def handle_mcp_post_forwarded
        split: sum.split body_result.split)
qed (simp add: passthrough_log allowed_messages_def)

lemma deployed_log_eq:
  assumes "unicode_ascii (rt_ucd rt)" "\<forall>request \<in> set requests. document_wf rt (concat (rq_chunks request))"
  shows "deployed_log rt cfg deliver requests received =
    received @ concat (map (allowed_messages rt cfg) requests)"
  using assms(2) by (induction requests arbitrary: received) (simp_all add: deployed_call_log [OF assms(1)])

lemma allowed_messages_caller:
  assumes "x \<in> set (allowed_messages rt cfg request)"
  shows "\<exists>caller m.
    resolve_principal (rt_environ rt) (header_get (str ''authorization'') (rq_headers request)) = Inr caller \<and>
    parse_one x = Inr m \<and> evaluate (rt_ucd rt) (gc_enforce_allowlist cfg) caller m = None"
  using assms
  by (auto simp: allowed_messages_def allowed_of_def split: if_splits sum.splits body_result.splits)
    (metis payload_message_ok)


text \<open>
  A blocked call never arrives. Whatever clients send to the gateway, in any number of
  requests and batches: every message in the server's log, from its start, was sent by a caller
  who authenticated and whom the policy allows it; and where it calls a privileged tool, in any
  spelling the policy knows, that caller is an administrator. What the transport makes of the
  server's answers plays no part.
\<close>

theorem blocked_calls_never_arrive:
  assumes "unicode_ascii (rt_ucd rt)" "\<forall>request \<in> set requests. document_wf rt (concat (rq_chunks request))"
  shows "\<forall>x \<in> set (deployed_log rt cfg deliver requests []).
    \<exists>request \<in> set requests. \<exists>caller m.
      resolve_principal (rt_environ rt) (header_get (str ''authorization'') (rq_headers request)) = Inr caller \<and>
      parse_one x = Inr m \<and> evaluate (rt_ucd rt) (gc_enforce_allowlist cfg) caller m = None \<and>
      (calls_privileged (rt_ucd rt) x \<longrightarrow> pr_is_admin caller)"
proof
  fix x
  assume "x \<in> set (deployed_log rt cfg deliver requests [])"
  then obtain request where request: "request \<in> set requests" "x \<in> set (allowed_messages rt cfg request)"
    unfolding deployed_log_eq [OF assms] by auto
  from allowed_messages_caller [OF request(2)] obtain caller m where m:
    "resolve_principal (rt_environ rt) (header_get (str ''authorization'') (rq_headers request)) = Inr caller"
    "parse_one x = Inr m" "evaluate (rt_ucd rt) (gc_enforce_allowlist cfg) caller m = None"
    by blast
  have "calls_privileged (rt_ucd rt) x \<longrightarrow> pr_is_admin caller"
    using policy_gate.guarded [OF policy_gate_evaluate [OF assms(1)] m(3)] calls_privileged_message [OF m(2)]
    by blast
  with request(1) m show "\<exists>request \<in> set requests. \<exists>caller m.
      resolve_principal (rt_environ rt) (header_get (str ''authorization'') (rq_headers request)) = Inr caller \<and>
      parse_one x = Inr m \<and> evaluate (rt_ucd rt) (gc_enforce_allowlist cfg) caller m = None \<and>
      (calls_privileged (rt_ucd rt) x \<longrightarrow> pr_is_admin caller)"
    by blast
qed

text \<open>A viewer's batch with a blocked call, then an administrator's call: two messages arrive.\<close>

lemma demo_deployed_log:
  "deployed_log demo_rt demo_cfg (\<lambda>_. HttpxError) [demo_viewer, demo_admin] [] =
     [demo_call 1 ''search_docs'', demo_call 3 ''admin_reset'']"
  by code_simp


theorem blocked_calls_never_arrive_witness:
  "\<exists>request \<in> {demo_viewer, demo_admin}. \<exists>caller.
     resolve_principal (rt_environ demo_rt) (header_get (str ''authorization'') (rq_headers request)) = Inr caller \<and>
     pr_is_admin caller"
proof -
  have "\<forall>request \<in> set [demo_viewer, demo_admin]. document_wf demo_rt (concat (rq_chunks request))"
    using demo_wf by simp
  from blocked_calls_never_arrive [OF demo_rt_ascii this, of demo_cfg "\<lambda>_. HttpxError"] demo_admin_privileged
  show ?thesis unfolding demo_deployed_log by fastforce
qed
end
