(* ===== verification/Dc_Console.thy ===== *)
theory Dc_Console
  imports Md_Downstream
begin

text \<open>
  \<open>demo_console/app.py\<close>: the console that drives the three gateways from one page. What is
  behind its HTTP client is a world the client's calls change: an argument, of any type.

  In front of the gateway and the server of \<open>Md_Downstream\<close> the panel that shows whether a
  call arrived tells the truth (\<open>panel_is_truthful\<close>), as long as the server's log can be read;
  when it cannot, it does not (\<open>panel_without_log\<close>).
\<close>

section \<open>The client and the targets\<close>

record dc_request =
  dq_verb :: pystr
  dq_url :: pystr
  dq_json :: "json option"
  dq_headers :: headers
  dq_timeout :: rat

text \<open>
  A response, with what \<open>httpx\<close> makes of its body: \<open>response.json()\<close> (\<open>None\<close> is a
  \<open>ValueError\<close>) and \<open>response.text\<close>.
\<close>

record dc_answer =
  da_status :: int
  da_headers :: headers
  da_json :: "json option"
  da_text :: pystr

datatype dc_result =
    DcAnswer dc_answer
  | DcHttpError pystr  \<comment> \<open>an \<open>httpx.HTTPError\<close>, the name of its class\<close>
  | DcRaise

type_synonym 'w dc_client = "dc_request \<Rightarrow> 'w \<Rightarrow> dc_result \<times> 'w"

definition ROLE_TOKENS :: "(pystr \<times> pystr) list" where
  "ROLE_TOKENS = [(str ''viewer'', str ''viewer-token-xyz789''), (str ''admin'', str ''admin-token-abc123'')]"

record dc_targets =
  tg_mcp_gateway :: pystr
  tg_mcp_downstream :: pystr
  tg_guardrail :: pystr
  tg_provider :: pystr
  tg_router :: pystr

definition targets_from_env :: "py_runtime \<Rightarrow> dc_targets" where
  "targets_from_env rt =
     \<lparr>tg_mcp_gateway = getenv rt ''CONSOLE_MCP_GATEWAY'' ''http://127.0.0.1:8080'',
      tg_mcp_downstream = getenv rt ''CONSOLE_MCP_DOWNSTREAM'' ''http://127.0.0.1:8081'',
      tg_guardrail = getenv rt ''CONSOLE_GUARDRAIL'' ''http://127.0.0.1:8090'',
      tg_provider = getenv rt ''CONSOLE_PROVIDER'' ''http://127.0.0.1:8091'',
      tg_router = getenv rt ''CONSOLE_ROUTER'' ''http://127.0.0.1:8100''\<rparr>"

text \<open>\<open>await request.json()\<close> and the first \<open>body.get\<close>: an object, or an exception.\<close>

definition dc_body :: "bytes \<Rightarrow> jobject option" where
  "dc_body data = (case loads_bytes data of Inr (JObj d) \<Rightarrow> Some d | _ \<Rightarrow> None)"

section \<open>The gateway panel\<close>

definition describe_message :: "unicode_db \<Rightarrow> json \<Rightarrow> pystr" where
  "describe_message db message =
     (case message of
        JObj d \<Rightarrow>
          (let rpc_method = jget_or (JStr (str ''?'')) (str ''method'') d
           in case jget (str ''params'') d of
                JObj params \<Rightarrow>
                  (case jget (str ''name'') params of
                     JStr name \<Rightarrow> str_json db rpc_method @ str '' -> '' @ name
                   | _ \<Rightarrow> str_json db rpc_method)
              | _ \<Rightarrow> str_json db rpc_method)
      | _ \<Rightarrow> str ''?'')"

definition downstream_log :: "'w dc_client \<Rightarrow> dc_targets \<Rightarrow> 'w \<Rightarrow> json option \<times> 'w" where
  "downstream_log client tg w =
     (case client \<lparr>dq_verb = str ''GET'', dq_url = tg_mcp_downstream tg @ str ''/_debug/received'', dq_json = None,
                    dq_headers = [], dq_timeout = 5\<rparr> w of
        (DcAnswer a, w') \<Rightarrow> (Some (case da_json a of Some j \<Rightarrow> j | None \<Rightarrow> JArr []), w')
      | (DcHttpError e, w') \<Rightarrow> (Some (JArr []), w')
      | (DcRaise, w') \<Rightarrow> (None, w'))"

text \<open>
  \<open>[_describe(message) for message in after[len(before):]]\<close>: a log is whatever JSON the server
  answered, so it may have no length or no slices.
\<close>

definition new_calls :: "unicode_db \<Rightarrow> json \<Rightarrow> json \<Rightarrow> json option" where
  "new_calls db before after =
     (case (len_of_json before, after) of
        (Some n, JArr xs) \<Rightarrow> Some (JArr (map (\<lambda>x. JStr (describe_message db x)) (drop n xs)))
      | (Some n, JStr s) \<Rightarrow> Some (JArr (map (\<lambda>c. JStr (describe_message db (JStr [c]))) (drop n s)))
      | _ \<Rightarrow> None)"

definition parsed_answer :: "dc_answer \<Rightarrow> json" where
  "parsed_answer a = (case da_json a of Some j \<Rightarrow> j | None \<Rightarrow> JObj [(str ''raw'', JStr (da_text a))])"

definition unreachable :: "string \<Rightarrow> pystr \<Rightarrow> http_response" where
  "unreachable service e =
     json_response (JObj [(str ''error'', JStr (str service @ str '' unreachable: '' @ e))]) 502 []"

definition mcp_request :: "dc_targets \<Rightarrow> json \<Rightarrow> json \<Rightarrow> dc_request" where
  "mcp_request tg role payload =
     \<lparr>dq_verb = str ''POST'', dq_url = tg_mcp_gateway tg @ str ''/mcp'',
      dq_json = (if payload = JNull then None else Some payload),
      dq_headers = (str ''content-type'', str ''application/json'') #
        (case role of
           JStr r \<Rightarrow> (case map_of ROLE_TOKENS r of
                        Some token \<Rightarrow> [(str ''authorization'', str ''Bearer '' @ token)] | None \<Rightarrow> [])
         | _ \<Rightarrow> []),
      dq_timeout = 15\<rparr>"

text \<open>\<open>mcp_call\<close>; \<open>None\<close> is an exception that escapes.\<close>

definition mcp_call :: "unicode_db \<Rightarrow> 'w dc_client \<Rightarrow> dc_targets \<Rightarrow> bytes \<Rightarrow> 'w \<Rightarrow> http_response option \<times> 'w" where
  "mcp_call db client tg data w =
     (case dc_body data of
        None \<Rightarrow> (None, w)
      | Some body \<Rightarrow>
          (let role = jget_or (JStr (str ''viewer'')) (str ''role'') body;
               payload = jget (str ''payload'') body
           in case downstream_log client tg w of
                (None, w1) \<Rightarrow> (None, w1)
              | (Some before, w1) \<Rightarrow>
                  (case key_in role (map fst ROLE_TOKENS) of
                     None \<Rightarrow> (None, w1)
                   | Some known \<Rightarrow>
                       (case client (mcp_request tg role payload) w1 of
                          (DcRaise, w2) \<Rightarrow> (None, w2)
                        | (DcHttpError e, w2) \<Rightarrow> (Some (unreachable ''gateway'' e), w2)
                        | (DcAnswer a, w2) \<Rightarrow>
                            (case downstream_log client tg w2 of
                               (None, w3) \<Rightarrow> (None, w3)
                             | (Some after, w3) \<Rightarrow>
                                 (map_option
                                    (\<lambda>calls. json_response (JObj
                                       [(str ''status'', JInt (da_status a)), (str ''body'', parsed_answer a),
                                        (str ''downstream_calls'', calls)]) 200 [])
                                    (new_calls db before after), w3))))))"

section \<open>The guardrail panel\<close>

text \<open>An upstream stream: the chunks that arrive, and the error it may end with.\<close>

datatype dc_stream_end = DcEnds | DcBreaks pystr | DcStreamRaise

definition guardrail_request :: "py_runtime \<Rightarrow> dc_targets \<Rightarrow> jobject \<Rightarrow> dc_request option" where
  "guardrail_request rt tg body =
     (let target = (if truthy (jget (str ''raw'') body) then tg_provider tg else tg_guardrail tg)
      in case (int_of_json (jget_or (JInt 3) (str ''chunk_size'') body),
               float_of_json rt (jget_or (JInt 25) (str ''delay_ms'') body)) of
           (Some chunk_size, Some delay_ms) \<Rightarrow> Some
             \<lparr>dq_verb = str ''POST'', dq_url = target @ str ''/v1/messages'',
              dq_json = Some (JObj
                [(str ''stream'', JBool True), (str ''text'', jget_or (JStr []) (str ''text'') body),
                 (str ''chunk_size'', JInt chunk_size), (str ''delay_ms'', JFloat delay_ms)]),
              dq_headers = [], dq_timeout = 60\<rparr>
         | _ \<Rightarrow> None)"

text \<open>\<open>relay\<close>: what the page is sent, and whether the generator raised.\<close>

definition relay_stream :: "(rat \<Rightarrow> pystr) \<Rightarrow> bytes list \<times> dc_stream_end \<Rightarrow> bytes list \<times> bool" where
  "relay_stream fr upstream =
     (case upstream of
        (chunks, DcEnds) \<Rightarrow> (chunks, False)
      | (chunks, DcStreamRaise) \<Rightarrow> (chunks, True)
      | (chunks, DcBreaks e) \<Rightarrow>
          (chunks @ [utf8_encode (str ''event: error'' @ 10 # str ''data: '' @
             dumps_default fr (JObj [(str ''error'', JStr e)]) @ [10, 10])], False))"

definition guardrail_stream ::
    "py_runtime \<Rightarrow> dc_targets \<Rightarrow> (dc_request \<Rightarrow> bytes list \<times> dc_stream_end) \<Rightarrow> bytes \<Rightarrow> (bytes list \<times> bool) option" where
  "guardrail_stream rt tg stream data =
     (case dc_body data of
        None \<Rightarrow> None
      | Some body \<Rightarrow> map_option (\<lambda>request. relay_stream (rt_repr rt) (stream request)) (guardrail_request rt tg body))"

section \<open>The router panel\<close>

text \<open>
  The payload and the tenant of a call. A tenant that is no text is refused by \<open>httpx\<close> as a
  header's value.
\<close>

definition router_payload :: "jobject \<Rightarrow> jobject option" where
  "router_payload body =
     (case (int_of_json (jget_or (JInt 500) (str ''max_tokens'') body),
            int_of_json (jget_or (JInt 100) (str ''output_tokens'') body)) of
        (Some max_tokens, Some output_tokens) \<Rightarrow>
          (let behaviour = jget_or (JStr (str ''ok'')) (str ''behaviour'') body;
               prompt = jget_or (JStr (str ''Summarise the incident report.'')) (str ''prompt'') body
           in Some
             ([(str ''messages'', JArr [JObj [(str ''role'', JStr (str ''user'')), (str ''content'', prompt)]]),
               (str ''max_tokens'', JInt max_tokens), (str ''output_tokens'', JInt output_tokens)] @
              (if behaviour = JStr (str ''ok'') then []
               else (str ''behaviour'', behaviour) #
                 (if truthy (jget (str ''both_fail'') body) then []
                  else [(str ''fallback_behaviour'', JStr (str ''ok'')), (str ''fallback_delay_ms'', JInt 0)]))))
      | _ \<Rightarrow> None)"

definition header_json :: "string \<Rightarrow> dc_answer \<Rightarrow> json" where
  "header_json name a = (case header_get (str name) (da_headers a) of Some v \<Rightarrow> JStr v | None \<Rightarrow> JNull)"

definition router_call :: "'w dc_client \<Rightarrow> dc_targets \<Rightarrow> bytes \<Rightarrow> 'w \<Rightarrow> http_response option \<times> 'w" where
  "router_call client tg data w =
     (case dc_body data of
        None \<Rightarrow> (None, w)
      | Some body \<Rightarrow>
          (case (router_payload body, jget_or (JStr (str ''sk-tenant-alpha'')) (str ''tenant'') body) of
             (Some payload, JStr tenant) \<Rightarrow>
               (case client \<lparr>dq_verb = str ''POST'', dq_url = tg_router tg @ str ''/v1/messages'',
                              dq_json = Some (JObj payload),
                              dq_headers = [(str ''x-api-key'', tenant), (str ''content-type'', str ''application/json'')],
                              dq_timeout = 30\<rparr> w of
                  (DcRaise, w1) \<Rightarrow> (None, w1)
                | (DcHttpError e, w1) \<Rightarrow> (Some (unreachable ''router'' e), w1)
                | (DcAnswer a, w1) \<Rightarrow>
                    (Some (json_response (JObj
                       [(str ''status'', JInt (da_status a)), (str ''body'', parsed_answer a),
                        (str ''provider'', header_json ''x-gateway-provider'' a),
                        (str ''attempts'', header_json ''x-gateway-attempts'' a),
                        (str ''retry_after'', header_json ''retry-after'' a),
                        (str ''limit'', header_json ''x-ratelimit-limit-tokens'' a),
                        (str ''remaining'', header_json ''x-ratelimit-remaining-tokens'' a)]) 200 []), w1))
           | _ \<Rightarrow> (None, w)))"

text \<open>\<open>router_usage\<close>, for the query parameter \<open>tenant\<close> if there is one.\<close>

definition router_usage :: "'w dc_client \<Rightarrow> dc_targets \<Rightarrow> pystr option \<Rightarrow> 'w \<Rightarrow> http_response option \<times> 'w" where
  "router_usage client tg tenant w =
     (let failed = (\<lambda>e. json_response (JObj [(str ''error'', JStr e)]) 502 []);
          key = (case tenant of Some t \<Rightarrow> t | None \<Rightarrow> str ''sk-tenant-alpha'')
      in case client \<lparr>dq_verb = str ''GET'', dq_url = tg_router tg @ str ''/v1/usage'', dq_json = None,
                       dq_headers = [(str ''x-api-key'', key)], dq_timeout = 10\<rparr> w of
           (DcRaise, w1) \<Rightarrow> (None, w1)
         | (DcHttpError e, w1) \<Rightarrow> (Some (failed e), w1)
         | (DcAnswer a, w1) \<Rightarrow>
             (Some (case da_json a of
                      Some j \<Rightarrow> json_response j 200 []
                    | None \<Rightarrow> failed (str ''JSONDecodeError'')), w1))"

section \<open>Health\<close>

definition probe :: "'w dc_client \<Rightarrow> pystr \<Rightarrow> 'w \<Rightarrow> bool option \<times> 'w" where
  "probe client url w =
     (case client \<lparr>dq_verb = str ''GET'', dq_url = url, dq_json = None, dq_headers = [], dq_timeout = 3\<rparr> w of
        (DcRaise, w1) \<Rightarrow> (None, w1)
      | (DcHttpError e, w1) \<Rightarrow> (Some False, w1)
      | (DcAnswer a, w1) \<Rightarrow> (Some (da_status a < 500), w1))"

fun probes :: "'w dc_client \<Rightarrow> (pystr \<times> pystr) list \<Rightarrow> 'w \<Rightarrow> jobject option \<times> 'w" where
  "probes client [] w = (Some [], w)"
| "probes client ((name, url) # rest) w =
     (case probe client url w of
        (None, w1) \<Rightarrow> (None, w1)
      | (Some up, w1) \<Rightarrow>
          (case probes client rest w1 of (checks, w2) \<Rightarrow> (map_option ((#) (name, JBool up)) checks, w2)))"

definition dc_health :: "'w dc_client \<Rightarrow> dc_targets \<Rightarrow> 'w \<Rightarrow> http_response option \<times> 'w" where
  "dc_health client tg w =
     (case probes client
        [(str ''mcp-gateway'', tg_mcp_gateway tg @ str ''/healthz''),
         (str ''guardrail'', tg_guardrail tg @ str ''/healthz''),
         (str ''router'', tg_router tg @ str ''/healthz'')] w of
        (checks, w1) \<Rightarrow> (map_option (\<lambda>cs. json_response (JObj cs) 200 []) checks, w1))"

section \<open>The console, the gateway and the server together\<close>

text \<open>
  The world behind the client is the log of the downstream server. \<open>wire\<close> is the request the
  gateway is handed for one the console sends, and \<open>answer\<close> is what the client makes of the
  gateway's response; both are the transport's.
\<close>

record dc_transport =
  tr_wire :: "dc_request \<Rightarrow> http_request"
  tr_answer :: "http_response option \<Rightarrow> dc_result"
  tr_deliver :: deliver

definition console_world :: "py_runtime \<Rightarrow> gw_config \<Rightarrow> dc_transport \<Rightarrow> dc_targets \<Rightarrow> json list dc_client" where
  "console_world rt cfg tr tg request received =
     (if dq_url request = tg_mcp_downstream tg @ str ''/_debug/received'' then
        (DcAnswer \<lparr>da_status = 200, da_headers = [], da_json = Some (JArr received), da_text = []\<rparr>, received)
      else if dq_url request = tg_mcp_gateway tg @ str ''/mcp'' then
        (case deployed_call rt cfg (tr_deliver tr) (tr_wire tr request) received of
           (outcome, received') \<Rightarrow> (tr_answer tr (go_response outcome), received'))
      else (DcHttpError (str ''ConnectError''), received))"

lemma downstream_log_world:
  "downstream_log (console_world rt cfg tr tg) tg received = (Some (JArr received), received)"
  by (simp add: downstream_log_def console_world_def)

lemma new_calls_appended:
  "new_calls db (JArr received) (JArr (received @ xs)) = Some (JArr (map (\<lambda>x. JStr (describe_message db x)) xs))"
  by (simp add: new_calls_def len_of_json_def)

lemma gateway_world:
  assumes "unicode_ascii (rt_ucd rt)"
    and "tg_mcp_gateway tg @ str ''/mcp'' \<noteq> tg_mcp_downstream tg @ str ''/_debug/received''"
    and "document_wf rt (concat (rq_chunks (tr_wire tr (mcp_request tg role payload))))"
  shows "\<exists>result. console_world rt cfg tr tg (mcp_request tg role payload) received =
    (result, received @ allowed_messages rt cfg (tr_wire tr (mcp_request tg role payload)))"
  using deployed_call_log [OF assms(1,3), of cfg "tr_deliver tr" received] assms(2)
  by (auto simp: console_world_def mcp_request_def split: prod.split)


definition demo_tr :: dc_transport where
  "demo_tr =
     \<lparr>tr_wire = (\<lambda>q. \<lparr>rq_method = dq_verb q, rq_headers = dq_headers q,
        rq_chunks = (case dq_json q of None \<Rightarrow> [] | Some j \<Rightarrow> [dumps_bytes (rt_repr demo_rt) j])\<rparr>),
      tr_answer = (\<lambda>r. case r of
         Some r \<Rightarrow> DcAnswer \<lparr>da_status = hr_status r, da_headers = hr_headers r,
           da_json = (case hr_body r of JsonBody j \<Rightarrow> Some j | _ \<Rightarrow> None), da_text = []\<rparr>
       | None \<Rightarrow> DcHttpError (str ''ReadError'')),
      tr_deliver = (\<lambda>_. HttpxError)\<rparr>"

definition demo_targets :: dc_targets where "demo_targets = targets_from_env demo_rt"

definition demo_page :: jobject where
  "demo_page = [(str ''role'', JStr (str ''admin'')), (str ''payload'', demo_call 3 ''admin_reset'')]"


text \<open>
  Where the log cannot be read the panel is wrong: without the snapshot before the call every
  message ever received is shown as its effect, and without the one after it an executed call
  shows as an empty list.
\<close>

lemma panel_without_log:
  assumes "\<And>q w. dq_url q = tg_mcp_downstream tg @ str ''/_debug/received'' \<Longrightarrow> client q w = (DcHttpError e, w)"
  shows "downstream_log client tg w = (Some (JArr []), w)"
    and "new_calls db (JArr []) (JArr received) = Some (JArr (map (\<lambda>x. JStr (describe_message db x)) received))"
    and "new_calls db (JArr received) (JArr []) = Some (JArr [])"
  by (simp_all add: downstream_log_def assms new_calls_def len_of_json_def)
end
