(* ===== verification/Dv_Entry.thy ===== *)
theory Dv_Entry
  imports Http
begin

text \<open>
  The entry points (\<open>__main__.py\<close> of every service and mock): the address each listens on,
  from the environment. Starting the server on it and the logging set-up are not modelled.
\<close>

record address =
  ad_host :: pystr
  ad_port :: int

text \<open>\<open>None\<close> is the \<open>ValueError\<close> of a port that is no number.\<close>

definition address_from :: "py_runtime \<Rightarrow> string \<Rightarrow> string \<Rightarrow> string \<Rightarrow> address option" where
  "address_from rt host_var port_var default_port =
     map_option (\<lambda>p. \<lparr>ad_host = getenv rt host_var ''127.0.0.1'', ad_port = p\<rparr>)
       (py_int (getenv rt port_var default_port))"

definition gateway_address :: "py_runtime \<Rightarrow> address option" where
  "gateway_address rt = address_from rt ''MCP_GATEWAY_HOST'' ''MCP_GATEWAY_PORT'' ''8080''"

definition router_address :: "py_runtime \<Rightarrow> address option" where
  "router_address rt = address_from rt ''LLM_ROUTER_HOST'' ''LLM_ROUTER_PORT'' ''8100''"

definition guardrail_address :: "py_runtime \<Rightarrow> address option" where
  "guardrail_address rt = address_from rt ''LLM_GUARDRAIL_HOST'' ''LLM_GUARDRAIL_PORT'' ''8090''"

definition console_address :: "py_runtime \<Rightarrow> address option" where
  "console_address rt = address_from rt ''CONSOLE_HOST'' ''CONSOLE_PORT'' ''8000''"

definition downstream_address :: "py_runtime \<Rightarrow> address option" where
  "downstream_address rt = address_from rt ''MOCK_HOST'' ''MOCK_PORT'' ''8081''"

definition mock_provider_address :: "py_runtime \<Rightarrow> address option" where
  "mock_provider_address rt = address_from rt ''MOCK_HOST'' ''MOCK_PORT'' ''8091''"

text \<open>The mock model provider runs under a name, which decides the default port.\<close>

definition mock_model_name :: "py_runtime \<Rightarrow> pystr" where
  "mock_model_name rt = getenv rt ''MOCK_NAME'' ''primary''"

definition mock_model_address :: "py_runtime \<Rightarrow> address option" where
  "mock_model_address rt =
     address_from rt ''MOCK_HOST'' ''MOCK_PORT''
       (if mock_model_name rt = str ''primary'' then ''8101'' else ''8102'')"

definition url_of :: "address \<Rightarrow> pystr" where
  "url_of a = str ''http://'' @ ad_host a @ 58 # int_digits (ad_port a)"

definition loopback :: "int \<Rightarrow> address" where
  "loopback p = \<lparr>ad_host = str ''127.0.0.1'', ad_port = p\<rparr>"

lemma default_addresses:
  assumes "rt_environ rt = (\<lambda>_. None)"
  shows "gateway_address rt = Some (loopback 8080)" "router_address rt = Some (loopback 8100)"
    "guardrail_address rt = Some (loopback 8090)" "console_address rt = Some (loopback 8000)"
    "downstream_address rt = Some (loopback 8081)" "mock_provider_address rt = Some (loopback 8091)"
    "mock_model_address rt = Some (loopback 8101)"
proof -
  have ports: "py_int (str ''8080'') = Some 8080" "py_int (str ''8100'') = Some 8100" "py_int (str ''8090'') = Some 8090"
    "py_int (str ''8000'') = Some 8000" "py_int (str ''8081'') = Some 8081" "py_int (str ''8091'') = Some 8091"
    "py_int (str ''8101'') = Some 8101"
    by code_simp+
  show "gateway_address rt = Some (loopback 8080)" "router_address rt = Some (loopback 8100)"
    "guardrail_address rt = Some (loopback 8090)" "console_address rt = Some (loopback 8000)"
    "downstream_address rt = Some (loopback 8081)" "mock_provider_address rt = Some (loopback 8091)"
    "mock_model_address rt = Some (loopback 8101)"
    by (simp_all add: gateway_address_def router_address_def guardrail_address_def console_address_def
        downstream_address_def mock_provider_address_def mock_model_address_def mock_model_name_def
        address_from_def getenv_def assms ports loopback_def)
qed

lemma default_fallback:
  assumes "rt_environ rt = [str ''MOCK_NAME'' \<mapsto> str ''fallback'']"
  shows "mock_model_name rt = str ''fallback''" "mock_model_address rt = Some (loopback 8102)"
proof -
  have "py_int (str ''8102'') = Some 8102" by code_simp
  then show "mock_model_name rt = str ''fallback''" "mock_model_address rt = Some (loopback 8102)"
    by (simp_all add: mock_model_address_def mock_model_name_def address_from_def getenv_def assms loopback_def)
qed

end
