(* ===== verification/Dv_Routes.thy ===== *)
theory Dv_Routes
  imports Dv_Entry Dc_Console Gw_Safety Gd_App Rt_App
begin

text \<open>
  The route tables (\<open>create_app\<close> of every service and mock), and that the requests the services
  make of each other find a route. Matching a request against the table is Starlette's: a route
  is served where the path is equal and the method among its methods (a route that names none
  serves \<open>GET\<close>).
\<close>

type_synonym route_table = "(pystr \<times> pystr list) list"

definition gateway_routes :: route_table where
  "gateway_routes =
     [(str ''/mcp'', [str ''POST'']), (str ''/mcp'', [str ''GET'', str ''DELETE'']), (str ''/healthz'', [str ''GET''])]"

definition router_routes :: route_table where
  "router_routes =
     [(str ''/v1/messages'', [str ''POST'']), (str ''/v1/usage'', [str ''GET'']), (str ''/healthz'', [str ''GET''])]"

definition guardrail_routes :: route_table where
  "guardrail_routes = [(str ''/v1/messages'', [str ''POST'']), (str ''/healthz'', [str ''GET''])]"

definition console_routes :: route_table where
  "console_routes =
     [(str ''/'', [str ''GET'']), (str ''/api/health'', [str ''GET'']), (str ''/api/mcp'', [str ''POST'']),
      (str ''/api/guardrail'', [str ''POST'']), (str ''/api/router'', [str ''POST'']),
      (str ''/api/router/usage'', [str ''GET''])]"

definition downstream_routes :: route_table where
  "downstream_routes =
     [(str ''/mcp'', [str ''POST'']), (str ''/_debug/received'', [str ''GET'']), (str ''/mcp'', [str ''GET'']),
      (str ''/mcp'', [str ''DELETE''])]"

definition mock_model_routes :: route_table where
  "mock_model_routes = [(str ''/v1/messages'', [str ''POST''])]"

definition mock_provider_routes :: route_table where
  "mock_provider_routes = [(str ''/v1/messages'', [str ''POST''])]"

definition served_at :: "address option \<Rightarrow> route_table \<Rightarrow> pystr \<Rightarrow> pystr \<Rightarrow> bool" where
  "served_at a routes verb url \<longleftrightarrow>
     (case a of
        None \<Rightarrow> False
      | Some x \<Rightarrow> list_ex (\<lambda>(path, verbs). url = url_of x @ path \<and> verb \<in> set verbs) routes)"

section \<open>What the console asks for\<close>

text \<open>A client that keeps the requests it is given.\<close>

definition spy :: "(dc_request \<Rightarrow> dc_result) \<Rightarrow> dc_request list dc_client" where
  "spy answer q before = (answer q, before @ [q])"

definition console_served :: "py_runtime \<Rightarrow> dc_request \<Rightarrow> bool" where
  "console_served rt q \<longleftrightarrow>
     served_at (gateway_address rt) gateway_routes (dq_verb q) (dq_url q) \<or>
     served_at (downstream_address rt) downstream_routes (dq_verb q) (dq_url q) \<or>
     served_at (guardrail_address rt) guardrail_routes (dq_verb q) (dq_url q) \<or>
     served_at (mock_provider_address rt) mock_provider_routes (dq_verb q) (dq_url q) \<or>
     served_at (router_address rt) router_routes (dq_verb q) (dq_url q)"

lemma default_urls:
  "url_of (loopback 8080) = str ''http://127.0.0.1:8080''" "url_of (loopback 8081) = str ''http://127.0.0.1:8081''"
  "url_of (loopback 8090) = str ''http://127.0.0.1:8090''" "url_of (loopback 8091) = str ''http://127.0.0.1:8091''"
  "url_of (loopback 8100) = str ''http://127.0.0.1:8100''" "url_of (loopback 8101) = str ''http://127.0.0.1:8101''"
  "url_of (loopback 8102) = str ''http://127.0.0.1:8102''"
  by code_simp+

lemma default_targets:
  assumes "rt_environ rt = (\<lambda>_. None)"
  shows "targets_from_env rt =
    \<lparr>tg_mcp_gateway = url_of (loopback 8080), tg_mcp_downstream = url_of (loopback 8081),
     tg_guardrail = url_of (loopback 8090), tg_provider = url_of (loopback 8091), tg_router = url_of (loopback 8100)\<rparr>"
  using assms by (simp add: targets_from_env_def getenv_def default_urls)

lemma served_simps:
  assumes "rt_environ rt = (\<lambda>_. None)"
  shows "served_at (gateway_address rt) routes verb url \<longleftrightarrow> list_ex (\<lambda>(path, verbs). url = url_of (loopback 8080) @ path \<and> verb \<in> set verbs) routes"
    "served_at (downstream_address rt) routes verb url \<longleftrightarrow> list_ex (\<lambda>(path, verbs). url = url_of (loopback 8081) @ path \<and> verb \<in> set verbs) routes"
    "served_at (guardrail_address rt) routes verb url \<longleftrightarrow> list_ex (\<lambda>(path, verbs). url = url_of (loopback 8090) @ path \<and> verb \<in> set verbs) routes"
    "served_at (mock_provider_address rt) routes verb url \<longleftrightarrow> list_ex (\<lambda>(path, verbs). url = url_of (loopback 8091) @ path \<and> verb \<in> set verbs) routes"
    "served_at (router_address rt) routes verb url \<longleftrightarrow> list_ex (\<lambda>(path, verbs). url = url_of (loopback 8100) @ path \<and> verb \<in> set verbs) routes"
    "served_at (mock_model_address rt) routes verb url \<longleftrightarrow> list_ex (\<lambda>(path, verbs). url = url_of (loopback 8101) @ path \<and> verb \<in> set verbs) routes"
  by (simp_all add: served_at_def default_addresses [OF assms])

lemmas route_tables = gateway_routes_def router_routes_def guardrail_routes_def downstream_routes_def
  mock_model_routes_def mock_provider_routes_def

lemma targets_served:
  assumes "rt_environ rt = (\<lambda>_. None)"
  defines "tg \<equiv> targets_from_env rt"
  shows "dq_verb q = str ''POST'' \<Longrightarrow> dq_url q = tg_mcp_gateway tg @ str ''/mcp'' \<Longrightarrow> console_served rt q"
    and "dq_verb q = str ''GET'' \<Longrightarrow> dq_url q = tg_mcp_downstream tg @ str ''/_debug/received'' \<Longrightarrow> console_served rt q"
    and "dq_verb q = str ''POST'' \<Longrightarrow> dq_url q = tg_guardrail tg @ str ''/v1/messages'' \<Longrightarrow> console_served rt q"
    and "dq_verb q = str ''POST'' \<Longrightarrow> dq_url q = tg_provider tg @ str ''/v1/messages'' \<Longrightarrow> console_served rt q"
    and "dq_verb q = str ''POST'' \<Longrightarrow> dq_url q = tg_router tg @ str ''/v1/messages'' \<Longrightarrow> console_served rt q"
    and "dq_verb q = str ''GET'' \<Longrightarrow> dq_url q = tg_router tg @ str ''/v1/usage'' \<Longrightarrow> console_served rt q"
    and "dq_verb q = str ''GET'' \<Longrightarrow> dq_url q \<in> {tg_mcp_gateway tg @ str ''/healthz'', tg_guardrail tg @ str ''/healthz'',
      tg_router tg @ str ''/healthz''} \<Longrightarrow> console_served rt q"
  unfolding tg_def default_targets [OF assms(1)]
  by (auto simp: console_served_def served_simps [OF assms(1)] route_tables)

definition all_served :: "py_runtime \<Rightarrow> dc_request list \<Rightarrow> bool" where
  "all_served rt qs \<longleftrightarrow> list_all (console_served rt) qs"

lemma all_served_snoc: "all_served rt (qs @ [q]) \<longleftrightarrow> all_served rt qs \<and> console_served rt q"
  by (simp add: all_served_def)

text \<open>One request more, if it is one of those.\<close>

lemma spied:
  "spy answer q before = (r, after) \<Longrightarrow> all_served rt before \<Longrightarrow> console_served rt q \<Longrightarrow> all_served rt after"
  by (auto simp: spy_def all_served_snoc)

lemma log_served:
  assumes "rt_environ rt = (\<lambda>_. None)" "all_served rt before"
    "downstream_log (spy answer) (targets_from_env rt) before = (r, after)"
  shows "all_served rt after"
  using assms(2,3) targets_served(2) [OF assms(1)]
  by (auto simp: downstream_log_def spy_def all_served_snoc split: dc_result.splits)

lemma mcp_call_served:
  assumes "rt_environ rt = (\<lambda>_. None)" "all_served rt before"
    "mcp_call db (spy answer) (targets_from_env rt) data before = (r, after)"
  shows "all_served rt after"
proof (cases "dc_body data")
  case None
  then show ?thesis using assms(2,3) by (simp add: mcp_call_def)
next
  case (Some body)
  let ?tg = "targets_from_env rt"
  let ?q = "mcp_request ?tg (jget_or (JStr (str ''viewer'')) (str ''role'') body) (jget (str ''payload'') body)"
  obtain b s1 where l1: "downstream_log (spy answer) ?tg before = (b, s1)" by (cases "downstream_log (spy answer) ?tg before")
  note s1 = log_served [OF assms(1,2) l1]
  have s2: "all_served rt (s1 @ [?q])"
    using s1 targets_served(1) [OF assms(1), of ?q] by (simp add: all_served_snoc mcp_request_def)
  obtain a s3 where l2: "downstream_log (spy answer) ?tg (s1 @ [?q]) = (a, s3)" by (cases "downstream_log (spy answer) ?tg (s1 @ [?q])")
  note s3 = log_served [OF assms(1) s2 l2]
  show ?thesis
    using assms(3) Some l1 l2 s1 s2 s3
    by (auto simp: mcp_call_def Let_def spy_def [of answer ?q] split: option.splits dc_result.splits)
qed

lemma probes_served:
  assumes "probes (spy answer) checks before = (r, after)" "all_served rt before"
    "\<And>url q. url \<in> snd ` set checks \<Longrightarrow> dq_verb q = str ''GET'' \<Longrightarrow> dq_url q = url \<Longrightarrow> console_served rt q"
  shows "all_served rt after"
  using assms
proof (induction checks arbitrary: before r after)
  case (Cons x checks)
  obtain name url where x: "x = (name, url)" by (cases x)
  let ?q = "\<lparr>dq_verb = str ''GET'', dq_url = url, dq_json = None, dq_headers = [], dq_timeout = 3\<rparr>"
  have s: "all_served rt (before @ [?q])"
    using Cons.prems(2) Cons.prems(3) [of url ?q] by (simp add: all_served_snoc x)
  have p: "snd (probe (spy answer) url before) = before @ [?q]"
    by (simp add: probe_def spy_def split: dc_result.split)
  obtain up where up: "probe (spy answer) url before = (up, before @ [?q])"
    using p by (metis prod.collapse)
  show ?case
  proof (cases up)
    case None
    then show ?thesis using Cons.prems(1) s by (simp add: x up)
  next
    case (Some b)
    obtain c s2 where c: "probes (spy answer) checks (before @ [?q]) = (c, s2)" by (cases "probes (spy answer) checks (before @ [?q])")
    have "all_served rt s2"
      by (rule Cons.IH [OF c s]) (use Cons.prems(3) in auto)
    then show ?thesis using Cons.prems(1) Some c by (simp add: x up)
  qed
qed simp

lemma health_served:
  assumes "rt_environ rt = (\<lambda>_. None)"
  shows "all_served rt (snd (dc_health (spy answer) (targets_from_env rt) []))"
proof -
  let ?tg = "targets_from_env rt"
  let ?checks = "[(str ''mcp-gateway'', tg_mcp_gateway ?tg @ str ''/healthz''), (str ''guardrail'', tg_guardrail ?tg @ str ''/healthz''),
    (str ''router'', tg_router ?tg @ str ''/healthz'')]"
  obtain c s where c: "probes (spy answer) ?checks [] = (c, s)" by (cases "probes (spy answer) ?checks []")
  have "all_served rt s"
    by (rule probes_served [OF c]) (use targets_served(7) [OF assms] in \<open>auto simp: all_served_def\<close>)
  then show ?thesis unfolding dc_health_def c by simp
qed

lemma router_served:
  assumes "rt_environ rt = (\<lambda>_. None)"
  shows "all_served rt (snd (router_call (spy answer) (targets_from_env rt) data []))"
    and "all_served rt (snd (router_usage (spy answer) (targets_from_env rt) tenant []))"
proof -
  note served = targets_served(5,6) [OF assms]
  show "all_served rt (snd (router_call (spy answer) (targets_from_env rt) data []))"
    using served(1)
    by (auto simp: router_call_def spy_def all_served_def split: option.split json.split dc_result.split)
  show "all_served rt (snd (router_usage (spy answer) (targets_from_env rt) tenant []))"
    using served(2) by (auto simp: router_usage_def Let_def spy_def all_served_def split: option.split dc_result.split)
qed

lemma guardrail_served:
  assumes "rt_environ rt = (\<lambda>_. None)" "guardrail_request rt (targets_from_env rt) body = Some q"
  shows "console_served rt q"
  using assms(2) targets_served(3,4) [OF assms(1), of q]
  by (auto simp: guardrail_request_def Let_def split: option.splits if_splits)

section \<open>What the gateways ask for\<close>

lemma upstreams_served:
  assumes "rt_environ rt = (\<lambda>_. None)"
    and "gw_config_from_env rt = Some gw" "gd_config_from_env rt = Some gd" "rt_config_from_env rt = Some rc"
  shows "\<forall>verb \<in> str ` {''POST'', ''GET'', ''DELETE''}. served_at (downstream_address rt) downstream_routes verb (gc_downstream_url gw)"
    and "served_at (mock_provider_address rt) mock_provider_routes (str ''POST'') (gd_upstream_url gd)"
    and "served_at (mock_model_address rt) mock_model_routes (str ''POST'') (pv_url (rc_primary rc))"
proof -
  have "gc_downstream_url gw = url_of (loopback 8081) @ str ''/mcp''"
    using assms(1,2) by (auto simp: gw_config_from_env_def getenv_def default_urls split: option.splits simp flip: str_append)
  then show "\<forall>verb \<in> str ` {''POST'', ''GET'', ''DELETE''}. served_at (downstream_address rt) downstream_routes verb (gc_downstream_url gw)"
    by (simp add: served_simps [OF assms(1)] downstream_routes_def)
  have "gd_upstream_url gd = url_of (loopback 8091) @ str ''/v1/messages''"
    using assms(1,3) by (auto simp: gd_config_from_env_def getenv_def Let_def default_urls split: option.splits simp flip: str_append)
  then show "served_at (mock_provider_address rt) mock_provider_routes (str ''POST'') (gd_upstream_url gd)"
    by (simp add: served_simps [OF assms(1)] mock_provider_routes_def)
  have "pv_url (rc_primary rc) = url_of (loopback 8101) @ str ''/v1/messages''"
    using assms(1,4) by (auto simp: rt_config_from_env_def env_provider_def getenv_def Let_def default_urls split: option.splits simp flip: str_append)
  then show "served_at (mock_model_address rt) mock_model_routes (str ''POST'') (pv_url (rc_primary rc))"
    by (simp add: served_simps [OF assms(1)] mock_model_routes_def)
qed

section \<open>Property\<close>


definition plain_rt :: py_runtime where
  "plain_rt = demo_rt\<lparr>rt_float := \<lambda>t. Some (Fin 30)\<rparr>"

definition no_answer :: "dc_request \<Rightarrow> dc_result" where
  "no_answer q = DcHttpError (str ''ConnectError'')"


end
