(* ===== verification/Dv_RunTests.thy ===== *)
theory Dv_RunTests
  imports Prelude
begin

text \<open>
  \<open>run_tests.py\<close>: the runner of the test suites. What a suite prints and its return code are
  an argument. The exit status is zero exactly when no summary line counted a failure
  (\<open>exit_status_zero\<close>): the return codes play no part, so a suite that does not start counts
  as passed (\<open>broken_suite_passes\<close>).

  \<open>str.split()\<close> and \<open>str.splitlines()\<close> are modelled; \<open>isdigit\<close> is that of Latin-1.
\<close>

section \<open>Words and lines\<close>

fun words_from :: "pystr \<Rightarrow> pystr \<Rightarrow> pystr list" where
  "words_from acc [] = (if acc = [] then [] else [rev acc])"
| "words_from acc (c # s) =
     (if py_isspace c then (if acc = [] then words_from [] s else rev acc # words_from [] s)
      else words_from (c # acc) s)"

abbreviation py_words :: "pystr \<Rightarrow> pystr list" where
  "py_words \<equiv> words_from []"

definition line_end :: "nat \<Rightarrow> bool" where
  "line_end c \<longleftrightarrow> 10 \<le> c \<and> c \<le> 13 \<or> 28 \<le> c \<and> c \<le> 30 \<or> c = 133 \<or> c = 8232 \<or> c = 8233"

fun lines_from :: "pystr \<Rightarrow> pystr \<Rightarrow> pystr list" where
  "lines_from acc [] = (if acc = [] then [] else [rev acc])"
| "lines_from acc (c # s) =
     (if line_end c
      then rev acc # lines_from [] (if c = 13 \<and> prefix [10] s then tl s else s)
      else lines_from (c # acc) s)"

abbreviation py_lines :: "pystr \<Rightarrow> pystr list" where
  "py_lines \<equiv> lines_from []"

section \<open>The summary of a suite\<close>

definition PROJECTS :: "pystr list" where
  "PROJECTS = map str [''mcp-server'', ''mcp-gateway'', ''llm-gateway-guardrail'', ''llm-gateway-router'']"

text \<open>The variables \<open>count\<close> (\<open>None\<close> while it is unbound), \<open>passed\<close> and \<open>failed\<close>.\<close>

record summary =
  su_count :: "int option"
  su_passed :: int
  su_failed :: int

text \<open>One word of a line; \<open>None\<close> is a \<open>ValueError\<close> or the use of \<open>count\<close> unbound.\<close>

definition summary_part :: "pystr \<Rightarrow> summary \<Rightarrow> summary option" where
  "summary_part part su =
     (if py_isdigit part then
        (case int_of_digits part of None \<Rightarrow> None | Some n \<Rightarrow> Some (su\<lparr>su_count := Some n\<rparr>))
      else if prefix (str ''passed'') part then
        (case su_count su of None \<Rightarrow> None | Some n \<Rightarrow> Some (su\<lparr>su_passed := n\<rparr>))
      else if prefix (str ''failed'') part \<or> prefix (str ''error'') part then
        (case su_count su of None \<Rightarrow> None | Some n \<Rightarrow> Some (su\<lparr>su_failed := su_failed su + n\<rparr>))
      else Some su)"

fun summary_parts :: "pystr list \<Rightarrow> summary \<Rightarrow> summary option" where
  "summary_parts [] su = Some su"
| "summary_parts (part # parts) su =
     (case summary_part part su of None \<Rightarrow> None | Some su' \<Rightarrow> summary_parts parts su')"

definition summary_line :: "pystr \<Rightarrow> bool" where
  "summary_line line \<longleftrightarrow>
     sublist (str '' passed'') line \<or> sublist (str '' failed'') line \<or> sublist (str '' error'') line"

definition blank_equals :: "pystr \<Rightarrow> pystr" where
  "blank_equals = map (\<lambda>c. if c = 61 then 32 else c)"

fun parse_lines :: "pystr list \<Rightarrow> summary \<Rightarrow> (int \<times> int) option" where
  "parse_lines [] su = Some (0, 0)"
| "parse_lines (line # lines) su =
     (if summary_line line then
        (case summary_parts (py_words (blank_equals line)) su of
           None \<Rightarrow> None
         | Some su' \<Rightarrow>
             if su_passed su' \<noteq> 0 \<or> su_failed su' \<noteq> 0 then Some (su_passed su', su_failed su')
             else parse_lines lines su')
      else parse_lines lines su)"

definition parse_total :: "pystr \<Rightarrow> (int \<times> int) option" where
  "parse_total output =
     parse_lines (rev (py_lines (py_strip output))) \<lparr>su_count = None, su_passed = 0, su_failed = 0\<rparr>"

section \<open>The runner\<close>

record completed =
  co_stdout :: pystr
  co_stderr :: pystr
  co_returncode :: int

definition split_arguments :: "pystr list \<Rightarrow> pystr list \<times> pystr list" where
  "split_arguments arguments =
     (if str ''--'' \<in> set arguments
      then (takeWhile (\<lambda>a. a \<noteq> str ''--'') arguments, tl (dropWhile (\<lambda>a. a \<noteq> str ''--'') arguments))
      else (arguments, []))"

definition selected_projects :: "pystr list \<Rightarrow> pystr list" where
  "selected_projects selected = filter (\<lambda>name. selected = [] \<or> name \<in> set selected) PROJECTS"

text \<open>
  One suite; \<open>None\<close> when the summary cannot be read, or when there is no last line to show of
  a suite that is green.
\<close>

definition suite_total :: "completed \<Rightarrow> (int \<times> int) option" where
  "suite_total c =
     (let output = co_stdout c @ co_stderr c
      in case parse_total output of
           None \<Rightarrow> None
         | Some (passed, failed) \<Rightarrow>
             if failed = 0 \<and> co_returncode c = 0 \<and> py_lines (py_strip output) = [] then None
             else Some (passed, failed))"

fun suite_totals :: "(pystr \<Rightarrow> pystr list \<Rightarrow> completed) \<Rightarrow> pystr list \<Rightarrow> pystr list \<Rightarrow> (int \<times> int) list option" where
  "suite_totals run extra [] = Some []"
| "suite_totals run extra (name # names) =
     (case suite_total (run name extra) of
        None \<Rightarrow> None
      | Some t \<Rightarrow> map_option ((#) t) (suite_totals run extra names))"

text \<open>\<open>main\<close>, the exit status.\<close>

definition run_tests :: "(pystr \<Rightarrow> pystr list \<Rightarrow> completed) \<Rightarrow> pystr list \<Rightarrow> int option" where
  "run_tests run arguments =
     (let (selected, extra) = split_arguments arguments;
          projects = selected_projects selected
      in if projects = [] then Some 2
         else map_option (\<lambda>ts. if sum_list (map snd ts) \<noteq> 0 then 1 else 0) (suite_totals run extra projects))"

section \<open>The exit status\<close>

lemma digits_value_int_nonneg: "int_of_digits s = Some n \<Longrightarrow> 0 \<le> n"
  by (auto simp: int_of_digits_def split: if_splits)

definition counts_ok :: "summary \<Rightarrow> bool" where
  "counts_ok su \<longleftrightarrow> (\<forall>n. su_count su = Some n \<longrightarrow> 0 \<le> n) \<and> 0 \<le> su_passed su \<and> 0 \<le> su_failed su"

lemma summary_parts_ok: "summary_parts parts su = Some su' \<Longrightarrow> counts_ok su \<Longrightarrow> counts_ok su'"
proof (induction parts arbitrary: su)
  case (Cons part parts)
  then obtain su1 where 1: "summary_part part su = Some su1" "summary_parts parts su1 = Some su'"
    by (auto split: option.splits)
  with Cons.prems(2) have "counts_ok su1"
    by (auto simp: summary_part_def counts_ok_def digits_value_int_nonneg split: if_splits option.splits)
  with Cons.IH 1(2) show ?case by blast
qed simp

lemma parse_lines_nonneg: "parse_lines ls su = Some (p, f) \<Longrightarrow> counts_ok su \<Longrightarrow> 0 \<le> p \<and> 0 \<le> f"
proof (induction ls arbitrary: su)
  case (Cons l ls)
  then show ?case
    by (auto simp: counts_ok_def dest!: summary_parts_ok split: if_splits option.splits)
qed simp

lemma suite_total_nonneg: "suite_total c = Some (p, f) \<Longrightarrow> 0 \<le> p \<and> 0 \<le> f"
  using parse_lines_nonneg
  by (fastforce simp: suite_total_def parse_total_def Let_def counts_ok_def split: option.splits prod.splits if_splits)

lemma suite_totals_all:
  "suite_totals run extra names = Some ts \<longleftrightarrow> list_all2 (\<lambda>name t. suite_total (run name extra) = Some t) names ts"
  by (induction names arbitrary: ts) (auto simp: list_all2_Cons1 split: option.splits)

theorem exit_status_zero:
  "run_tests run arguments = Some 0 \<longleftrightarrow>
     (let (selected, extra) = split_arguments arguments; names = selected_projects selected
      in names \<noteq> [] \<and> (\<forall>name \<in> set names. \<exists>p. suite_total (run name extra) = Some (p, 0)))"
proof -
  obtain selected extra where args: "split_arguments arguments = (selected, extra)" by fastforce
  let ?names = "selected_projects selected"
  have "(\<exists>ts. suite_totals run extra names = Some ts \<and> sum_list (map snd ts) = 0) \<longleftrightarrow>
      (\<forall>name \<in> set names. \<exists>p. suite_total (run name extra) = Some (p, 0))" for names
  proof (induction names)
    case (Cons name names)
    have nonneg: "0 \<le> sum_list (map snd ts)" if "suite_totals run extra names = Some ts" for ts
      using that suite_total_nonneg
      by (induction names arbitrary: ts) (fastforce split: option.splits)+
    show ?case
    proof (cases "suite_total (run name extra)")
      case (Some t)
      with suite_total_nonneg [of _ "fst t" "snd t"] nonneg Cons show ?thesis
        by (cases t) (fastforce simp: add_nonneg_eq_0_iff)
    qed simp
  qed simp
  from this [of ?names] show ?thesis
    unfolding run_tests_def args Let_def prod.case by auto
qed

text \<open>No pytest, no summary line, return code 1: the suite is reported as ok, the exit status is 0.\<close>

lemma broken_suite_passes:
  "run_tests (\<lambda>name extra. \<lparr>co_stdout = [], co_stderr = str ''No module named pytest'', co_returncode = 1\<rparr>) [] = Some 0"
  by code_simp

end
