(* ===== verification/Sqlite.thy ===== *)
theory Sqlite
  imports Prelude "HOL-Library.Sublist"
begin

text \<open>
  One SQLite file shared by several worker processes, the way \<open>llm_router/store.py\<close> and
  \<open>customer_mcp/idempotency.py\<close> use it: each process has one connection behind a lock
  (\<open>asyncio.Lock\<close>, first come first served), every database call runs on a thread started under
  that lock, and every write is a transaction opened by \<open>BEGIN IMMEDIATE\<close>. What SQLite promises
  in WAL mode is written into the moves: a connection that has begun holds the only write lock,
  sees its own changes on top of what was committed when it began, and nobody else sees them
  before \<open>COMMIT\<close>; a second \<open>BEGIN IMMEDIATE\<close> waits, or gives up after \<open>busy_timeout\<close>; a
  process that dies leaves nothing of an open transaction.

  A move is one step of one process; an execution is a list of moves, in any order the guards
  allow. The theorem of this theory is that every execution is a serial one: the calls took
  effect one at a time, in the order in which they ended. What it is about is abstract here (the
  calls \<open>'j\<close>, what they do, the memory \<open>'l\<close> of a process); \<open>Rt_Workers\<close> and \<open>Srv_Workers\<close>
  say what the limiter and the refund ledger run on it.
\<close>

section \<open>Processes, threads, transactions\<close>

text \<open>
  The code of the calls: what the work of a transaction does to the memory of the process and to
  the table it sees (\<open>Inl\<close>: it raised), which calls only read, and the memory of a process that
  has just started.
\<close>

record ('j, 'l, 's, 'e, 'a) db_code =
  dc_work :: "'j \<Rightarrow> 'l \<Rightarrow> 's \<Rightarrow> ('e + 'a \<times> 's) \<times> 'l"
  dc_reads :: "'j \<Rightarrow> bool"
  dc_fresh :: 'l

text \<open>A thread, and whether the task that started it still waits for it.\<close>

record 'j db_thread =
  th_job :: 'j
  th_awaited :: bool

datatype ('e, 'a) tx_phase =
    Begun         \<comment> \<open>\<open>BEGIN IMMEDIATE\<close> has returned\<close>
  | Raised 'e     \<comment> \<open>the work raised; \<open>ROLLBACK\<close> is next\<close>
  | Returned 'a   \<comment> \<open>the work returned; \<open>COMMIT\<close> is next\<close>

record ('j, 's, 'e, 'a) db_tx =
  tx_thread :: "'j db_thread"
  tx_phase :: "('e, 'a) tx_phase"
  tx_view :: 's

record ('j, 'l, 's, 'e, 'a) db_worker =
  wk_queue :: "'j list"  \<comment> \<open>the tasks waiting for the lock\<close>
  wk_locked :: bool
  wk_entered :: "'j db_thread list"  \<comment> \<open>threads before their first statement\<close>
  wk_tx :: "('j, 's, 'e, 'a) db_tx option"  \<comment> \<open>the transaction open on the connection\<close>
  wk_local :: 'l

datatype 'e db_error =
    Busy      \<comment> \<open>\<open>database is locked\<close>\<close>
  | Nested    \<comment> \<open>\<open>cannot start a transaction within a transaction\<close>\<close>
  | Failed 'e

type_synonym ('j, 'e, 'a) db_log = "(nat \<times> 'j \<times> ('e db_error + 'a)) list"

record ('j, 'l, 's, 'e, 'a) db_state =
  db_table :: 's  \<comment> \<open>what is committed\<close>
  db_workers :: "('j, 'l, 's, 'e, 'a) db_worker list"
  db_log :: "('j, 'e, 'a) db_log"  \<comment> \<open>the calls that ended, in order, with their outcome\<close>

definition new_worker :: "('j, 'l, 's, 'e, 'a) db_code \<Rightarrow> ('j, 'l, 's, 'e, 'a) db_worker" where
  "new_worker c = \<lparr>wk_queue = [], wk_locked = False, wk_entered = [], wk_tx = None, wk_local = dc_fresh c\<rparr>"

definition db_start :: "('j, 'l, 's, 'e, 'a) db_code \<Rightarrow> nat \<Rightarrow> 's \<Rightarrow> ('j, 'l, 's, 'e, 'a) db_state" where
  "db_start c n s = \<lparr>db_table = s, db_workers = replicate n (new_worker c), db_log = []\<rparr>"

section \<open>Moves\<close>

datatype 'j db_move =
    Arrive nat 'j    \<comment> \<open>a task asks for the lock\<close>
  | Leave nat nat    \<comment> \<open>a waiting task is cancelled\<close>
  | Acquire nat      \<comment> \<open>the first waiting task takes the lock and starts its thread\<close>
  | Enter nat nat    \<comment> \<open>a thread's first statement: \<open>BEGIN IMMEDIATE\<close>, or the query of a read\<close>
  | Timeout nat nat  \<comment> \<open>\<open>BEGIN IMMEDIATE\<close> gives up waiting\<close>
  | Work nat         \<comment> \<open>the statements between \<open>BEGIN\<close> and its end\<close>
  | Finish nat       \<comment> \<open>\<open>COMMIT\<close> or \<open>ROLLBACK\<close>, and the thread ends\<close>
  | CancelEntered nat nat  \<comment> \<open>the task of a running thread is cancelled\<close>
  | CancelTx nat
  | Forget nat nat   \<comment> \<open>a thread the pool had not started yet is cancelled with its task\<close>
  | Crash nat        \<comment> \<open>the process dies and is started again\<close>

definition drop_nth :: "nat \<Rightarrow> 'x list \<Rightarrow> 'x list" where
  "drop_nth k xs = take k xs @ drop (Suc k) xs"

definition put_worker ::
    "nat \<Rightarrow> ('j, 'l, 's, 'e, 'a) db_worker \<Rightarrow> ('j, 'l, 's, 'e, 'a) db_state \<Rightarrow> ('j, 'l, 's, 'e, 'a) db_state" where
  "put_worker i w st = st\<lparr>db_workers := (db_workers st)[i := w]\<rparr>"

definition db_busy :: "('j, 'l, 's, 'e, 'a) db_state \<Rightarrow> bool" where
  "db_busy st \<longleftrightarrow> list_ex (\<lambda>w. wk_tx w \<noteq> None) (db_workers st)"

text \<open>The thread ends: the task that waits for it releases the lock and gets the outcome.\<close>

definition end_thread :: "'j db_thread \<Rightarrow> ('j, 'l, 's, 'e, 'a) db_worker \<Rightarrow> ('j, 'l, 's, 'e, 'a) db_worker" where
  "end_thread t w = (if th_awaited t then w\<lparr>wk_locked := False\<rparr> else w)"

definition log_end :: "nat \<Rightarrow> 'j \<Rightarrow> 'e db_error + 'a \<Rightarrow> ('j, 'l, 's, 'e, 'a) db_state \<Rightarrow> ('j, 'l, 's, 'e, 'a) db_state" where
  "log_end i j r st = st\<lparr>db_log := db_log st @ [(i, j, r)]\<rparr>"

definition read_outcome :: "('j, 'l, 's, 'e, 'a) db_code \<Rightarrow> 'j \<Rightarrow> 'l \<Rightarrow> 's \<Rightarrow> 'e db_error + 'a" where
  "read_outcome c j l s = (case fst (dc_work c j l s) of Inl e \<Rightarrow> Inl (Failed e) | Inr (x, _) \<Rightarrow> Inr x)"

definition acquire :: "('j, 'l, 's, 'e, 'a) db_worker \<Rightarrow> ('j, 'l, 's, 'e, 'a) db_worker option" where
  "acquire w = (case wk_queue w of
      [] \<Rightarrow> None
    | j # q \<Rightarrow>
        if wk_locked w then None
        else Some (w\<lparr>wk_queue := q, wk_locked := True,
          wk_entered := wk_entered w @ [\<lparr>th_job = j, th_awaited = True\<rparr>]\<rparr>))"

text \<open>The outcome of a first statement that ends the thread, \<open>None\<close> where it opens a transaction.\<close>

definition enter ::
    "('j, 'l, 's, 'e, 'a) db_code \<Rightarrow> nat \<Rightarrow> 'j db_thread \<Rightarrow> ('j, 'l, 's, 'e, 'a) db_worker \<Rightarrow>
     ('j, 'l, 's, 'e, 'a) db_state \<Rightarrow> ('j, 'l, 's, 'e, 'a) db_state option" where
  "enter c i t w st =
     (let j = th_job t
      in if dc_reads c j then
           Some (log_end i j
             (read_outcome c j (wk_local w) (case wk_tx w of None \<Rightarrow> db_table st | Some x \<Rightarrow> tx_view x))
             (put_worker i (end_thread t w) st))
         else if wk_tx w \<noteq> None then Some (log_end i j (Inl Nested) (put_worker i (end_thread t w) st))
         else if db_busy st then None
         else Some (put_worker i
           (w\<lparr>wk_tx := Some \<lparr>tx_thread = t, tx_phase = Begun, tx_view = db_table st\<rparr>\<rparr>) st))"

definition run_work ::
    "('j, 'l, 's, 'e, 'a) db_code \<Rightarrow> ('j, 's, 'e, 'a) db_tx \<Rightarrow> ('j, 'l, 's, 'e, 'a) db_worker \<Rightarrow>
     ('j, 'l, 's, 'e, 'a) db_worker" where
  "run_work c x w =
     (case dc_work c (th_job (tx_thread x)) (wk_local w) (tx_view x) of
        (Inl e, l) \<Rightarrow> w\<lparr>wk_tx := Some (x\<lparr>tx_phase := Raised e\<rparr>), wk_local := l\<rparr>
      | (Inr (a, s), l) \<Rightarrow> w\<lparr>wk_tx := Some (x\<lparr>tx_phase := Returned a, tx_view := s\<rparr>), wk_local := l\<rparr>)"

definition finish_tx ::
    "nat \<Rightarrow> ('j, 's, 'e, 'a) db_tx \<Rightarrow> ('j, 'l, 's, 'e, 'a) db_worker \<Rightarrow> ('j, 'l, 's, 'e, 'a) db_state \<Rightarrow>
     ('j, 'l, 's, 'e, 'a) db_state option" where
  "finish_tx i x w st =
     (let t = tx_thread x; w' = end_thread t (w\<lparr>wk_tx := None\<rparr>)
      in case tx_phase x of
           Begun \<Rightarrow> None
         | Raised e \<Rightarrow> Some (log_end i (th_job t) (Inl (Failed e)) (put_worker i w' st))
         | Returned a \<Rightarrow> Some (log_end i (th_job t) (Inr a) (put_worker i w' (st\<lparr>db_table := tx_view x\<rparr>))))"

fun move_of :: "'j db_move \<Rightarrow> nat" where
  "move_of (Arrive i j) = i"
| "move_of (Leave i n) = i"
| "move_of (Acquire i) = i"
| "move_of (Enter i k) = i"
| "move_of (Timeout i k) = i"
| "move_of (Work i) = i"
| "move_of (Finish i) = i"
| "move_of (CancelEntered i k) = i"
| "move_of (CancelTx i) = i"
| "move_of (Forget i k) = i"
| "move_of (Crash i) = i"

text \<open>What a move does, \<open>w\<close> the process it is of; \<open>None\<close> where it cannot happen.\<close>

fun worker_move ::
    "('j, 'l, 's, 'e, 'a) db_code \<Rightarrow> 'j db_move \<Rightarrow> ('j, 'l, 's, 'e, 'a) db_worker \<Rightarrow>
     ('j, 'l, 's, 'e, 'a) db_state \<Rightarrow> ('j, 'l, 's, 'e, 'a) db_state option" where
  "worker_move c (Arrive i j) w st = Some (put_worker i (w\<lparr>wk_queue := wk_queue w @ [j]\<rparr>) st)"
| "worker_move c (Leave i n) w st =
     (if n < length (wk_queue w) then Some (put_worker i (w\<lparr>wk_queue := drop_nth n (wk_queue w)\<rparr>) st) else None)"
| "worker_move c (Acquire i) w st = map_option (\<lambda>w'. put_worker i w' st) (acquire w)"
| "worker_move c (Enter i k) w st =
     (if k < length (wk_entered w)
      then enter c i (wk_entered w ! k) (w\<lparr>wk_entered := drop_nth k (wk_entered w)\<rparr>) st else None)"
| "worker_move c (Timeout i k) w st =
     (if k < length (wk_entered w) \<and> \<not> dc_reads c (th_job (wk_entered w ! k)) \<and> wk_tx w = None \<and> db_busy st
      then Some (log_end i (th_job (wk_entered w ! k)) (Inl Busy)
        (put_worker i (end_thread (wk_entered w ! k) (w\<lparr>wk_entered := drop_nth k (wk_entered w)\<rparr>)) st))
      else None)"
| "worker_move c (Work i) w st =
     (case wk_tx w of
        Some x \<Rightarrow> (case tx_phase x of Begun \<Rightarrow> Some (put_worker i (run_work c x w) st) | _ \<Rightarrow> None)
      | None \<Rightarrow> None)"
| "worker_move c (Finish i) w st = (case wk_tx w of Some x \<Rightarrow> finish_tx i x w st | None \<Rightarrow> None)"
| "worker_move c (CancelEntered i k) w st =
     (if k < length (wk_entered w) \<and> th_awaited (wk_entered w ! k)
      then Some (put_worker i (w\<lparr>wk_locked := False,
        wk_entered := (wk_entered w)[k := (wk_entered w ! k)\<lparr>th_awaited := False\<rparr>]\<rparr>) st)
      else None)"
| "worker_move c (CancelTx i) w st =
     (case wk_tx w of
        Some x \<Rightarrow>
          if th_awaited (tx_thread x)
          then Some (put_worker i (w\<lparr>wk_locked := False,
            wk_tx := Some (x\<lparr>tx_thread := (tx_thread x)\<lparr>th_awaited := False\<rparr>\<rparr>)\<rparr>) st)
          else None
      | None \<Rightarrow> None)"
| "worker_move c (Forget i k) w st =
     (if k < length (wk_entered w) \<and> \<not> th_awaited (wk_entered w ! k)
      then Some (put_worker i (w\<lparr>wk_entered := drop_nth k (wk_entered w)\<rparr>) st) else None)"
| "worker_move c (Crash i) w st = Some (put_worker i (new_worker c) st)"

definition db_step ::
    "('j, 'l, 's, 'e, 'a) db_code \<Rightarrow> ('j, 'l, 's, 'e, 'a) db_state \<Rightarrow> 'j db_move \<Rightarrow>
     ('j, 'l, 's, 'e, 'a) db_state option" where
  "db_step c st m =
     (if move_of m < length (db_workers st) then worker_move c m (db_workers st ! move_of m) st else None)"

fun db_run ::
    "('j, 'l, 's, 'e, 'a) db_code \<Rightarrow> ('j, 'l, 's, 'e, 'a) db_state \<Rightarrow> 'j db_move list \<Rightarrow>
     ('j, 'l, 's, 'e, 'a) db_state option" where
  "db_run c st [] = Some st"
| "db_run c st (m # ms) = (case db_step c st m of None \<Rightarrow> None | Some st' \<Rightarrow> db_run c st' ms)"

text \<open>The moves that cancel the task of a running thread.\<close>

fun cancels :: "'j db_move \<Rightarrow> bool" where
  "cancels (CancelEntered i k) = True"
| "cancels (CancelTx i) = True"
| "cancels m = False"

section \<open>The specification: one call at a time\<close>

text \<open>
  A serial state is the table, the memories of the processes and the log. A call is its whole
  transaction at once. A read may answer anything only in an execution in which tasks are
  cancelled (\<open>d\<close>): its thread may then look into a transaction another thread has left open.
\<close>

record ('j, 'l, 's, 'e, 'a) serial_state =
  ss_table :: 's
  ss_locals :: "'l list"
  ss_log :: "('j, 'e, 'a) db_log"

definition serial_call ::
    "('j, 'l, 's, 'e, 'a) db_code \<Rightarrow> 'j \<Rightarrow> 'l \<Rightarrow> 's \<Rightarrow> ('e db_error + 'a) \<times> 'l \<times> 's" where
  "serial_call c j l s =
     (case dc_work c j l s of
        (Inl e, l') \<Rightarrow> (Inl (Failed e), l', s)
      | (Inr (x, s'), l') \<Rightarrow> (Inr x, l', s'))"

inductive serial_step ::
    "('j, 'l, 's, 'e, 'a) db_code \<Rightarrow> bool \<Rightarrow> ('j, 'l, 's, 'e, 'a) serial_state \<Rightarrow>
     ('j, 'l, 's, 'e, 'a) serial_state \<Rightarrow> bool" for c d where
  call: "i < length (ss_locals a) \<Longrightarrow> serial_call c j (ss_locals a ! i) (ss_table a) = (r, l, s) \<Longrightarrow>
     serial_step c d a \<lparr>ss_table = s, ss_locals = (ss_locals a)[i := l], ss_log = ss_log a @ [(i, j, r)]\<rparr>"
| dirty_read: "d \<Longrightarrow> dc_reads c j \<Longrightarrow> serial_step c d a (a\<lparr>ss_log := ss_log a @ [(i, j, r)]\<rparr>)"
| busy: "\<not> dc_reads c j \<Longrightarrow> serial_step c d a (a\<lparr>ss_log := ss_log a @ [(i, j, Inl Busy)]\<rparr>)"
| nested: "d \<Longrightarrow> \<not> dc_reads c j \<Longrightarrow> serial_step c d a (a\<lparr>ss_log := ss_log a @ [(i, j, Inl Nested)]\<rparr>)"
| restart: "serial_step c d a (a\<lparr>ss_locals := (ss_locals a)[i := dc_fresh c]\<rparr>)"

definition serial_start :: "('j, 'l, 's, 'e, 'a) db_code \<Rightarrow> nat \<Rightarrow> 's \<Rightarrow> ('j, 'l, 's, 'e, 'a) serial_state" where
  "serial_start c n s = \<lparr>ss_table = s, ss_locals = replicate n (dc_fresh c), ss_log = []\<rparr>"

section \<open>The simulation\<close>

text \<open>A process whose serial memory is \<open>l\<close>, over the committed table \<open>s\<close>.\<close>

definition tx_ok ::
    "('j, 'l, 's, 'e, 'a) db_code \<Rightarrow> 's \<Rightarrow> 'l \<Rightarrow> ('j, 's, 'e, 'a) db_tx \<Rightarrow> 'l \<Rightarrow> bool" where
  "tx_ok c s l x now \<longleftrightarrow> \<not> dc_reads c (th_job (tx_thread x)) \<and>
     (case tx_phase x of
        Begun \<Rightarrow> tx_view x = s \<and> now = l
      | Raised e \<Rightarrow> dc_work c (th_job (tx_thread x)) l s = (Inl e, now)
      | Returned a \<Rightarrow> dc_work c (th_job (tx_thread x)) l s = (Inr (a, tx_view x), now))"

definition worker_ok :: "('j, 'l, 's, 'e, 'a) db_code \<Rightarrow> 's \<Rightarrow> 'l \<Rightarrow> ('j, 'l, 's, 'e, 'a) db_worker \<Rightarrow> bool" where
  "worker_ok c s l w \<longleftrightarrow> (case wk_tx w of None \<Rightarrow> wk_local w = l | Some x \<Rightarrow> tx_ok c s l x (wk_local w))"

definition one_writer :: "('j, 'l, 's, 'e, 'a) db_worker list \<Rightarrow> bool" where
  "one_writer ws \<longleftrightarrow>
     (\<forall>i < length ws. \<forall>k < length ws. wk_tx (ws ! i) \<noteq> None \<longrightarrow> wk_tx (ws ! k) \<noteq> None \<longrightarrow> i = k)"

definition simulates ::
    "('j, 'l, 's, 'e, 'a) db_code \<Rightarrow> ('j, 'l, 's, 'e, 'a) db_state \<Rightarrow> ('j, 'l, 's, 'e, 'a) serial_state \<Rightarrow> bool" where
  "simulates c st a \<longleftrightarrow> ss_table a = db_table st \<and> ss_log a = db_log st \<and> one_writer (db_workers st) \<and>
     list_all2 (worker_ok c (db_table st)) (ss_locals a) (db_workers st)"

text \<open>A process none of whose tasks was cancelled runs one thread, under its lock.\<close>

definition calm_worker :: "('j, 'l, 's, 'e, 'a) db_worker \<Rightarrow> bool" where
  "calm_worker w \<longleftrightarrow>
     (case wk_entered w of
        [] \<Rightarrow> (case wk_tx w of None \<Rightarrow> \<not> wk_locked w | Some x \<Rightarrow> wk_locked w \<and> th_awaited (tx_thread x))
      | t # ts \<Rightarrow> ts = [] \<and> wk_tx w = None \<and> wk_locked w \<and> th_awaited t)"

definition calm :: "('j, 'l, 's, 'e, 'a) db_state \<Rightarrow> bool" where
  "calm st \<longleftrightarrow> (\<forall>w \<in> set (db_workers st). calm_worker w)"

lemma drop_nth_single [simp]: "k < length xs \<Longrightarrow> length xs = 1 \<Longrightarrow> drop_nth k xs = []"
  by (simp add: drop_nth_def)

lemma end_thread_simps [simp]:
  "wk_tx (end_thread t w) = wk_tx w" "wk_local (end_thread t w) = wk_local w"
  "wk_entered (end_thread t w) = wk_entered w" "wk_queue (end_thread t w) = wk_queue w"
  "wk_locked (end_thread t w) \<longleftrightarrow> wk_locked w \<and> \<not> th_awaited t"
  by (simp_all add: end_thread_def)

lemma put_worker_simps [simp]:
  "db_table (put_worker i w st) = db_table st" "db_log (put_worker i w st) = db_log st"
  "db_workers (put_worker i w st) = (db_workers st)[i := w]"
  by (simp_all add: put_worker_def)

lemma log_end_simps [simp]:
  "db_table (log_end i j r st) = db_table st" "db_log (log_end i j r st) = db_log st @ [(i, j, r)]"
  "db_workers (log_end i j r st) = db_workers st"
  by (simp_all add: log_end_def)

lemma worker_ok_idle [simp]: "wk_tx w = None \<Longrightarrow> worker_ok c s l w \<longleftrightarrow> wk_local w = l"
  by (simp add: worker_ok_def)

lemma worker_ok_open: "wk_tx w = Some x \<Longrightarrow> worker_ok c s l w \<longleftrightarrow> tx_ok c s l x (wk_local w)"
  by (simp add: worker_ok_def)

lemma nth_upd: "k < length xs \<Longrightarrow> xs[i := x] ! k = (if k = i then x else xs ! k)"
  by (auto simp: nth_list_update)

lemma one_writerD:
  "one_writer ws \<Longrightarrow> i < length ws \<Longrightarrow> k < length ws \<Longrightarrow> wk_tx (ws ! i) \<noteq> None \<Longrightarrow> k \<noteq> i \<Longrightarrow> wk_tx (ws ! k) = None"
  unfolding one_writer_def by blast

lemma one_writer_close: "one_writer ws \<Longrightarrow> wk_tx w = None \<Longrightarrow> one_writer (ws[i := w])"
  unfolding one_writer_def by (simp add: nth_upd)

lemma one_writer_keep:
  assumes "one_writer ws" "i < length ws" "wk_tx (ws ! i) \<noteq> None"
  shows "one_writer (ws[i := w])"
  using one_writerD [OF assms(1,2) _ assms(3)] unfolding one_writer_def by (simp add: nth_upd)

lemma one_writer_open: "\<not> db_busy st \<Longrightarrow> one_writer ((db_workers st)[i := w])"
  by (simp add: one_writer_def db_busy_def list_ex_iff nth_upd)

lemma one_writer_same: "one_writer ws \<Longrightarrow> wk_tx w = None \<longleftrightarrow> wk_tx (ws ! i) = None \<Longrightarrow> one_writer (ws[i := w])"
  by (cases "i < length ws"; cases "wk_tx w") (auto intro: one_writer_close one_writer_keep simp: list_update_beyond)

text \<open>The table changes under the only writer; no other process has looked at it yet.\<close>

lemma commit_ok:
  assumes "list_all2 (worker_ok c s) ls ws" "one_writer ws" "i < length ws" "wk_tx (ws ! i) \<noteq> None"
    and "wk_tx w = None" "wk_local w = l"
  shows "list_all2 (worker_ok c s') (ls[i := l]) (ws[i := w])"
proof (rule list_all2_all_nthI)
  show "length (ls[i := l]) = length (ws[i := w])" using list_all2_lengthD [OF assms(1)] by simp
next
  fix k assume k: "k < length (ls[i := l])"
  then have kw: "k < length ws" using list_all2_lengthD [OF assms(1)] by simp
  show "worker_ok c s' (ls[i := l] ! k) (ws[i := w] ! k)"
  proof (cases "k = i")
    case True
    with k kw assms(5,6) show ?thesis by (simp add: nth_upd)
  next
    case False
    with one_writerD [OF assms(2,3) kw assms(4)] list_all2_nthD2 [OF assms(1) kw] k kw
    show ?thesis by (simp add: nth_upd)
  qed
qed

lemma sim_put:
  assumes "simulates c st a" "i < length (db_workers st)"
    and "worker_ok c (db_table st) l w" "wk_tx w = None \<longleftrightarrow> wk_tx (db_workers st ! i) = None"
  shows "simulates c (put_worker i w st) (a\<lparr>ss_locals := (ss_locals a)[i := l]\<rparr>)"
  using assms by (simp add: simulates_def one_writer_same list_all2_update_cong)

lemma sim_quiet:
  assumes "simulates c st a" "i < length (db_workers st)"
    and "worker_ok c (db_table st) (ss_locals a ! i) w" "wk_tx w = None \<longleftrightarrow> wk_tx (db_workers st ! i) = None"
  shows "simulates c (put_worker i w st) a"
  using sim_put [OF assms] by simp

lemma sim_log: "simulates c st a \<Longrightarrow> simulates c (log_end i j r st) (a\<lparr>ss_log := ss_log a @ [(i, j, r)]\<rparr>)"
  by (simp add: simulates_def)

lemma sim_worker: "simulates c st a \<Longrightarrow> i < length (db_workers st) \<Longrightarrow> worker_ok c (db_table st) (ss_locals a ! i) (db_workers st ! i)"
  by (simp add: simulates_def list_all2_nthD2)

lemma sim_length: "simulates c st a \<Longrightarrow> length (ss_locals a) = length (db_workers st)"
  by (auto simp: simulates_def dest: list_all2_lengthD)

text \<open>The worker changed in what its transaction and its memory do not show.\<close>

lemma worker_ok_cong: "wk_tx w' = wk_tx w \<Longrightarrow> wk_local w' = wk_local w \<Longrightarrow> worker_ok c s l w' \<longleftrightarrow> worker_ok c s l w"
  by (simp add: worker_ok_def split: option.split)

lemma calm_enter:
  assumes "calm_worker w" "k < length (wk_entered w)"
  shows "wk_tx w = None" "wk_entered w = [wk_entered w ! k]" "th_awaited (wk_entered w ! k)"
  using assms by (auto simp: calm_worker_def split: list.splits)

lemma serial_unchanged:
  assumes "i < length (ss_locals a)" "serial_call c j (ss_locals a ! i) (ss_table a) = (r, ss_locals a ! i, ss_table a)"
  shows "serial_step c d a (a\<lparr>ss_log := ss_log a @ [(i, j, r)]\<rparr>)"
  using serial_step.call [OF assms, of d] by (cases a) simp

locale sqlite_code =
  fixes c :: "('j, 'l, 's, 'e, 'a) db_code"
  assumes reads_pure: "dc_reads c j \<Longrightarrow> \<exists>r. dc_work c j l s = (map_sum id (\<lambda>x. (x, s)) r, l)"
begin

lemma read_serial: "dc_reads c j \<Longrightarrow> serial_call c j l s = (read_outcome c j l s, l, s)"
proof -
  assume "dc_reads c j"
  with reads_pure [of j l s] obtain r where "dc_work c j l s = (map_sum id (\<lambda>x. (x, s)) r, l)" by blast
  then show ?thesis by (cases r) (simp_all add: serial_call_def read_outcome_def)
qed

definition follows :: "bool \<Rightarrow> ('j, 'l, 's, 'e, 'a) db_state \<Rightarrow> ('j, 'l, 's, 'e, 'a) serial_state \<Rightarrow> bool" where
  "follows d st a \<longleftrightarrow> (\<exists>a'. (a' = a \<or> serial_step c d a a') \<and> simulates c st a')"

lemma follows_stay: "simulates c st a \<Longrightarrow> follows d st a"
  unfolding follows_def by blast

lemma follows_step: "serial_step c d a a' \<Longrightarrow> simulates c st a' \<Longrightarrow> follows d st a"
  unfolding follows_def by blast

lemma enter_follows:
  assumes sim: "simulates c st a" and i: "i < length (db_workers st)"
    and w: "wk_tx w = wk_tx (db_workers st ! i)" "wk_local w = wk_local (db_workers st ! i)"
    and e: "enter c i t w st = Some st'" and d: "d \<or> wk_tx w = None"
  shows "follows d st' a"
proof -
  let ?j = "th_job t"
  have wok: "worker_ok c (db_table st) (ss_locals a ! i) (end_thread t w)"
    using sim_worker [OF sim i] w worker_ok_cong [of "end_thread t w" "db_workers st ! i"] by simp
  have quiet: "simulates c (put_worker i (end_thread t w) st) a"
    by (rule sim_quiet [OF sim i wok]) (simp add: w)
  show ?thesis
  proof (cases "dc_reads c ?j")
    case reads: True
    let ?r = "read_outcome c ?j (wk_local w) (case wk_tx w of None \<Rightarrow> db_table st | Some x \<Rightarrow> tx_view x)"
    have st': "st' = log_end i ?j ?r (put_worker i (end_thread t w) st)"
      using e reads by (simp add: enter_def Let_def)
    show ?thesis
    proof (cases "wk_tx w")
      case None
      then have l: "wk_local w = ss_locals a ! i" using wok by simp
      have "serial_call c ?j (ss_locals a ! i) (ss_table a) = (?r, ss_locals a ! i, ss_table a)"
        using read_serial [OF reads] None l sim by (simp add: simulates_def)
      with i sim_length [OF sim] have "serial_step c d a (a\<lparr>ss_log := ss_log a @ [(i, ?j, ?r)]\<rparr>)"
        by (intro serial_unchanged) simp_all
      then show ?thesis
        using sim_log [OF quiet, of i ?j ?r] by (auto intro: follows_step simp: st')
    next
      case (Some x)
      with d have d by simp
      from serial_step.dirty_read [OF this reads] show ?thesis
        unfolding st' by (rule follows_step [OF _ sim_log [OF quiet]])
    qed
  next
    case writes: False
    show ?thesis
    proof (cases "wk_tx w")
      case (Some x)
      with d have d by simp
      moreover have "st' = log_end i ?j (Inl Nested) (put_worker i (end_thread t w) st)"
        using e writes Some by (simp add: enter_def Let_def)
      ultimately show ?thesis
        using follows_step [OF serial_step.nested [OF _ writes] sim_log [OF quiet]] by simp
    next
      case None
      let ?w = "w\<lparr>wk_tx := Some \<lparr>tx_thread = t, tx_phase = Begun, tx_view = db_table st\<rparr>\<rparr>"
      have st': "st' = put_worker i ?w st" "\<not> db_busy st"
        using e writes None by (simp_all add: enter_def Let_def split: if_splits)
      have "worker_ok c (db_table st) (ss_locals a ! i) ?w"
        using wok None writes by (simp add: worker_ok_def tx_ok_def)
      then have "simulates c st' a"
        using sim one_writer_open [OF st'(2), of i ?w] list_all2_update_cong [of _ "ss_locals a" _ "ss_locals a ! i" ?w i]
        by (simp add: simulates_def st'(1))
      then show ?thesis by (rule follows_stay)
    qed
  qed
qed

lemma finish_follows:
  assumes sim: "simulates c st a" and i: "i < length (db_workers st)"
    and x: "wk_tx (db_workers st ! i) = Some x" and e: "finish_tx i x (db_workers st ! i) st = Some st'"
  shows "follows d st' a"
proof -
  let ?w = "db_workers st ! i" and ?j = "th_job (tx_thread x)"
  let ?w' = "end_thread (tx_thread x) (?w\<lparr>wk_tx := None\<rparr>)"
  have tx: "tx_ok c (db_table st) (ss_locals a ! i) x (wk_local ?w)"
    using sim_worker [OF sim i] x by (simp add: worker_ok_def)
  have len: "i < length (ss_locals a)" using i sim_length [OF sim] by simp
  have ow: "one_writer (db_workers st)" using sim by (simp add: simulates_def)
  obtain r where st': "db_log st' = db_log st @ [(i, ?j, r)]" "db_workers st' = (db_workers st)[i := ?w']"
      and call: "serial_call c ?j (ss_locals a ! i) (db_table st) = (r, wk_local ?w, db_table st')"
    using e tx by (auto simp: finish_tx_def tx_ok_def serial_call_def Let_def split: tx_phase.splits)
  have "list_all2 (worker_ok c (db_table st')) ((ss_locals a)[i := wk_local ?w]) (db_workers st')"
    unfolding st' using sim x by (intro commit_ok [OF _ ow i, of _ "db_table st"]) (simp_all add: simulates_def)
  then have "simulates c st' \<lparr>ss_table = db_table st', ss_locals = (ss_locals a)[i := wk_local ?w], ss_log = ss_log a @ [(i, ?j, r)]\<rparr>"
    using sim by (simp add: simulates_def st' one_writer_close [OF ow])
  moreover have "serial_call c ?j (ss_locals a ! i) (ss_table a) = (r, wk_local ?w, db_table st')"
    using call sim by (simp add: simulates_def)
  ultimately show ?thesis by (intro follows_step [OF serial_step.call [OF len]])
qed

lemma work_ok:
  assumes "tx_ok c s l x (wk_local w)" "tx_phase x = Begun"
  shows "worker_ok c s l (run_work c x w) \<and> wk_tx (run_work c x w) \<noteq> None"
  using assms by (auto simp: worker_ok_def run_work_def tx_ok_def split: sum.split prod.split)

lemma move_follows:
  assumes sim: "simulates c st a" and step: "db_step c st m = Some st'"
    and d: "d \<or> calm st"
  shows "follows d st' a"
proof -
  let ?w = "db_workers st ! move_of m"
  have i: "move_of m < length (db_workers st)" and mv: "worker_move c m ?w st = Some st'"
    using step by (simp_all add: db_step_def split: if_splits)
  note quiet = sim_quiet [OF sim i, THEN follows_stay]
  have calm: "d \<or> calm_worker ?w" using d i by (auto simp: calm_def)
  note wok = sim_worker [OF sim i]
  have same: "follows d (put_worker k w' st) a" if "k = move_of m" "wk_tx w' = wk_tx ?w" "wk_local w' = wk_local ?w" for k w'
    using that wok worker_ok_cong [OF that(2,3)] by (simp add: quiet)
  show ?thesis
  proof (cases m)
    case (Enter k n)
    then have n: "n < length (wk_entered ?w)" and e: "enter c k (wk_entered ?w ! n) (?w\<lparr>wk_entered := drop_nth n (wk_entered ?w)\<rparr>) st = Some st'"
      using mv by (simp_all split: if_splits)
    show ?thesis
      by (rule enter_follows [OF sim _ _ _ e]) (use Enter i calm calm_enter(1) [OF _ n] in auto)
  next
    case (Finish k)
    then show ?thesis using mv i finish_follows [OF sim, of k] by (auto split: option.splits)
  next
    case (Timeout k n)
    let ?w' = "end_thread (wk_entered ?w ! n) (?w\<lparr>wk_entered := drop_nth n (wk_entered ?w)\<rparr>)"
    have "simulates c (put_worker k ?w' st) a"
      using Timeout wok i worker_ok_cong [of ?w' ?w] by (intro sim_quiet [OF sim]) simp_all
    from follows_step [OF serial_step.busy sim_log [OF this]] show ?thesis
      using Timeout mv by (auto split: if_splits)
  next
    case (Crash k)
    have "one_writer ((db_workers st)[k := new_worker c])"
      using sim by (intro one_writer_close) (simp_all add: simulates_def new_worker_def)
    moreover have "worker_ok c (db_table st) (dc_fresh c) (new_worker c)" by (simp add: new_worker_def)
    ultimately show ?thesis
      using Crash mv sim by (auto intro!: follows_step [OF serial_step.restart, of _ _ k] list_all2_update_cong simp: simulates_def)
  next
    case (Work k)
    then obtain x where x: "wk_tx ?w = Some x" "tx_phase x = Begun" "st' = put_worker k (run_work c x ?w) st"
      using mv by (auto split: option.splits tx_phase.splits)
    with wok have "tx_ok c (db_table st) (ss_locals a ! k) x (wk_local ?w)"
      using Work by (simp add: worker_ok_def)
    from work_ok [OF this x(2)] show ?thesis
      using Work x quiet [of "run_work c x ?w"] by simp
  next
    case (CancelTx k)
    then obtain x where x: "wk_tx ?w = Some x"
        "st' = put_worker k (?w\<lparr>wk_locked := False, wk_tx := Some (x\<lparr>tx_thread := (tx_thread x)\<lparr>th_awaited := False\<rparr>\<rparr>)\<rparr>) st"
      using mv by (auto split: option.splits if_splits)
    with wok have "tx_ok c (db_table st) (ss_locals a ! k) x (wk_local ?w)"
      using CancelTx by (simp add: worker_ok_def)
    then show ?thesis
      unfolding x(2) using CancelTx x(1) by (intro quiet [simplified CancelTx, simplified]) (auto simp: worker_ok_def tx_ok_def split: tx_phase.splits)
  next
    case (Acquire k)
    then show ?thesis
      using mv by (auto intro!: same simp: acquire_def split: list.splits if_splits)
  qed (use mv in \<open>auto intro!: same split: if_splits\<close>)
qed

end

section \<open>Executions\<close>

lemma db_run_append:
  "db_run c st (ms @ ns) = (case db_run c st ms of None \<Rightarrow> None | Some st' \<Rightarrow> db_run c st' ns)"
  by (induction ms arbitrary: st) (simp_all split: option.split)

lemma db_run_snoc:
  "db_run c st (ms @ [m]) = Some st'' \<longleftrightarrow> (\<exists>st'. db_run c st ms = Some st' \<and> db_step c st' m = Some st'')"
  by (simp add: db_run_append split: option.split)

text \<open>A property that every move keeps holds after every execution.\<close>

lemma db_run_invariant:
  assumes "db_run c st ms = Some st'" "P st"
    and "\<And>m s s'. m \<in> set ms \<Longrightarrow> db_step c s m = Some s' \<Longrightarrow> P s \<Longrightarrow> P s'"
  shows "P st'"
  using assms
proof (induction ms arbitrary: st)
  case (Cons m ms)
  from Cons.prems(1) obtain st1 where st1: "db_step c st m = Some st1" "db_run c st1 ms = Some st'"
    by (auto split: option.splits)
  show ?case
    by (rule Cons.IH [OF st1(2)]) (use Cons.prems st1(1) in \<open>auto 4 3\<close>)
qed simp

lemma db_stepE:
  assumes "db_step c st m = Some st'"
  obtains "move_of m < length (db_workers st)" "worker_move c m (db_workers st ! move_of m) st = Some st'"
  using assms by (simp add: db_step_def split: if_splits)

text \<open>A move changes its own process only.\<close>

lemma list_update_ex [simp]: "\<exists>w'. ws[i := w] = ws[i := w']"
  by blast

lemma enter_worker: "enter c i t w st = Some st' \<Longrightarrow> \<exists>w'. db_workers st' = (db_workers st)[i := w']"
  by (auto simp: enter_def Let_def split: if_splits)

lemma finish_worker: "finish_tx i x w st = Some st' \<Longrightarrow> \<exists>w'. db_workers st' = (db_workers st)[i := w']"
  by (auto simp: finish_tx_def Let_def split: tx_phase.splits)

lemma step_worker:
  assumes "db_step c st m = Some st'"
  shows "\<exists>w'. db_workers st' = (db_workers st)[move_of m := w']"
  using assms
  by (cases m) (auto elim!: db_stepE dest: enter_worker finish_worker split: if_splits option.splits tx_phase.splits)

text \<open>It logs one call at most, of its process.\<close>

lemma enter_log:
  "enter c i t w st = Some st' \<Longrightarrow> db_log st' = db_log st \<or> (\<exists>j r. db_log st' = db_log st @ [(i, j, r)])"
  by (auto simp: enter_def Let_def split: if_splits)

lemma step_log:
  assumes "db_step c st m = Some st'"
  shows "db_log st' = db_log st \<or> (\<exists>j r. db_log st' = db_log st @ [(move_of m, j, r)])"
  using assms
  by (cases m) (auto elim!: db_stepE dest!: enter_log simp: finish_tx_def Let_def split: if_splits option.splits tx_phase.splits)

text \<open>What a property of one process has to survive to hold of all of them.\<close>

lemma step_all_workers:
  assumes "db_step c st m = Some st'" "\<forall>w \<in> set (db_workers st). P w"
    and "move_of m < length (db_workers st) \<Longrightarrow> P (db_workers st ! move_of m) \<Longrightarrow> P (db_workers st' ! move_of m)"
  shows "\<forall>w \<in> set (db_workers st'). P w"
proof -
  obtain w' where w': "db_workers st' = (db_workers st)[move_of m := w']" using step_worker [OF assms(1)] by blast
  have i: "move_of m < length (db_workers st)" using assms(1) by (rule db_stepE)
  then have "P w'" using assms(2,3) w' by simp
  then show ?thesis using assms(2) set_update_subset_insert [of "db_workers st" "move_of m" w'] w' by auto
qed

lemma calm_step:
  assumes "db_step c st m = Some st'" "calm st" "\<not> cancels m"
  shows "calm st'"
  unfolding calm_def
proof (rule step_all_workers [OF assms(1) assms(2) [unfolded calm_def]])
  let ?w = "db_workers st ! move_of m"
  assume i: "move_of m < length (db_workers st)" and w: "calm_worker ?w"
  from assms(1) have mv: "worker_move c m ?w st = Some st'" by (rule db_stepE)
  show "calm_worker (db_workers st' ! move_of m)"
  proof (cases m)
    case (Enter k n)
    then have n: "n < length (wk_entered ?w)" using mv by (simp split: if_splits)
    then show ?thesis
      using Enter mv i calm_enter [OF w n] w
      by (cases "wk_entered ?w") (auto simp: enter_def Let_def calm_worker_def drop_nth_def split: if_splits)
  next
    case (Finish k)
    then show ?thesis
      using mv i w by (auto simp: finish_tx_def Let_def calm_worker_def split: option.splits tx_phase.splits list.splits)
  next
    case (Work k)
    then show ?thesis
      using mv i w by (auto simp: run_work_def calm_worker_def split: option.splits tx_phase.splits list.splits prod.splits sum.splits)
  next
    case (Timeout k n)
    then show ?thesis
      using mv i w by (cases "wk_entered ?w") (auto simp: calm_worker_def drop_nth_def split: if_splits)
  next
    case (Forget k n)
    then show ?thesis
      using mv i w by (cases "wk_entered ?w") (auto simp: calm_worker_def drop_nth_def split: if_splits)
  qed (use mv i w assms(3) in \<open>auto simp: calm_worker_def acquire_def new_worker_def split: if_splits option.splits list.splits\<close>)
qed

lemma calm_start: "calm (db_start c n s)"
  by (simp add: calm_def db_start_def calm_worker_def new_worker_def)

lemma calm_run: "db_run c st ms = Some st' \<Longrightarrow> calm st \<Longrightarrow> \<forall>m \<in> set ms. \<not> cancels m \<Longrightarrow> calm st'"
  by (rule db_run_invariant) (auto intro: calm_step)

context sqlite_code
begin

lemma simulates_start: "simulates c (db_start c n s) (serial_start c n s)"
  by (simp add: simulates_def db_start_def serial_start_def one_writer_def list_all2_conv_all_nth new_worker_def)

text \<open>Every execution is a serial one, exactly so when no task was cancelled.\<close>

lemma run_serial:
  assumes "db_run c (db_start c n s) ms = Some st" "d \<or> (\<forall>m \<in> set ms. \<not> cancels m)"
  shows "\<exists>a. (serial_step c d)\<^sup>*\<^sup>* (serial_start c n s) a \<and> simulates c st a"
  using assms
proof (induction ms arbitrary: st rule: rev_induct)
  case Nil
  then show ?case using simulates_start by auto
next
  case (snoc m ms)
  then obtain st1 where st1: "db_run c (db_start c n s) ms = Some st1" "db_step c st1 m = Some st"
    by (auto simp: db_run_snoc)
  with snoc obtain a where a: "(serial_step c d)\<^sup>*\<^sup>* (serial_start c n s) a" "simulates c st1 a" by auto
  have "d \<or> calm st1" using calm_run [OF st1(1) calm_start] snoc.prems(2) by auto
  from move_follows [OF a(2) st1(2) this] a(1) show ?case
    unfolding follows_def by (meson rtranclp.rtrancl_into_rtrancl)
qed

end

section \<open>First come, first served\<close>

text \<open>
  The calls of one process that have ended, those it is at, and those that ever arrived. While no
  task is cancelled they are the same sequence, less what left the queue or was lost in a crash.
\<close>

definition served :: "nat \<Rightarrow> ('j, 'e, 'a) db_log \<Rightarrow> 'j list" where
  "served i log = map (\<lambda>(k, j, r). j) (filter (\<lambda>(k, j, r). k = i) log)"

definition in_hand :: "('j, 'l, 's, 'e, 'a) db_worker \<Rightarrow> 'j list" where
  "in_hand w = map th_job (wk_entered w) @
     (case wk_tx w of None \<Rightarrow> [] | Some x \<Rightarrow> [th_job (tx_thread x)]) @ wk_queue w"

fun arrivals :: "nat \<Rightarrow> 'j db_move list \<Rightarrow> 'j list" where
  "arrivals i [] = []"
| "arrivals i (Arrive k j # ms) = (if k = i then j # arrivals i ms else arrivals i ms)"
| "arrivals i (m # ms) = arrivals i ms"

lemma arrivals_append: "arrivals i (ms @ ns) = arrivals i ms @ arrivals i ns"
  by (induction i ms rule: arrivals.induct) auto

lemma served_snoc [simp]: "served i (log @ [(k, j, r)]) = served i log @ (if k = i then [j] else [])"
  by (simp add: served_def)

lemma served_Nil [simp]: "served i [] = []"
  by (simp add: served_def)

lemma subseq_drop_nth: "subseq (drop_nth k xs) xs"
proof (cases "k < length xs")
  case True
  have "subseq (drop_nth k xs) (take k xs @ xs ! k # drop (Suc k) xs)"
    unfolding drop_nth_def by (intro list_emb_append_mono) auto
  with True show ?thesis by (simp add: id_take_nth_drop [symmetric])
qed (simp add: drop_nth_def)

lemma in_hand_crash: "in_hand (new_worker c) = []"
  by (simp add: in_hand_def new_worker_def)

lemma fifo_step:
  assumes step: "db_step c st m = Some st'" and calm: "calm st" "\<not> cancels m" and i: "i < length (db_workers st)"
  shows "subseq (served i (db_log st') @ in_hand (db_workers st' ! i))
    (served i (db_log st) @ in_hand (db_workers st ! i) @ arrivals i [m])"
proof -
  let ?w = "db_workers st ! move_of m"
  from step have mv: "worker_move c m ?w st = Some st'" and mi: "move_of m < length (db_workers st)" by (auto elim: db_stepE)
  have w: "calm_worker ?w" using calm(1) mi by (simp add: calm_def)
  show ?thesis
  proof (cases "move_of m = i")
    case False
    then show ?thesis
      using mv by (cases m) (auto simp: enter_def finish_tx_def Let_def split: if_splits option.splits tx_phase.splits)
  next
    case True
    then show ?thesis
    proof (cases m)
      case (Enter k n)
      then have n: "n < length (wk_entered ?w)" using mv by (simp split: if_splits)
      then show ?thesis
        using Enter True mv mi calm_enter [OF w n]
        by (cases "wk_entered ?w") (auto simp: enter_def Let_def in_hand_def drop_nth_def split: if_splits)
    next
      case (Timeout k n)
      then have n: "n < length (wk_entered ?w)" using mv by (simp split: if_splits)
      then show ?thesis
        using Timeout True mv mi calm_enter [OF w n]
        by (cases "wk_entered ?w") (auto simp: in_hand_def drop_nth_def split: if_splits)
    next
      case (Finish k)
      then show ?thesis
        using True mv mi w
        by (auto simp: finish_tx_def Let_def in_hand_def calm_worker_def split: option.splits tx_phase.splits list.splits)
    next
      case (Work k)
      then show ?thesis
        using True mv mi by (auto simp: run_work_def in_hand_def split: option.splits tx_phase.splits prod.splits sum.splits)
    next
      case (Leave k n)
      then show ?thesis
        using True mv mi subseq_drop_nth [of n "wk_queue ?w"]
        by (auto simp: in_hand_def subseq_append' split: if_splits)
    next
      case (Forget k n)
      then show ?thesis
        using True mv mi w by (cases "wk_entered ?w") (auto simp: calm_worker_def drop_nth_def split: if_splits)
    next
      case (Acquire k)
      then show ?thesis
        using True mv mi w by (auto simp: acquire_def in_hand_def calm_worker_def split: list.splits if_splits option.splits)
    next
      case (Crash k)
      then show ?thesis using True mv mi by (auto simp: in_hand_crash)
    qed (use True mv mi calm(2) in \<open>auto simp: in_hand_def\<close>)
  qed
qed

lemma step_length: "db_step c st m = Some st' \<Longrightarrow> length (db_workers st') = length (db_workers st)"
  using step_worker by (metis length_list_update)

lemma fifo_run:
  assumes "db_run c (db_start c n s) ms = Some st" "\<forall>m \<in> set ms. \<not> cancels m" "i < n"
  shows "subseq (served i (db_log st) @ in_hand (db_workers st ! i)) (arrivals i ms)"
proof -
  have "length (db_workers st) = n \<and> subseq (served i (db_log st) @ in_hand (db_workers st ! i)) (arrivals i ms)"
    using assms(1,2)
  proof (induction ms arbitrary: st rule: rev_induct)
    case Nil
    then show ?case using assms(3) by (auto simp: db_start_def in_hand_crash)
  next
    case (snoc m ms)
    then obtain st1 where st1: "db_run c (db_start c n s) ms = Some st1" "db_step c st1 m = Some st"
      by (auto simp: db_run_snoc)
    with snoc have IH: "length (db_workers st1) = n"
        "subseq (served i (db_log st1) @ in_hand (db_workers st1 ! i)) (arrivals i ms)" by auto
    have "calm st1" using calm_run [OF st1(1) calm_start] snoc.prems(2) by auto
    from fifo_step [OF st1(2) this, of i] snoc.prems(2) IH(1) assms(3)
    have "subseq (served i (db_log st) @ in_hand (db_workers st ! i))
        ((served i (db_log st1) @ in_hand (db_workers st1 ! i)) @ arrivals i [m])" by simp
    also have "subseq \<dots> (arrivals i ms @ arrivals i [m])"
      by (rule list_emb_append_mono [OF IH(2)]) simp
    finally show ?case using step_length [OF st1(2)] IH(1) by (simp add: arrivals_append)
  qed
  then show ?thesis ..
qed

lemma log_processes:
  assumes "db_run c (db_start c n s) ms = Some st" "e \<in> set (db_log st)"
  shows "fst e < n"
proof -
  have "length (db_workers st) = n \<and> (\<forall>e \<in> set (db_log st). fst e < n)"
  proof (rule db_run_invariant [OF assms(1)])
    show "length (db_workers (db_start c n s)) = n \<and> (\<forall>e \<in> set (db_log (db_start c n s)). fst e < n)"
      by (simp add: db_start_def)
  next
    fix m st1 st2
    assume "db_step c st1 m = Some st2" "length (db_workers st1) = n \<and> (\<forall>e \<in> set (db_log st1). fst e < n)"
    then show "length (db_workers st2) = n \<and> (\<forall>e \<in> set (db_log st2). fst e < n)"
      using step_log [of c st1 m st2] step_length [of c st1 m st2] by (auto elim!: db_stepE)
  qed
  with assms(2) show ?thesis by blast
qed

lemma served_alone: "\<forall>e \<in> set es. fst e = i \<Longrightarrow> served i es = map (\<lambda>e. fst (snd e)) es"
  by (induction es) (auto simp: served_def)

section \<open>Every call ends\<close>

definition thread_load :: "'j db_thread \<Rightarrow> nat" where
  "thread_load t = (if th_awaited t then 1 else 0)"

definition worker_load :: "('j, 'l, 's, 'e, 'a) db_worker \<Rightarrow> nat" where
  "worker_load w = 5 * length (wk_queue w) + sum_list (map (\<lambda>t. 3 + thread_load t) (wk_entered w)) +
     (case wk_tx w of None \<Rightarrow> 0
      | Some x \<Rightarrow> (case tx_phase x of Begun \<Rightarrow> 2 | _ \<Rightarrow> 1) + thread_load (tx_thread x))"

definition db_load :: "('j, 'l, 's, 'e, 'a) db_state \<Rightarrow> nat" where
  "db_load st = sum_list (map worker_load (db_workers st))"

text \<open>The moves by which the processes get on with their calls.\<close>

fun serves :: "'j db_move \<Rightarrow> bool" where
  "serves (Acquire i) = True"
| "serves (Enter i k) = True"
| "serves (Work i) = True"
| "serves (Finish i) = True"
| "serves m = False"

fun outside :: "'j db_move \<Rightarrow> bool" where
  "outside (Arrive i j) = True"
| "outside (Crash i) = True"
| "outside m = False"

text \<open>A lock is held only by a task whose thread is running.\<close>

definition lock_held :: "('j, 'l, 's, 'e, 'a) db_worker \<Rightarrow> bool" where
  "lock_held w \<longleftrightarrow> (wk_locked w \<longrightarrow>
     list_ex th_awaited (wk_entered w) \<or> (\<exists>x. wk_tx w = Some x \<and> th_awaited (tx_thread x)))"

lemma load_drop:
  "k < length ts \<Longrightarrow> sum_list (map (\<lambda>t. 3 + thread_load t) ts) =
     3 + thread_load (ts ! k) + sum_list (map (\<lambda>t. 3 + thread_load t) (drop_nth k ts))"
  by (subst id_take_nth_drop, assumption) (simp add: drop_nth_def)

lemma load_cancel:
  "k < length ts \<Longrightarrow> th_awaited (ts ! k) \<Longrightarrow>
     sum_list (map (\<lambda>t. 3 + thread_load t) (ts[k := (ts ! k)\<lparr>th_awaited := False\<rparr>])) < sum_list (map (\<lambda>t. 3 + thread_load t) ts)"
  by (induction ts arbitrary: k) (auto simp: thread_load_def nth_Cons split: nat.splits)

lemma length_drop_nth: "k < length xs \<Longrightarrow> length xs = Suc (length (drop_nth k xs))"
  by (simp add: drop_nth_def)

lemma worker_load_end: "worker_load (end_thread t w) = worker_load w"
  by (simp add: worker_load_def)

lemma enter_load:
  assumes "enter c i t w st = Some st'" "i < length (db_workers st)"
  shows "worker_load (db_workers st' ! i) < 3 + thread_load t + worker_load w"
proof (cases "dc_reads c (th_job t) \<or> wk_tx w \<noteq> None")
  case True
  then have "db_workers st' ! i = end_thread t w"
    using assms by (auto simp: enter_def Let_def split: if_splits)
  then show ?thesis by (simp add: worker_load_end)
next
  case False
  then have "db_workers st' ! i = w\<lparr>wk_tx := Some \<lparr>tx_thread = t, tx_phase = Begun, tx_view = db_table st\<rparr>\<rparr>"
    using assms by (auto simp: enter_def Let_def split: if_splits)
  then show ?thesis using False by (simp add: worker_load_def)
qed

lemma worker_load_step:
  assumes "db_step c st m = Some st'" "\<not> outside m"
  shows "worker_load (db_workers st' ! move_of m) < worker_load (db_workers st ! move_of m)"
proof -
  let ?w = "db_workers st ! move_of m"
  from assms have mv: "worker_move c m ?w st = Some st'" and mi: "move_of m < length (db_workers st)" by (auto elim: db_stepE)
  show ?thesis
  proof (cases m)
    case (Leave k n)
    then have n: "n < length (wk_queue ?w)" and st': "st' = put_worker k (?w\<lparr>wk_queue := drop_nth n (wk_queue ?w)\<rparr>) st"
      using mv by (simp_all split: if_splits)
    show ?thesis
      using length_drop_nth [OF n] mi Leave unfolding st' by (simp add: worker_load_def)
  next
    case (CancelEntered k n)
    then have n: "n < length (wk_entered ?w)" "th_awaited (wk_entered ?w ! n)"
        and st': "st' = put_worker k (?w\<lparr>wk_locked := False,
          wk_entered := (wk_entered ?w)[n := (wk_entered ?w ! n)\<lparr>th_awaited := False\<rparr>]\<rparr>) st"
      using mv by (simp_all split: if_splits)
    show ?thesis
      using load_cancel [OF n] mi CancelEntered unfolding st' by (simp add: worker_load_def)
  next
    case (Enter k n)
    let ?w' = "?w\<lparr>wk_entered := drop_nth n (wk_entered ?w)\<rparr>" and ?t = "wk_entered ?w ! n"
    from Enter mv have n: "n < length (wk_entered ?w)" and e: "enter c k ?t ?w' st = Some st'"
      by (simp_all split: if_splits)
    have "worker_load (db_workers st' ! k) < 3 + thread_load ?t + worker_load ?w'"
      using enter_load [OF e] mi Enter by simp
    also have "3 + thread_load ?t + worker_load ?w' = worker_load ?w"
      using load_drop [OF n] by (simp add: worker_load_def)
    finally show ?thesis using Enter by simp
  next
    case (Timeout k n)
    then have n: "n < length (wk_entered ?w)"
        and w': "db_workers st' ! k = end_thread (wk_entered ?w ! n) (?w\<lparr>wk_entered := drop_nth n (wk_entered ?w)\<rparr>)"
      using mv mi by (auto split: if_splits)
    show ?thesis
      using load_drop [OF n] Timeout w' worker_load_end [of "wk_entered ?w ! n" "?w\<lparr>wk_entered := drop_nth n (wk_entered ?w)\<rparr>"]
      by (simp add: worker_load_def)
  next
    case (Forget k n)
    then have n: "n < length (wk_entered ?w)" and w': "db_workers st' ! k = ?w\<lparr>wk_entered := drop_nth n (wk_entered ?w)\<rparr>"
      using mv mi by (auto split: if_splits)
    show ?thesis using load_drop [OF n] Forget w' by (simp add: worker_load_def)
  next
    case (Work k)
    then show ?thesis
      using mv mi by (auto simp: worker_load_def run_work_def split: option.splits tx_phase.splits prod.splits sum.splits)
  next
    case (Finish k)
    then show ?thesis
      using mv mi by (auto simp: worker_load_def finish_tx_def Let_def split: option.splits tx_phase.splits)
  next
    case (Acquire k)
    then show ?thesis
      using mv mi by (auto simp: worker_load_def acquire_def thread_load_def split: list.splits if_splits)
  next
    case (CancelTx k)
    then show ?thesis
      using mv mi by (auto simp: worker_load_def thread_load_def split: option.splits if_splits)
  qed (use assms(2) in simp_all)
qed

lemma sum_list_upd: "i < length (xs :: nat list) \<Longrightarrow> y < xs ! i \<Longrightarrow> sum_list (xs[i := y]) < sum_list xs"
  by (induction xs arbitrary: i) (auto split: nat.splits)

lemma load_step:
  assumes "db_step c st m = Some st'" "\<not> outside m"
  shows "db_load st' < db_load st"
proof -
  obtain w' where w': "db_workers st' = (db_workers st)[move_of m := w']" using step_worker [OF assms(1)] by blast
  have i: "move_of m < length (db_workers st)" using assms(1) by (rule db_stepE)
  show ?thesis
    using worker_load_step [OF assms] i unfolding db_load_def w' map_update by (intro sum_list_upd) simp_all
qed

lemma length_run: "db_run c st ms = Some st' \<Longrightarrow> \<forall>m \<in> set ms. \<not> outside m \<Longrightarrow> length ms + db_load st' \<le> db_load st"
proof (induction ms arbitrary: st)
  case (Cons m ms)
  then obtain st1 where "db_step c st m = Some st1" "db_run c st1 ms = Some st'" by (auto split: option.splits)
  with Cons.IH [of st1] load_step [of c st m st1] Cons.prems(2) show ?case by simp
qed simp

definition locks_held :: "('j, 'l, 's, 'e, 'a) db_state \<Rightarrow> bool" where
  "locks_held st \<longleftrightarrow> (\<forall>w \<in> set (db_workers st). lock_held w)"

lemma list_ex_drop_nth:
  "k < length xs \<Longrightarrow> list_ex P xs \<longleftrightarrow> P (xs ! k) \<or> list_ex P (drop_nth k xs)"
  by (subst id_take_nth_drop, assumption) (auto simp: drop_nth_def)

lemma locks_held_step:
  assumes "db_step c st m = Some st'" "locks_held st"
  shows "locks_held st'"
  unfolding locks_held_def
proof (rule step_all_workers [OF assms(1) assms(2) [unfolded locks_held_def]])
  let ?w = "db_workers st ! move_of m"
  assume mi: "move_of m < length (db_workers st)" and w: "lock_held ?w"
  from assms(1) have mv: "worker_move c m ?w st = Some st'" by (rule db_stepE)
  show "lock_held (db_workers st' ! move_of m)"
  proof (cases m)
    case (Enter k n)
    let ?t = "wk_entered ?w ! n"
    from Enter mv have n: "n < length (wk_entered ?w)" by (simp split: if_splits)
    note held = w [unfolded lock_held_def list_ex_drop_nth [OF n, of th_awaited]]
    show ?thesis
      using Enter mv mi held by (auto simp: enter_def Let_def lock_held_def split: if_splits)
  next
    case (Timeout k n)
    from Timeout mv have n: "n < length (wk_entered ?w)" by (simp split: if_splits)
    note held = w [unfolded lock_held_def list_ex_drop_nth [OF n, of th_awaited]]
    show ?thesis using Timeout mv mi held by (auto simp: lock_held_def split: if_splits)
  next
    case (Forget k n)
    from Forget mv have n: "n < length (wk_entered ?w)" by (simp split: if_splits)
    note held = w [unfolded lock_held_def list_ex_drop_nth [OF n, of th_awaited]]
    show ?thesis using Forget mv mi held by (auto simp: lock_held_def split: if_splits)
  next
    case (Work k)
    then show ?thesis
      using mv mi w by (auto simp: run_work_def lock_held_def split: option.splits tx_phase.splits prod.splits sum.splits)
  next
    case (Finish k)
    then show ?thesis
      using mv mi w by (auto simp: finish_tx_def Let_def lock_held_def split: option.splits tx_phase.splits)
  qed (use mv mi w in \<open>auto simp: lock_held_def acquire_def new_worker_def split: if_splits option.splits list.splits\<close>)
qed

lemma locks_held_start: "locks_held (db_start c n s)"
  by (simp add: locks_held_def lock_held_def db_start_def new_worker_def)

text \<open>No deadlock: while a call is unfinished, one of the processes can get on.\<close>

lemma not_stuck:
  assumes "locks_held st" "0 < db_load st"
  shows "\<exists>m st'. serves m \<and> db_step c st m = Some st'"
proof (cases "db_busy st")
  case True
  then obtain i x where i: "i < length (db_workers st)" "wk_tx (db_workers st ! i) = Some x"
    by (auto simp: db_busy_def list_ex_iff in_set_conv_nth)
  show ?thesis
  proof (cases "tx_phase x")
    case Begun
    then have "db_step c st (Work i) \<noteq> None" using i by (simp add: db_step_def)
    then show ?thesis by (intro exI [of _ "Work i"]) auto
  qed (use i in \<open>auto intro!: exI [of _ "Finish i"] simp: db_step_def finish_tx_def Let_def\<close>)
next
  case False
  then have idle: "wk_tx w = None" if "w \<in> set (db_workers st)" for w
    using that by (auto simp: db_busy_def list_ex_iff)
  have "db_load st = 0" if "\<forall>w \<in> set (db_workers st). worker_load w = 0"
    using that by (simp add: db_load_def)
  then obtain w where w: "w \<in> set (db_workers st)" "0 < worker_load w"
    using assms(2) by (metis gr0I less_irrefl)
  then obtain i where i: "i < length (db_workers st)" "w = db_workers st ! i" by (auto simp: in_set_conv_nth)
  show ?thesis
  proof (cases "wk_entered w")
    case (Cons t ts)
    have "db_step c st (Enter i 0) \<noteq> None"
      using i Cons idle [OF w(1)] False by (auto simp: db_step_def enter_def Let_def)
    then show ?thesis by (intro exI [of _ "Enter i 0"]) auto
  next
    case Nil
    with assms(1) w idle [OF w(1)] have "\<not> wk_locked w" "wk_queue w \<noteq> []"
      by (auto simp: locks_held_def lock_held_def worker_load_def)
    then have "db_step c st (Acquire i) \<noteq> None"
      using i by (auto simp: db_step_def acquire_def split: list.split)
    then show ?thesis by (intro exI [of _ "Acquire i"]) auto
  qed
qed

lemma drains:
  assumes "locks_held st"
  shows "\<exists>ms st'. (\<forall>m \<in> set ms. serves m) \<and> db_run c st ms = Some st' \<and> db_load st' = 0"
  using assms
proof (induction "db_load st" arbitrary: st rule: less_induct)
  case less
  show ?case
  proof (cases "db_load st = 0")
    case True
    then show ?thesis by (intro exI [of _ "[]"] exI [of _ st]) simp
  next
    case False
    then obtain m st1 where m: "serves m" "db_step c st m = Some st1"
      using not_stuck [OF less.prems, of c] by auto
    moreover have "\<not> outside m" using m(1) by (cases m) auto
    ultimately obtain ms st' where "\<forall>m \<in> set ms. serves m" "db_run c st1 ms = Some st'" "db_load st' = 0"
      using less.hyps [OF load_step [OF m(2)]] locks_held_step [OF m(2) less.prems] by blast
    then show ?thesis using m by (intro exI [of _ "m # ms"] exI [of _ st']) auto
  qed
qed

lemma worker_load_idle: "worker_load w = 0 \<longleftrightarrow> wk_queue w = [] \<and> wk_entered w = [] \<and> wk_tx w = None"
  by (auto simp: worker_load_def split: option.splits tx_phase.splits)

lemma idle_iff: "db_load st = 0 \<longleftrightarrow> (\<forall>w \<in> set (db_workers st). wk_queue w = [] \<and> wk_entered w = [] \<and> wk_tx w = None)"
  by (simp add: db_load_def worker_load_idle)

end
