(* ===== verification/Rt_Workers.thy ===== *)
theory Rt_Workers
  imports Sqlite Rt_Limiter
begin

text \<open>
  The limiter of \<open>llm_router/ratelimit.py\<close> in several processes over one file: its five
  operations as the calls of \<open>Sqlite\<close> (each takes the lock of the store, runs on a thread, and
  is an immediate transaction or, for the two counters, a single query). Every interleaving is
  shown to be a sequence of the operations of \<open>Rt_Limiter\<close>, one process alone to keep the
  sliding window, and every call to end. What the lock and \<open>BEGIN IMMEDIATE\<close> do not give is
  shown too: the clock is read before either is held.
\<close>

section \<open>The calls\<close>

datatype limiter_job =
    CheckReserve pystr int rat pystr  \<comment> \<open>tenant, estimate, clock reading, fresh id\<close>
  | Settle reservation int
  | Release reservation
  | Usage pystr rat
  | RowCount

datatype limiter_answer =
    Decided limit_decision
  | Closed
  | Used int
  | Counted nat

text \<open>The \<open>body\<close> of each transaction, and the queries, on the table the connection sees.\<close>

definition answer_as :: "('a \<Rightarrow> 'b) \<Rightarrow> 'e + 'a \<times> 's \<Rightarrow> 'e + 'b \<times> 's" where
  "answer_as f r = map_sum id (map_prod f id) r"

fun limiter_body :: "limiter \<Rightarrow> limiter_job \<Rightarrow> table \<Rightarrow> store_error + limiter_answer \<times> table" where
  "limiter_body lm (CheckReserve tenant est now request) rows =
     answer_as Decided (check_work lm tenant est now request rows)"
| "limiter_body lm (Settle rv actual) rows = answer_as (\<lambda>_. Closed) (settle_work rv actual rows)"
| "limiter_body lm (Release rv) rows = answer_as (\<lambda>_. Closed) (release_work rv rows)"
| "limiter_body lm (Usage tenant now) rows = map_sum id (\<lambda>n. (Used n, rows)) (usage lm tenant now rows)"
| "limiter_body lm RowCount rows = Inr (Counted (row_count rows), rows)"

fun limiter_reads :: "limiter_job \<Rightarrow> bool" where
  "limiter_reads (Usage tenant now) = True"
| "limiter_reads RowCount = True"
| "limiter_reads _ = False"

definition limiter_code :: "limiter \<Rightarrow> (limiter_job, unit, table, store_error, limiter_answer) db_code" where
  "limiter_code lm = \<lparr>dc_work = \<lambda>j l rows. (limiter_body lm j rows, l), dc_reads = limiter_reads, dc_fresh = ()\<rparr>"

lemma limiter_code_simps [simp]:
  "dc_work (limiter_code lm) j l rows = (limiter_body lm j rows, l)"
  "dc_reads (limiter_code lm) = limiter_reads" "dc_fresh (limiter_code lm) = ()"
  by (simp_all add: limiter_code_def)

interpretation lims: sqlite_code "limiter_code lm" for lm
proof
  fix j :: limiter_job and l :: unit and s :: table
  assume "dc_reads (limiter_code lm) j"
  then show "\<exists>r. dc_work (limiter_code lm) j l s = (map_sum id (\<lambda>x. (x, s)) r, l)"
  proof (cases j)
    case (Usage tenant now)
    then show ?thesis by (intro exI [of _ "map_sum id Used (usage lm tenant now s)"]) (simp add: sum.map_comp comp_def id_def)
  next
    case RowCount
    then show ?thesis by (intro exI [of _ "Inr (Counted (row_count s))"]) simp
  qed simp_all
qed

section \<open>The reference: the operations one after another\<close>

fun limiter_call :: "limiter \<Rightarrow> limiter_job \<Rightarrow> table \<Rightarrow> (store_error + limiter_answer) \<times> table" where
  "limiter_call lm (CheckReserve tenant est now request) rows =
     map_prod (map_sum id Decided) id (check_and_reserve lm tenant est now request rows)"
| "limiter_call lm (Settle rv actual) rows = map_prod (map_sum id (\<lambda>_. Closed)) id (settle rv actual rows)"
| "limiter_call lm (Release rv) rows = map_prod (map_sum id (\<lambda>_. Closed)) id (release rv rows)"
| "limiter_call lm (Usage tenant now) rows = (map_sum id Used (usage lm tenant now rows), rows)"
| "limiter_call lm RowCount rows = (Inr (Counted (row_count rows)), rows)"

fun limiter_calls :: "limiter \<Rightarrow> limiter_job list \<Rightarrow> table \<Rightarrow> (store_error + limiter_answer) list \<times> table" where
  "limiter_calls lm [] rows = ([], rows)"
| "limiter_calls lm (j # js) rows =
     (let (r, rows1) = limiter_call lm j rows; (rs, rows2) = limiter_calls lm js rows1 in (r # rs, rows2))"

lemma transaction_answer: "transaction (\<lambda>rows. answer_as f (work rows)) rows = map_prod (map_sum id f) id (transaction work rows)"
  by (auto simp: transaction_def answer_as_def split: sum.splits)

text \<open>A call of the model is the operation of \<open>Rt_Limiter\<close>.\<close>

lemma serial_limiter:
  "serial_call (limiter_code lm) j l rows = (map_sum Failed id (fst (limiter_call lm j rows)), l, snd (limiter_call lm j rows))"
proof -
  have tx: "serial_call (limiter_code lm) j l rows = (map_sum Failed id (fst t), l, snd t)"
    if "transaction (limiter_body lm j) rows = t" for t
    using that by (auto simp: serial_call_def transaction_def split: sum.splits prod.splits)
  have body: "transaction (limiter_body lm j) rows = map_prod (map_sum id f) id (transaction work rows)"
    if "\<And>rows. limiter_body lm j rows = answer_as f (work rows)" for f and work :: "table \<Rightarrow> store_error + 'x \<times> table"
    unfolding transaction_answer [symmetric] that [abs_def] ..
  show ?thesis
  proof (cases j)
    case (CheckReserve tenant est now request)
    then show ?thesis
      using tx body [of Decided "check_work lm tenant est now request"] by (simp add: check_and_reserve_def)
  next
    case (Settle rv actual)
    then show ?thesis
      using tx body [of "\<lambda>_. Closed" "settle_work rv actual"] by (simp add: settle_def)
  next
    case (Release rv)
    then show ?thesis
      using tx body [of "\<lambda>_. Closed" "release_work rv"] by (simp add: release_def)
  next
    case (Usage tenant now)
    then show ?thesis by (cases "usage lm tenant now rows") (simp_all add: serial_call_def)
  next
    case RowCount
    then show ?thesis by (simp add: serial_call_def)
  qed
qed

lemma limiter_calls_append:
  "limiter_calls lm (js @ ks) rows =
     (let (rs, rows1) = limiter_calls lm js rows; (qs, rows2) = limiter_calls lm ks rows1 in (rs @ qs, rows2))"
  by (induction js arbitrary: rows) (auto simp: Let_def split: prod.splits)

lemma limiter_calls_snoc:
  assumes "limiter_calls lm js rows = (rs, rows1)"
  shows "limiter_calls lm (js @ [j]) rows = (rs @ [fst (limiter_call lm j rows1)], snd (limiter_call lm j rows1))"
  using assms by (simp add: limiter_calls_append split: prod.split)

text \<open>
  The calls of a log that took place: not those SQLite turned away, nor, where tasks were
  cancelled, the reads.
\<close>

definition took_place :: "bool \<Rightarrow> nat \<times> limiter_job \<times> (store_error db_error + limiter_answer) \<Rightarrow> bool" where
  "took_place d e = (case e of (i, j, r) \<Rightarrow>
     (case r of Inl (Failed x) \<Rightarrow> \<not> (d \<and> limiter_reads j) | Inl _ \<Rightarrow> False | Inr a \<Rightarrow> \<not> (d \<and> limiter_reads j)))"

lemma took_place_simps [simp]:
  "\<not> took_place d (i, j, Inl Busy)" "\<not> took_place d (i, j, Inl Nested)"
  "took_place d (i, j, Inl (Failed e)) \<longleftrightarrow> \<not> (d \<and> limiter_reads j)"
  "took_place d (i, j, Inr x) \<longleftrightarrow> \<not> (d \<and> limiter_reads j)"
  by (simp_all add: took_place_def)

lemma took_place_read: "d \<Longrightarrow> limiter_reads j \<Longrightarrow> \<not> took_place d (i, j, r)"
  by (simp add: took_place_def split: sum.split db_error.split)

definition log_job :: "nat \<times> limiter_job \<times> (store_error db_error + limiter_answer) \<Rightarrow> limiter_job" where
  "log_job e = fst (snd e)"

definition log_outcome :: "nat \<times> limiter_job \<times> (store_error db_error + limiter_answer) \<Rightarrow> store_error db_error + limiter_answer" where
  "log_outcome e = snd (snd e)"

definition replays ::
  "limiter \<Rightarrow> table \<Rightarrow> (nat \<times> limiter_job \<times> (store_error db_error + limiter_answer)) list \<Rightarrow> table \<Rightarrow> bool" where
  "replays lm rows es rows' \<longleftrightarrow>
     map_prod (map (map_sum Failed id)) id (limiter_calls lm (map log_job es) rows) = (map log_outcome es, rows')"

lemma replays_snoc:
  assumes "replays lm rows es rows1" "serial_call (limiter_code lm) j l rows1 = (r, l', rows2)"
  shows "replays lm rows (es @ [(i, j, r)]) rows2"
  using assms limiter_calls_snoc [of lm "map log_job es" rows _ rows1 j]
  by (cases "limiter_calls lm (map log_job es) rows") (auto simp: replays_def serial_limiter log_job_def log_outcome_def)

lemma reads_change_nothing: "limiter_reads j \<Longrightarrow> snd (limiter_call lm j rows) = rows"
  by (cases j) auto

lemma serial_replays:
  assumes "(serial_step (limiter_code lm) d)\<^sup>*\<^sup>* (serial_start (limiter_code lm) n rows) a"
  shows "replays lm rows (filter (took_place d) (ss_log a)) (ss_table a)"
  using assms
proof (induction rule: rtranclp_induct)
  case base
  then show ?case by (simp add: serial_start_def replays_def)
next
  case (step a b)
  from step.hyps(2) step.IH show ?case
  proof cases
    case (call i j r l s)
    show ?thesis
    proof (cases "d \<and> limiter_reads j")
      case True
      then have "s = ss_table a" using call(3) reads_change_nothing [of j lm "ss_table a"] by (simp add: serial_limiter)
      with True call step.IH show ?thesis by (simp add: took_place_read)
    next
      case False
      moreover have "r = map_sum Failed id (fst (limiter_call lm j (ss_table a)))"
        using call(3) by (simp add: serial_limiter)
      ultimately have "took_place d (i, j, r)"
        by (cases "fst (limiter_call lm j (ss_table a))") auto
      with call step.IH replays_snoc [OF step.IH call(3)] show ?thesis by simp
    qed
  qed (auto simp: took_place_read)
qed

section \<open>The window\<close>

text \<open>
  What a sequence of calls admitted: each admission with its reservation, settled or given back as
  the calls say, never evicted (the ghost log of \<open>Rt_Limiter\<close>, read off the answers).
\<close>

fun admissions ::
  "entry list \<Rightarrow> (nat \<times> limiter_job \<times> (store_error db_error + limiter_answer)) list \<Rightarrow> entry list" where
  "admissions es [] = es"
| "admissions es ((i, CheckReserve tenant est now request, Inr (Decided d)) # rest) =
     admissions (if ld_allowed d
       then es @ [\<lparr>en_row = \<lparr>ur_tenant = tenant, ur_request = request, ur_tokens = est, ur_created = now,
         ur_settled = False\<rparr>, en_reserved = est\<rparr>]
       else es) rest"
| "admissions es ((i, Settle rv n, Inr a) # rest) = admissions (map (log_settle (rv_request rv) n) es) rest"
| "admissions es ((i, Release rv, Inr a) # rest) =
     admissions (filter (\<lambda>e. ur_request (en_row e) \<noteq> rv_request rv) es) rest"
| "admissions es (e # rest) = admissions es rest"

text \<open>
  What the router keeps to: clock readings in order, no negative amount, and a reservation
  settled at most once.
\<close>

fun check_times :: "limiter_job list \<Rightarrow> rat list" where
  "check_times [] = []"
| "check_times (CheckReserve tenant est now request # js) = now # check_times js"
| "check_times (j # js) = check_times js"

fun settled_ids :: "limiter_job list \<Rightarrow> pystr list" where
  "settled_ids [] = []"
| "settled_ids (Settle rv n # js) = rv_request rv # settled_ids js"
| "settled_ids (j # js) = settled_ids js"

fun amount_ok :: "limiter_job \<Rightarrow> bool" where
  "amount_ok (CheckReserve tenant est now request) = (0 \<le> est)"
| "amount_ok (Settle rv n) = (0 \<le> n)"
| "amount_ok _ = True"

definition orderly :: "limiter_job list \<Rightarrow> bool" where
  "orderly js \<longleftrightarrow> sorted (check_times js) \<and> distinct (settled_ids js) \<and> list_all amount_ok js"

lemma check_times_append: "check_times (js @ ks) = check_times js @ check_times ks"
  by (induction js rule: check_times.induct) auto

lemma settled_ids_append: "settled_ids (js @ ks) = settled_ids js @ settled_ids ks"
  by (induction js rule: settled_ids.induct) auto

lemma subseq_check_times: "subseq js ks \<Longrightarrow> subseq (check_times js) (check_times ks)"
proof (induction rule: list_emb.induct)
  case (list_emb_Cons xs ys y)
  then show ?case by (cases y) auto
next
  case (list_emb_Cons2 x y xs ys)
  then show ?case by (cases y) auto
qed simp

lemma subseq_settled_ids: "subseq js ks \<Longrightarrow> subseq (settled_ids js) (settled_ids ks)"
proof (induction rule: list_emb.induct)
  case (list_emb_Cons xs ys y)
  then show ?case by (cases y) auto
next
  case (list_emb_Cons2 x y xs ys)
  then show ?case by (cases y) auto
qed simp

lemma sorted_subseq: "subseq xs ys \<Longrightarrow> sorted ys \<Longrightarrow> sorted xs"
  by (induction rule: list_emb.induct) (auto dest: list_emb_set)

lemma subseq_distinct: "subseq xs ys \<Longrightarrow> distinct ys \<Longrightarrow> distinct xs"
  by (induction rule: list_emb.induct) (auto dest: list_emb_set)

lemma orderly_subseq:
  assumes "subseq js ks" "orderly ks"
  shows "orderly js"
proof -
  have "list_all amount_ok js" using assms by (auto simp: orderly_def list_all_iff dest: list_emb_set)
  then show ?thesis
    using assms(2) sorted_subseq [OF subseq_check_times [OF assms(1)]] subseq_distinct [OF subseq_settled_ids [OF assms(1)]]
    by (simp add: orderly_def)
qed

text \<open>One call is a step of the history, if it keeps to the protocol.\<close>

lemma call_is_step:
  assumes "limiter_call lm j (ls_rows s) = (r, rows')" "amount_ok j"
    and "\<forall>t \<in> set (check_times [j]). ls_last s \<le> t"
    and "\<forall>e \<in> set (ls_log s). ur_settled (en_row e) \<longrightarrow> ur_request (en_row e) \<notin> set (settled_ids [j])"
  shows "\<exists>s'. (lim_step lm)\<^sup>*\<^sup>* s s' \<and> ls_rows s' = rows' \<and>
    ls_log s' = admissions (ls_log s) [(i, j, map_sum Failed id r)] \<and>
    (\<forall>t \<in> set (check_times [j]). ls_last s' \<le> t) \<and> (check_times [j] = [] \<longrightarrow> ls_last s' = ls_last s)"
proof -
  let ?P = "\<lambda>s'. ls_rows s' = rows' \<and> ls_log s' = admissions (ls_log s) [(i, j, map_sum Failed id r)] \<and>
    (\<forall>t \<in> set (check_times [j]). ls_last s' \<le> t) \<and> (check_times [j] = [] \<longrightarrow> ls_last s' = ls_last s)"
  have step: ?thesis if "lim_step lm s s'" "?P s'" for s' using that by blast
  have stay: ?thesis if "?P s" using that by blast
  show ?thesis
  proof (cases j)
    case (CheckReserve tenant est now request)
    then obtain q where q: "check_and_reserve lm tenant est now request (ls_rows s) = (q, rows')" "r = map_sum id Decided q"
      using assms(1) by (cases "check_and_reserve lm tenant est now request (ls_rows s)") auto
    have now: "ls_last s \<le> now" using assms(3) CheckReserve by simp
    show ?thesis
    proof (cases q)
      case (Inl e)
      with q(1) have "lim_step lm s (s\<lparr>ls_rows := rows'\<rparr>)" by (intro lim_step.fails) simp
      then show ?thesis by (rule step) (use CheckReserve q(2) Inl now in simp)
    next
      case (Inr d)
      note q1 = q(1) [unfolded Inr]
      show ?thesis
      proof (cases "ld_allowed d")
        case True
        have "0 \<le> est" using assms(2) CheckReserve by simp
        from lim_step.admit [OF now this q1 True] show ?thesis
          by (rule step) (use CheckReserve q(2) Inr True check_allowed(2) [OF q1 True] in simp)
      next
        case False
        from lim_step.refuse [OF now q1 False] show ?thesis
          by (rule step) (use CheckReserve q(2) Inr False in simp)
      qed
    qed
  next
    case (Settle rv n)
    then obtain q where q: "settle rv n (ls_rows s) = (q, rows')" "r = map_sum id (\<lambda>_. Closed) q"
      using assms(1) by (cases "settle rv n (ls_rows s)") auto
    show ?thesis
    proof (cases q)
      case (Inl e)
      with q(1) have "lim_step lm s (s\<lparr>ls_rows := rows'\<rparr>)" by (intro lim_step.settle_fails) simp
      then show ?thesis by (rule step) (use Settle q(2) Inl in simp)
    next
      case (Inr u)
      with q(1) have ok: "settle rv n (ls_rows s) = (Inr (), rows')" by simp
      have "0 \<le> n" "\<forall>e \<in> set (ls_log s). ur_request (en_row e) = rv_request rv \<longrightarrow> \<not> ur_settled (en_row e)"
        using assms(2,4) Settle by auto
      from lim_step.settles [OF this ok] show ?thesis by (rule step) (use Settle q(2) Inr in simp)
    qed
  next
    case (Release rv)
    then have "release rv (ls_rows s) = (Inr (), rows')" "r = Inr Closed" using assms(1) by (auto simp: release_eq)
    from lim_step.releases [OF this(1), of lm] show ?thesis by (rule step) (use Release \<open>r = Inr Closed\<close> in simp)
  next
    case (Usage tenant now)
    show ?thesis by (rule stay) (use Usage assms(1) in \<open>cases r; auto\<close>)
  next
    case RowCount
    show ?thesis by (rule stay) (use RowCount assms(1) in auto)
  qed
qed

lemma replays_Cons:
  "replays lm rows ((i, j, r) # es) rows' \<longleftrightarrow>
     r = map_sum Failed id (fst (limiter_call lm j rows)) \<and> replays lm (snd (limiter_call lm j rows)) es rows'"
  by (auto simp: replays_def log_job_def log_outcome_def Let_def split: prod.splits)

lemma admissions_Cons: "admissions es (e # rest) = admissions (admissions es [e]) rest"
proof -
  obtain i j r where e: "e = (i, j, r)" by (cases e)
  show ?thesis
  proof (cases r)
    case (Inl x)
    then show ?thesis unfolding e by (cases j) simp_all
  next
    case (Inr a)
    then show ?thesis unfolding e by (cases j; cases a) simp_all
  qed
qed

lemma admissions_settled:
  assumes "e \<in> set (admissions es [(i, j, r)])" "ur_settled (en_row e)"
  shows "ur_request (en_row e) \<in> set (settled_ids [j]) \<or>
    (\<exists>e' \<in> set es. ur_settled (en_row e') \<and> ur_request (en_row e') = ur_request (en_row e))"
proof (cases r)
  case (Inl x)
  with assms show ?thesis by (cases j) auto
next
  case (Inr a)
  with assms show ?thesis
    by (cases j; cases a) (auto simp: log_settle_def settle_row_def split: if_splits)
qed

lemma replay_is_history:
  assumes "replays lm (ls_rows s) es rows'" "orderly (map log_job es)"
    and "\<forall>t \<in> set (check_times (map log_job es)). ls_last s \<le> t"
    and "\<forall>e \<in> set (ls_log s). ur_settled (en_row e) \<longrightarrow> ur_request (en_row e) \<notin> set (settled_ids (map log_job es))"
  shows "\<exists>s'. (lim_step lm)\<^sup>*\<^sup>* s s' \<and> ls_rows s' = rows' \<and> ls_log s' = admissions (ls_log s) es"
  using assms
proof (induction es arbitrary: s)
  case Nil
  then show ?case by (auto simp: replays_def)
next
  case (Cons x es)
  obtain i j r where x: "x = (i, j, r)" by (cases x)
  let ?q = "limiter_call lm j (ls_rows s)"
  have jobs: "map log_job (x # es) = [j] @ map log_job es" by (simp add: x log_job_def)
  note split = check_times_append [of "[j]"] settled_ids_append [of "[j]"]
  note prems = Cons.prems(3,4) [unfolded jobs split]
  have r: "r = map_sum Failed id (fst ?q)" "replays lm (snd ?q) es rows'"
    using Cons.prems(1) by (simp_all add: x replays_Cons)
  have ord: "orderly (map log_job es)" "amount_ok j" "\<forall>t \<in> set (check_times [j]). \<forall>u \<in> set (check_times (map log_job es)). t \<le> u"
      "set (settled_ids [j]) \<inter> set (settled_ids (map log_job es)) = {}"
    using Cons.prems(2) unfolding orderly_def jobs split by (auto simp: sorted_append)
  obtain s1 where s1: "(lim_step lm)\<^sup>*\<^sup>* s s1" "ls_rows s1 = snd ?q" "ls_log s1 = admissions (ls_log s) [x]"
      "\<forall>t \<in> set (check_times [j]). ls_last s1 \<le> t" "check_times [j] = [] \<longrightarrow> ls_last s1 = ls_last s"
    using call_is_step [of lm j s "fst ?q" "snd ?q" i] prems ord(2) unfolding x r(1) by auto
  have "\<forall>u \<in> set (check_times (map log_job es)). ls_last s1 \<le> u"
  proof (cases "check_times [j]")
    case Nil
    then show ?thesis using s1(5) prems(1) by simp
  next
    case (Cons t ts)
    then show ?thesis using s1(4) ord(3) by force
  qed
  moreover have "\<forall>e \<in> set (ls_log s1). ur_settled (en_row e) \<longrightarrow> ur_request (en_row e) \<notin> set (settled_ids (map log_job es))"
    using admissions_settled [of _ "ls_log s" i j r] prems(2) ord(4) unfolding s1(3) x by fastforce
  ultimately obtain s' where "(lim_step lm)\<^sup>*\<^sup>* s1 s'" "ls_rows s' = rows'" "ls_log s' = admissions (ls_log s1) es"
    using Cons.IH [of s1] r(2) ord(1) s1(2) by auto
  then show ?case
    using s1(1,3) admissions_Cons [of "ls_log s" x es] by (intro exI [of _ s']) auto
qed

lemma replay_window:
  assumes "replays lm [] es rows'" "orderly (map log_job es)" "0 \<le> lm_limit lm"
  shows "window_charge lm tenant t (admissions [] es) \<le> lm_limit lm"
proof -
  define t0 where "t0 = (case check_times (map log_job es) of [] \<Rightarrow> 0 | t # ts \<Rightarrow> t)"
  have "\<forall>t \<in> set (check_times (map log_job es)). t0 \<le> t"
    using assms(2) by (auto simp: orderly_def t0_def split: list.splits)
  then obtain s where "(lim_step lm)\<^sup>*\<^sup>* (lim_start t0) s" "ls_log s = admissions [] es"
    using replay_is_history [of lm "lim_start t0" es rows'] assms(1,2) by (auto simp: lim_start_def)
  moreover from lim_inv_steps [OF this(1) lim_inv_start] have "lim_inv lm s" .
  ultimately show ?thesis using lim_invD(6) [of lm s tenant t] assms(3) by simp
qed

section \<open>Two processes\<close>

definition small_limiter :: limiter where
  "small_limiter = \<lparr>lm_limit = 100, lm_window = 60\<rparr>"

definition check_by :: "int \<Rightarrow> rat \<Rightarrow> string \<Rightarrow> limiter_job" where
  "check_by est now q = CheckReserve (str ''a'') est now (str q)"

definition serve :: "nat \<Rightarrow> limiter_job db_move list" where
  "serve i = [Enter i 0, Work i, Finish i]"

definition two_processes :: "limiter_job db_move list \<Rightarrow> (limiter_job, unit, table, store_error, limiter_answer) db_state option" where
  "two_processes ms = db_run (limiter_code small_limiter) (db_start (limiter_code small_limiter) 2 []) ms"

definition one_process :: "limiter_job db_move list \<Rightarrow> (limiter_job, unit, table, store_error, limiter_answer) db_state option" where
  "one_process ms = db_run (limiter_code small_limiter) (db_start (limiter_code small_limiter) 1 []) ms"

text \<open>
  The second process reads its clock at 59 and waits for the write lock until the first, which
  read it at 60, is done.
\<close>

definition late_moves :: "limiter_job db_move list" where
  "late_moves = [Arrive 0 (check_by 60 0 ''p''), Acquire 0] @ serve 0 @
     [Arrive 1 (check_by 90 59 ''q''), Acquire 1, Arrive 0 (check_by 10 60 ''r''), Acquire 0] @ serve 0 @ serve 1"

text \<open>
  A task is cancelled while its thread runs: the lock is free, the connection is not.
\<close>

definition cancel_moves :: "limiter_job db_move list" where
  "cancel_moves = [Arrive 0 (check_by 60 0 ''p''), Arrive 0 (check_by 10 1 ''q''), Acquire 0, Enter 0 0, CancelTx 0,
     Acquire 0, Enter 0 0, Work 0, Finish 0]"

section \<open>Properties\<close>

text \<open>
  C6. The limiter's operations are serialised across processes. However the tasks and threads
  of any number of processes interleave, with timeouts, cancelled tasks and crashes, the table
  and the answers are those of the operations run one after another in the order in which they
  ended: a transaction that did not commit left no trace, and only the calls SQLite turned away
  did not take place. Where no task was cancelled this includes the reads, none of which saw a
  transaction half done.
\<close>

theorem workers_serializable:
  assumes "db_run (limiter_code lm) (db_start (limiter_code lm) n rows) ms = Some st"
  defines "calls \<equiv> filter (took_place (list_ex cancels ms)) (db_log st)"
  shows "map_prod (map (map_sum Failed id)) id (limiter_calls lm (map log_job calls) rows) =
    (map log_outcome calls, db_table st)"
proof -
  let ?d = "list_ex cancels ms"
  have "?d \<or> (\<forall>m \<in> set ms. \<not> cancels m)" by (auto simp: list_ex_iff)
  from lims.run_serial [OF assms(1) this] obtain a where
      "(serial_step (limiter_code lm) ?d)\<^sup>*\<^sup>* (serial_start (limiter_code lm) n rows) a" "simulates (limiter_code lm) st a"
    by blast
  with serial_replays [OF this(1)] show ?thesis by (simp add: replays_def simulates_def calls_def)
qed

theorem workers_serializable_witness:
  "\<exists>st. two_processes late_moves = Some st \<and>
     db_table st = snd (limiter_calls small_limiter [check_by 60 0 ''p'', check_by 10 60 ''r'', check_by 90 59 ''q''] [])"
proof -
  have "map_option (\<lambda>st. map log_job (filter (took_place (list_ex cancels late_moves)) (db_log st))) (two_processes late_moves) =
      Some [check_by 60 0 ''p'', check_by 10 60 ''r'', check_by 90 59 ''q'']"
    by code_simp
  then obtain st where st: "two_processes late_moves = Some st"
      "map log_job (filter (took_place (list_ex cancels late_moves)) (db_log st)) =
       [check_by 60 0 ''p'', check_by 10 60 ''r'', check_by 90 59 ''q'']" by auto
  from workers_serializable [OF this(1) [unfolded two_processes_def]] st show ?thesis
    by (metis apsnd_conv id_apply map_prod_def snd_conv snd_map_prod)
qed

text \<open>
  One process keeps the sliding window under any load that arrives with clock readings in order
  (\<open>Rt_Start\<close> states it of a router that has started).
\<close>

lemma one_process_window:
  assumes "db_run (limiter_code lm) (db_start (limiter_code lm) 1 []) ms = Some st"
    and "\<forall>m \<in> set ms. \<not> cancels m" "orderly (arrivals 0 ms)" "0 \<le> lm_limit lm"
  shows "window_charge lm tenant t (admissions [] (filter (took_place False) (db_log st))) \<le> lm_limit lm"
proof -
  let ?calls = "filter (took_place False) (db_log st)"
  obtain a where "(serial_step (limiter_code lm) False)\<^sup>*\<^sup>* (serial_start (limiter_code lm) 1 []) a" "simulates (limiter_code lm) st a"
    using lims.run_serial [OF assms(1), of False] assms(2) by blast
  with serial_replays [OF this(1)] have replay: "replays lm [] ?calls (db_table st)" by (simp add: simulates_def)
  have "subseq (map log_job ?calls) (map log_job (db_log st))" by (intro subseq_map subseq_filter_left)
  also have "map log_job (db_log st) = served 0 (db_log st)"
    using log_processes [OF assms(1)] by (subst served_alone) (auto simp: log_job_def)
  also have "subseq \<dots> (served 0 (db_log st) @ in_hand (db_workers st ! 0))"
    by (rule prefix_imp_subseq) simp
  also have "subseq \<dots> (arrivals 0 ms)"
    by (rule fifo_run [OF assms(1,2)]) simp
  finally show ?thesis
    using replay_window [OF replay orderly_subseq [OF _ assms(3)] assms(4)] by blast
qed

definition calm_moves :: "limiter_job db_move list" where
  "calm_moves = [Arrive 0 (check_by 60 0 ''p''), Arrive 0 (check_by 50 1 ''q''), Acquire 0] @ serve 0 @
     [Acquire 0, Arrive 0 (Settle \<lparr>rv_request = str ''p'', rv_tenant = str ''a'', rv_estimated = 60\<rparr> 20)] @ serve 0 @
     [Acquire 0] @ serve 0 @ [Arrive 0 (check_by 50 2 ''r''), Acquire 0] @ serve 0"

text \<open>
  C26. Every call ends: from any state the processes can reach, by their own steps alone and
  without a timeout they come to rest with no task waiting, no thread running and no
  transaction open; and no execution without new requests or crashes goes on for ever, a bound
  on its length being the load of the state.
\<close>

theorem limiter_calls_end:
  assumes "db_run (limiter_code lm) (db_start (limiter_code lm) n rows) ms = Some st"
  shows "(\<exists>ns st'. list_all serves ns \<and> db_run (limiter_code lm) st ns = Some st' \<and>
       (\<forall>w \<in> set (db_workers st'). wk_queue w = [] \<and> wk_entered w = [] \<and> wk_tx w = None)) \<and>
    (\<forall>ns st'. list_all (\<lambda>m. \<not> outside m) ns \<longrightarrow> db_run (limiter_code lm) st ns = Some st' \<longrightarrow> length ns \<le> db_load st)"
proof -
  have "locks_held st"
    by (rule db_run_invariant [where P = locks_held, OF assms locks_held_start]) (rule locks_held_step)
  from drains [OF this, of "limiter_code lm"] show ?thesis
    using length_run [of "limiter_code lm" st] by (fastforce simp: list_all_iff idle_iff)
qed

theorem limiter_calls_end_witness:
  "\<exists>st ns st'. one_process (take 4 cancel_moves) = Some st \<and> db_log st = [] \<and> list_all serves ns \<and>
     db_run (limiter_code small_limiter) st ns = Some st' \<and> (\<forall>w \<in> set (db_workers st'). wk_queue w = [])"
proof -
  have "map_option db_log (one_process (take 4 cancel_moves)) = Some []" by code_simp
  then obtain st where st: "one_process (take 4 cancel_moves) = Some st" "db_log st = []" by auto
  with limiter_calls_end [OF st(1) [unfolded one_process_def]] show ?thesis by blast
qed

section \<open>What the locks do not give\<close>

text \<open>
  \<open>check_and_reserve\<close> reads the clock before it asks for either lock. With two processes the one
  with the earlier reading may be the later to commit; by then rows of its own window may have
  been evicted at the other's reading. Here 150 tokens are admitted in the window ending at 59,
  over a limit of 100.
\<close>

theorem late_clock_overadmits:
  "\<exists>st. two_processes late_moves = Some st \<and>
     window_charge small_limiter (str ''a'') 59 (admissions [] (filter (took_place False) (db_log st))) = 150 \<and>
     lm_limit small_limiter = 100"
proof -
  have "map_option (\<lambda>st. window_charge small_limiter (str ''a'') 59 (admissions [] (filter (took_place False) (db_log st))))
      (two_processes late_moves) = Some 150" by code_simp
  then show ?thesis by (auto simp: small_limiter_def)
qed

text \<open>
  A task cancelled in \<open>await asyncio.to_thread\<close> leaves the lock while its thread goes on. The
  next task's \<open>BEGIN IMMEDIATE\<close> then fails inside the first one's transaction, which still
  commits its reservation, with nobody left to settle or release it.
\<close>

theorem cancelled_task_frees_connection:
  "\<exists>st. one_process cancel_moves = Some st \<and>
     map log_outcome (take 1 (db_log st)) = [Inl Nested] \<and>
     map (\<lambda>r. (ur_request r, ur_settled r)) (db_table st) = [(str ''p'', False)] \<and> db_load st = 0"
proof -
  have "map_option (\<lambda>st. (map log_outcome (take 1 (db_log st)), map (\<lambda>r. (ur_request r, ur_settled r)) (db_table st), db_load st))
      (one_process cancel_moves) = Some ([Inl Nested], [(str ''p'', False)], 0)" by code_simp
  then show ?thesis by auto
qed

end
