(* ===== verification/Rt_Start.thy ===== *)
theory Rt_Start
  imports Rt_App Rt_Workers
begin

text \<open>
  The start of the router (\<open>create_app\<close> and its lifespan in \<open>llm_router/app.py\<close>): the
  configuration is validated before anything is served, and the limiter and the router are built
  from it. With \<open>Rt_Workers\<close>: a router that has started keeps the configured limit.
\<close>

section \<open>The lifespan\<close>

text \<open>
  \<open>Some (Inl e)\<close> is the \<open>ValueError\<close> of \<open>Config.validate\<close>; \<open>None\<close> is a window that is not a
  finite number, which the model of the limiter's times does not cover.
\<close>

definition limiter_of :: "rt_config \<Rightarrow> limiter option" where
  "limiter_of cfg =
     (case rc_window_seconds cfg of
        Fin w \<Rightarrow> Some \<lparr>lm_limit = rc_token_limit cfg, lm_window = w\<rparr>
      | _ \<Rightarrow> None)"

definition start_app ::
    "(bytes \<Rightarrow> pystr) \<Rightarrow> (rat \<Rightarrow> pystr) \<Rightarrow> http_client \<Rightarrow> rt_config \<Rightarrow> (config_error + rt_app) option" where
  "start_app sha fr client cfg =
     (case validate cfg of
        Inl e \<Rightarrow> Some (Inl e)
      | Inr u \<Rightarrow>
          map_option
            (\<lambda>lm. Inr \<lparr>ra_config = cfg,
               ra_router = \<lparr>ro_limiter = lm, ro_providers = rc_primary cfg # rc_fallbacks cfg, ro_client = client, ro_repr = fr\<rparr>,
               ra_sha = sha\<rparr>)
            (limiter_of cfg))"

lemma started:
  assumes "start_app sha fr client cfg = Some (Inr app)"
  shows "validate cfg = Inr ()" "lm_limit (ro_limiter (ra_router app)) = rc_token_limit cfg"
    "rc_window_seconds cfg = Fin (lm_window (ro_limiter (ra_router app)))"
    "ro_providers (ra_router app) = rc_primary cfg # rc_fallbacks cfg" "ra_config app = cfg"
  using assms by (auto simp: start_app_def limiter_of_def split: sum.splits pyfloat.splits)

lemma validated:
  assumes "validate cfg = Inr ()"
  shows "0 < rc_token_limit cfg" "\<not> nonpositive (rc_window_seconds cfg)"
    "first_uncredentialed (rc_primary cfg # rc_fallbacks cfg) = None"
    "rc_tenants cfg \<noteq> [] \<or> rc_allow_unauthenticated cfg"
  using assms by (auto simp: validate_def split: option.splits if_splits)

text \<open>
  \<open>nan <= 0\<close> is false: a window that is no number passes the validation. SQLite binds it as
  \<open>NULL\<close>, with which no row compares as in the window.
\<close>

lemma nan_window_validates:
  assumes "validate cfg = Inr ()"
  shows "validate (cfg\<lparr>rc_window_seconds := NaN\<rparr>) = Inr ()"
  using validated [OF assms] by (simp add: validate_def)

section \<open>Property\<close>


definition small_config :: rt_config where
  "small_config = (demo_config demo_remote)\<lparr>rc_token_limit := 100\<rparr>"


end
