(* ===== verification/Srv_Workers.thy ===== *)
theory Srv_Workers
  imports Sqlite Srv_Store
begin

text \<open>
  The refund ledger of \<open>customer_mcp/idempotency.py\<close> shared by several server processes, as the
  hosts that start the server over stdio do: \<open>run_once\<close> as the call of \<open>Sqlite\<close>, over the
  balances each process keeps in its own memory and loses when it dies. Shown: the ledger makes
  an operation happen once, whichever processes its retries reach.
\<close>

section \<open>The calls\<close>

text \<open>Under \<open>_immediate\<close> the write lock is held: what is left to fail is the insert or the commit.\<close>

definition holding_lock :: "refund_call \<Rightarrow> refund_call" where
  "holding_lock c = c\<lparr>rc_io := (rc_io c)\<lparr>io_lock := True\<rparr>\<rparr>"

definition ledger_work ::
    "ledger_config \<Rightarrow> unicode_db \<Rightarrow> refund_call \<Rightarrow> store \<Rightarrow> ledger \<Rightarrow>
     (domain_error ledger_error + (json \<times> bool) \<times> ledger) \<times> store" where
  "ledger_work lc db c st rows =
     (let (res, rows', st') = call_once lc db (holding_lock c) \<lparr>sv_rows = rows, sv_store = st\<rparr>
      in (map_sum id (\<lambda>a. (a, rows')) res, st'))"

definition ledger_code ::
    "ledger_config \<Rightarrow> unicode_db \<Rightarrow>
     (refund_call, store, ledger, domain_error ledger_error, json \<times> bool) db_code" where
  "ledger_code lc db = \<lparr>dc_work = ledger_work lc db, dc_reads = (\<lambda>_. False), dc_fresh = empty_store\<rparr>"

lemma ledger_code_simps [simp]:
  "dc_work (ledger_code lc db) = ledger_work lc db" "dc_reads (ledger_code lc db) = (\<lambda>_. False)"
  "dc_fresh (ledger_code lc db) = empty_store"
  by (simp_all add: ledger_code_def)

interpretation refunds: sqlite_code "ledger_code lc db" for lc db
  by unfold_locales simp

lemma holding_lock_simps [simp]:
  "rc_input (holding_lock c) = rc_input c" "rc_now (holding_lock c) = rc_now c"
  "rc_stamp (holding_lock c) = rc_stamp c" "call_key lc (holding_lock c) = call_key lc c"
  "call_issue db (holding_lock c) = call_issue db c" "io_lock (rc_io (holding_lock c))"
  "io_store (rc_io (holding_lock c)) = io_store (rc_io c)"
  by (simp_all add: holding_lock_def call_key_def call_issue_def)

section \<open>One call\<close>

text \<open>The arguments the schema lets through, and an identifier and a time that are text.\<close>

definition valid_call :: "pydantic \<Rightarrow> unicode_db \<Rightarrow> refund_call \<Rightarrow> bool" where
  "valid_call pd db c \<longleftrightarrow> valid_refund_input pd db (rc_input c) \<and>
     valid_str (rs_hex (rc_stamp c)) \<and> valid_str (rs_time (rc_stamp c))"

lemma whole_balances_cong: "st_customers st = st_customers st' \<Longrightarrow> whole_balances st = whole_balances st'"
  by (simp add: whole_balances_def)

lemma issue_whole:
  assumes "whole_balances st" "valid_call pd db c"
  shows "whole_balances (snd (call_issue db c st))"
proof -
  let ?st = "st\<lparr>st_refunds := []\<rparr>"
  have "whole_cents (ri_amount (rc_input c))" using assms(2) by (simp add: valid_call_def valid_refund_input_def)
  moreover have "whole_balances ?st" using assms(1) by (simp add: whole_balances_def)
  ultimately have "moves_money ?st (snd (call_issue db c ?st))"
    unfolding call_issue_def by (intro issue_refund_money [OF _ _ _ prod.collapse [symmetric]]) auto
  moreover have "st_customers (snd (call_issue db c ?st)) = st_customers (snd (call_issue db c st))"
    by (simp add: call_issue_def issue_refund_def Let_def split: option.split)
  ultimately show ?thesis by (simp add: moves_money_def whole_balances_def)
qed

text \<open>
  What a call that took place did. It was answered from the ledger, or issued and recorded, or
  it failed and left the table as it was.
\<close>

lemma ledger_call_cases:
  assumes call: "serial_call (ledger_code lc db) c st rows = (r, st', rows')"
    and ok: "distinct_ops rows" "whole_balances st" "valid_call pd db c"
  obtains (replayed) v resp t where "r = Inr (v, True)" "ledger_look rows (call_key lc c) = Some (resp, t)"
        "json_loads resp = Inr v" "fsub (rc_now c) (lc_window lc) < t"
    | (issued) payload where "r = Inr (JObj payload, False)"
        "ledger_look (expire (fsub (rc_now c) (lc_window lc)) rows) (call_key lc c) = None"
        "ledger_look rows' (call_key lc c) = Some (response_text payload, rc_now c)"
        "json_loads (response_text payload) = Inr (JObj payload)"
    | (failed) e where "r = Inl (Failed e)" "rows' = rows"
proof -
  obtain res rows1 where o: "call_once lc db (holding_lock c) \<lparr>sv_rows = rows, sv_store = st\<rparr> = (res, rows1, st')"
      "r = map_sum Failed id res" "rows' = (case res of Inl e \<Rightarrow> rows | Inr a \<Rightarrow> rows1)"
  proof -
    obtain res rows1 st1 where o: "call_once lc db (holding_lock c) \<lparr>sv_rows = rows, sv_store = st\<rparr> = (res, rows1, st1)"
      by (cases "call_once lc db (holding_lock c) \<lparr>sv_rows = rows, sv_store = st\<rparr>") auto
    then show thesis
      using call by (intro that [of res rows1]) (cases res; auto simp: serial_call_def ledger_work_def)+
  qed
  from o(1) [unfolded call_once_eq, simplified] show thesis
  proof (cases rule: run_once_cases)
    case lock
    then show thesis by simp
  next
    case (replay resp t v)
    then have "ledger_look rows (call_key lc c) = Some (resp, t) \<and> fsub (rc_now c) (lc_window lc) < t"
      using ok(1) by (auto simp: ops.look_age call_key_def split: option.splits if_splits)
    then show thesis using replay o(2) that(1) by simp
  next
    case (issued payload)
    have "json_loads (response_text payload) = Inr (JObj payload)"
      using call_issue_wf(1) [OF ok(2) _ _ _ issued(2)] ok(3) by (intro response_reads_back) (auto simp: valid_call_def)
    moreover have "ledger_look rows' (call_key lc c) = Some (response_text payload, rc_now c)"
      using issued o(3) by (simp add: ops.look_put call_key_def)
    ultimately show thesis using issued o(2) that(2) by (simp add: call_key_def)
  qed (use o that(3) in auto)
qed

lemma ledger_call_keeps:
  assumes "serial_call (ledger_code lc db) c st rows = (r, st', rows')" "distinct_ops rows"
  shows "distinct_ops rows'"
    and "ledger_look rows k = Some (resp, t) \<Longrightarrow> fsub (rc_now c) (lc_window lc) < t \<Longrightarrow> ledger_look rows' k = Some (resp, t)"
proof -
  obtain res rows1 st1 where o: "call_once lc db (holding_lock c) \<lparr>sv_rows = rows, sv_store = st\<rparr> = (res, rows1, st1)"
    by (cases "call_once lc db (holding_lock c) \<lparr>sv_rows = rows, sv_store = st\<rparr>") auto
  note once = o [unfolded call_once_eq, simplified]
  have rows': "rows' = rows \<or> rows' = rows1"
    using o assms(1) by (cases res) (auto simp: serial_call_def ledger_work_def)
  show "distinct_ops rows'" using rows' run_once_ok [OF once assms(2)] assms(2) by auto
  show "ledger_look rows k = Some (resp, t) \<Longrightarrow> fsub (rc_now c) (lc_window lc) < t \<Longrightarrow> ledger_look rows' k = Some (resp, t)"
    using rows' run_once_keeps [OF once assms(2)] by auto
qed

lemma ledger_call_whole:
  assumes "serial_call (ledger_code lc db) c st rows = (r, st', rows')" "whole_balances st" "valid_call pd db c"
  shows "whole_balances st'"
proof -
  have "st' = snd (snd (call_once lc db (holding_lock c) \<lparr>sv_rows = rows, sv_store = st\<rparr>))"
    using assms(1) by (auto simp: serial_call_def ledger_work_def split: prod.splits sum.splits)
  then show ?thesis
    using call_once_store [of lc db "holding_lock c" "\<lparr>sv_rows = rows, sv_store = st\<rparr>"] issue_whole [OF assms(2,3)] assms(2)
    by auto
qed

section \<open>Once, over all processes\<close>

type_synonym refund_log = "(refund_call, domain_error ledger_error, json \<times> bool) db_log"

definition entry_call :: "nat \<times> refund_call \<times> 'r \<Rightarrow> refund_call" where
  "entry_call e = fst (snd e)"

text \<open>Every call of the log reads the clock before the answer given at \<open>t\<close> expires.\<close>

definition in_replay :: "ledger_config \<Rightarrow> rat \<Rightarrow> (nat \<times> refund_call \<times> 'r) list \<Rightarrow> bool" where
  "in_replay lc t es \<longleftrightarrow> list_all (\<lambda>e. fsub (rc_now (entry_call e)) (lc_window lc) < t) es"

definition answers_kept :: "ledger_config \<Rightarrow> ledger \<Rightarrow> refund_log \<Rightarrow> bool" where
  "answers_kept lc rows es \<longleftrightarrow>
     (\<forall>xs i c v ys. es = xs @ (i, c, Inr (v, False)) # ys \<longrightarrow> in_replay lc (rc_now c) ys \<longrightarrow>
        (\<exists>resp. ledger_look rows (call_key lc c) = Some (resp, rc_now c) \<and> json_loads resp = Inr v))"

definition issued_once :: "ledger_config \<Rightarrow> refund_log \<Rightarrow> bool" where
  "issued_once lc es \<longleftrightarrow>
     (\<forall>xs i c v ys k c' a zs. es = xs @ (i, c, Inr (v, False)) # ys @ (k, c', Inr a) # zs \<longrightarrow>
        call_key lc c' = call_key lc c \<longrightarrow> in_replay lc (rc_now c) (ys @ [(k, c', Inr a)]) \<longrightarrow> a = (v, True))"

lemma in_replay_simps [simp]:
  "in_replay lc t []" "in_replay lc t (e # es) \<longleftrightarrow> fsub (rc_now (entry_call e)) (lc_window lc) < t \<and> in_replay lc t es"
  "in_replay lc t (es @ es') \<longleftrightarrow> in_replay lc t es \<and> in_replay lc t es'"
  by (simp_all add: in_replay_def)

lemma entry_call_simp [simp]: "entry_call (i, c, r) = c"
  by (simp add: entry_call_def)

text \<open>How a pair of entries of a longer log lies.\<close>

lemma snoc_split: "es @ [e] = xs @ x # ys \<longleftrightarrow> (ys = [] \<and> xs = es \<and> x = e) \<or> (\<exists>ys'. ys = ys' @ [e] \<and> es = xs @ x # ys')"
  by (cases ys rule: rev_cases) auto

lemma answers_kept_snoc:
  assumes "answers_kept lc rows es"
    and "\<And>k resp t. ledger_look rows k = Some (resp, t) \<Longrightarrow> fsub (rc_now c) (lc_window lc) < t \<Longrightarrow> ledger_look rows' k = Some (resp, t)"
    and "\<And>v. r = Inr (v, False) \<Longrightarrow> \<exists>resp. ledger_look rows' (call_key lc c) = Some (resp, rc_now c) \<and> json_loads resp = Inr v"
  shows "answers_kept lc rows' (es @ [(i, c, r)])"
  unfolding answers_kept_def snoc_split
proof (intro allI impI)
  fix xs j d v ys
  assume "(ys = [] \<and> xs = es \<and> (j, d, Inr (v, False)) = (i, c, r)) \<or>
      (\<exists>ys'. ys = ys' @ [(i, c, r)] \<and> es = xs @ (j, d, Inr (v, False)) # ys')" and w: "in_replay lc (rc_now d) ys"
  then show "\<exists>resp. ledger_look rows' (call_key lc d) = Some (resp, rc_now d) \<and> json_loads resp = Inr v"
  proof (elim disjE exE conjE)
    assume "(j, d, Inr (v, False)) = (i, c, r)"
    then show ?thesis using assms(3) by auto
  next
    fix ys' assume ys: "ys = ys' @ [(i, c, r)]" "es = xs @ (j, d, Inr (v, False)) # ys'"
    then have w': "in_replay lc (rc_now d) ys'" "fsub (rc_now c) (lc_window lc) < rc_now d" using w by auto
    from assms(1) [unfolded answers_kept_def, rule_format, OF ys(2) w'(1)] assms(2) [OF _ w'(2)] show ?thesis by blast
  qed
qed

lemma issued_once_snoc:
  assumes "issued_once lc es" "answers_kept lc rows es"
    and "\<And>a v resp t. r = Inr a \<Longrightarrow> ledger_look rows (call_key lc c) = Some (resp, t) \<Longrightarrow>
      fsub (rc_now c) (lc_window lc) < t \<Longrightarrow> json_loads resp = Inr v \<Longrightarrow> a = (v, True)"
  shows "issued_once lc (es @ [(i, c, r)])"
  unfolding issued_once_def
proof (intro allI impI)
  fix xs j d v ys k c' a zs
  assume split: "es @ [(i, c, r)] = xs @ (j, d, Inr (v, False)) # ys @ (k, c', Inr a) # zs"
    and key: "call_key lc c' = call_key lc d" and w: "in_replay lc (rc_now d) (ys @ [(k, c', Inr a)])"
  show "a = (v, True)"
  proof (cases zs rule: rev_cases)
    case Nil
    with split have "es @ [(i, c, r)] = (xs @ (j, d, Inr (v, False)) # ys) @ [(k, c', Inr a)]" by simp
    then have e: "es = xs @ (j, d, Inr (v, False)) # ys" "c' = c" "r = Inr a"
      by (simp_all only: append1_eq_conv prod.inject)
    have w': "in_replay lc (rc_now d) ys" "fsub (rc_now c) (lc_window lc) < rc_now d" using w e(2) by auto
    from assms(2) [unfolded answers_kept_def, rule_format, OF e(1) w'(1)] obtain resp where
        "ledger_look rows (call_key lc d) = Some (resp, rc_now d)" "json_loads resp = Inr v" by blast
    with assms(3) [OF e(3)] key e(2) w'(2) show ?thesis by simp
  next
    case (snoc zs' z)
    with split have "es @ [(i, c, r)] = (xs @ (j, d, Inr (v, False)) # ys @ (k, c', Inr a) # zs') @ [z]" by simp
    then have "es = xs @ (j, d, Inr (v, False)) # ys @ (k, c', Inr a) # zs'" by (simp only: append1_eq_conv)
    from assms(1) [unfolded issued_once_def, rule_format, OF this key w] show ?thesis .
  qed
qed

lemma serial_issued_once:
  assumes "(serial_step (ledger_code lc db) d)\<^sup>*\<^sup>* (serial_start (ledger_code lc db) n rows) a"
    and "distinct_ops rows" "\<forall>e \<in> set (ss_log a). valid_call pd db (entry_call e)"
  shows "distinct_ops (ss_table a) \<and> (\<forall>l \<in> set (ss_locals a). whole_balances l) \<and>
    answers_kept lc (ss_table a) (ss_log a) \<and> issued_once lc (ss_log a)"
  using assms(1,3)
proof (induction rule: rtranclp_induct)
  case base
  then show ?case
    using assms(2) by (auto simp: serial_start_def answers_kept_def issued_once_def seed_whole)
next
  case (step a b)
  have unserved: "answers_kept lc (ss_table a) (ss_log a @ [(i, c, Inl x)])" "issued_once lc (ss_log a @ [(i, c, Inl x)])"
    if "answers_kept lc (ss_table a) (ss_log a)" "issued_once lc (ss_log a)" for i c x
    using that answers_kept_snoc [OF that(1), of c "ss_table a" "Inl x" i] issued_once_snoc [OF that(2,1), of "Inl x" c i] by auto
  from step.hyps(2) show ?case
  proof cases
    case (call i c r l s)
    have IH: "distinct_ops (ss_table a)" "\<forall>l \<in> set (ss_locals a). whole_balances l"
        "answers_kept lc (ss_table a) (ss_log a)" "issued_once lc (ss_log a)"
      using step.IH step.prems call(1) by auto
    have c: "valid_call pd db c" using step.prems call(1) by auto
    have st: "whole_balances (ss_locals a ! i)" using IH(2) call(2) by simp
    note keeps = ledger_call_keeps [OF call(3) IH(1)]
    have kept: "answers_kept lc s (ss_log a @ [(i, c, r)])"
    proof (rule answers_kept_snoc [OF IH(3) keeps(2)])
      show "\<exists>resp. ledger_look s (call_key lc c) = Some (resp, rc_now c) \<and> json_loads resp = Inr v" if "r = Inr (v, False)" for v
        using call(3) IH(1) st c by (cases rule: ledger_call_cases) (use that in auto)
    qed
    have once: "issued_once lc (ss_log a @ [(i, c, r)])"
    proof (rule issued_once_snoc [OF IH(4,3)])
      fix x v resp t
      assume r: "r = Inr x" and l: "ledger_look (ss_table a) (call_key lc c) = Some (resp, t)"
        "fsub (rc_now c) (lc_window lc) < t" "json_loads resp = Inr v"
      have "ledger_look (expire (fsub (rc_now c) (lc_window lc)) (ss_table a)) (call_key lc c) = Some (resp, t)"
        using IH(1) l(1,2) by (simp add: ops.look_age)
      with call(3) IH(1) st c show "x = (v, True)"
        by (cases rule: ledger_call_cases) (use r l in auto)
    qed
    have "whole_balances l" by (rule ledger_call_whole [OF call(3) st c])
    with IH(2) have "\<forall>l' \<in> set ((ss_locals a)[i := l]). whole_balances l'"
      using set_update_subset_insert [of "ss_locals a" i l] by blast
    then show ?thesis using keeps(1) kept once by (simp add: call(1))
  next
    case (restart i)
    have "\<forall>l \<in> set ((ss_locals a)[i := empty_store]). whole_balances l" if "\<forall>l \<in> set (ss_locals a). whole_balances l"
      using that seed_whole set_update_subset_insert [of "ss_locals a" i empty_store] by blast
    then show ?thesis using step.IH step.prems by (simp add: restart)
  qed (use step.IH step.prems unserved in auto)
qed

section \<open>The ledger of a process\<close>

text \<open>
  \<open>_ledger\<close> of \<open>store.py\<close>, by the file it is over, with the connections that are open.
  Opening a file may fail: then \<open>configure_ledger\<close> has closed the old connection and
  raises, and \<open>_ledger\<close> is still the closed one.
\<close>

record ledger_holder =
  lh_ledger :: "pystr option"
  lh_open :: "pystr list"

definition refund_ledger :: "(pystr \<Rightarrow> bool) \<Rightarrow> pystr \<Rightarrow> ledger_holder \<Rightarrow> pystr option \<times> ledger_holder" where
  "refund_ledger opens path0 h =
     (case lh_ledger h of
        Some path \<Rightarrow> (Some path, h)
      | None \<Rightarrow>
          if opens path0 then (Some path0, h\<lparr>lh_ledger := Some path0, lh_open := path0 # lh_open h\<rparr>)
          else (None, h))"

definition configure_ledger :: "(pystr \<Rightarrow> bool) \<Rightarrow> pystr \<Rightarrow> ledger_holder \<Rightarrow> bool \<times> ledger_holder" where
  "configure_ledger opens path h =
     (let h1 = (case lh_ledger h of Some old \<Rightarrow> h\<lparr>lh_open := remove1 old (lh_open h)\<rparr> | None \<Rightarrow> h)
      in if opens path then (True, h1\<lparr>lh_ledger := Some path, lh_open := path # lh_open h1\<rparr>) else (False, h1))"

definition one_connection :: "ledger_holder \<Rightarrow> bool" where
  "one_connection h \<longleftrightarrow> lh_open h = [] \<or> (\<exists>path. lh_ledger h = Some path \<and> lh_open h = [path])"

lemma ledger_holder_keeps:
  assumes "one_connection h"
  shows "one_connection (snd (refund_ledger opens path0 h))" "one_connection (snd (configure_ledger opens path h))"
  using assms
  by (auto simp: one_connection_def refund_ledger_def configure_ledger_def Let_def split: option.split)

text \<open>What the next refund finds after a failed change: a ledger whose connection is closed.\<close>

lemma configure_fails_closed:
  assumes "lh_ledger h = Some old" "lh_open h = [old]" "\<not> opens path"
  shows "refund_ledger opens path0 (snd (configure_ledger opens path h)) = (Some old, h\<lparr>lh_open := []\<rparr>)"
  using assms by (simp add: refund_ledger_def configure_ledger_def)

section \<open>Two processes\<close>

text \<open>The first process issues the refund and dies; the retry reaches the second.\<close>

definition retry_moves :: "refund_call db_move list" where
  "retry_moves = [Arrive 0 (demo_call 100 ''a''), Arrive 1 (demo_call 200 ''b''), Acquire 0, Acquire 1, Enter 0 0,
     Work 0, Finish 0, Crash 0, Enter 1 0, Work 1, Finish 1]"

definition two_servers :: "refund_call db_move list \<Rightarrow>
    (refund_call, store, ledger, domain_error ledger_error, json \<times> bool) db_state option" where
  "two_servers ms = db_run (ledger_code demo_ledger small_db) (db_start (ledger_code demo_ledger small_db) 2 []) ms"

lemma two_servers_log:
  assumes "ledger_work demo_ledger small_db (demo_call 100 ''a'') empty_store [] = (Inr (a, rows), st1)"
    and "ledger_work demo_ledger small_db (demo_call 200 ''b'') empty_store rows = (Inr (b, rows'), st2)"
  shows "\<exists>st. two_servers retry_moves = Some st \<and>
    db_log st = [(0, demo_call 100 ''a'', Inr a), (1, demo_call 200 ''b'', Inr b)] \<and>
    map wk_local (db_workers st) = [empty_store, st2]"
  unfolding two_servers_def retry_moves_def
  by (simp add: assms db_step_def db_start_def new_worker_def numeral_2_eq_2 acquire_def enter_def Let_def drop_nth_def
      db_busy_def run_work_def finish_tx_def put_worker_def log_end_def end_thread_def)

lemma retry_answered:
  "\<exists>v rows st1 rows'. ledger_work demo_ledger small_db (demo_call 100 ''a'') empty_store [] = (Inr ((v, False), rows), st1) \<and>
     ledger_work demo_ledger small_db (demo_call 200 ''b'') empty_store rows = (Inr ((v, True), rows'), empty_store)"
proof -
  let ?payload = "issued_payload (demo_issued ''a'') demo_left" and ?c = "demo_call 100 ''a''" and ?c' = "demo_call 200 ''b''"
  obtain st1 where issue: "call_issue small_db ?c empty_store = (Inr ?payload, st1)" using demo_issue by blast
  let ?i = demo_refund
  obtain rows where first: "call_once demo_ledger small_db (holding_lock ?c) \<lparr>sv_rows = [], sv_store = empty_store\<rparr> =
        (Inr (JObj ?payload, False), rows, st1)"
      and look: "ledger_look rows (call_key demo_ledger ?c) = Some (response_text ?payload, 100)"
    using run_once_issues [of "[]" demo_ledger "ri_customer ?i" "ri_amount ?i" "ri_reason ?i" "ri_key ?i"
        "call_issue small_db ?c" empty_store ?payload st1 "rc_io (holding_lock ?c)" 100] issue
    by (auto simp: call_once_eq distinct_ops_Nil ledger_look_def find_row_def call_key_def)
  have "distinct_ops rows"
    using run_once_ok [OF first [unfolded call_once_eq]] by (simp add: distinct_ops_Nil)
  moreover have "json_loads (response_text ?payload) = Inr (JObj ?payload)"
    by (rule response_reads_back, rule call_issue_wf(1) [OF seed_whole _ _ _ issue, of demo_pydantic]) (simp_all add: demo_refund_valid)
  ultimately have "call_once demo_ledger small_db (holding_lock ?c') \<lparr>sv_rows = rows, sv_store = empty_store\<rparr> =
      (Inr (JObj ?payload, True), expire (fsub 200 (lc_window demo_ledger)) rows, empty_store)"
    using run_once_replays [of rows demo_ledger "ri_customer ?i" "ri_amount ?i" "ri_reason ?i" "ri_key ?i" "response_text ?payload" 100 200
        "JObj ?payload" "rc_io (holding_lock ?c')" "call_issue small_db ?c'" empty_store] look demo_window
    by (simp add: call_once_eq call_key_def demo_refund_def)
  with first show ?thesis by (auto simp: ledger_work_def)
qed

section \<open>Property\<close>



end
