(* ===== verification/Spec2Isabelle.thy ===== *)
theory Spec2Isabelle
  imports Gw_Edges Rt_Safety Rt_App PyFloat Srv_Dispatch Srv_Stdio Mm_Provider Mp_Provider Dc_Console
    Dv_Routes Dv_RunTests Rt_Start Srv_Workers
begin

text \<open>
  A verification development of the services of this repository (\<open>src/\<close>): an authorising
  gateway for the Model Context Protocol, a server of customer tools that speaks it, a routing
  gateway for language models, a guardrail that redacts personal data from their streams, a
  console that drives them, and the test doubles they are demonstrated with. The definitions are
  written from the Python source; this header says which part of it each theory holds, what the
  lemmas show, and what is left out.

  \<^bold>\<open>The language and its library.\<close> A Python \<open>str\<close> is a list of code points, \<open>bytes\<close> a list
  of numbers below 256, a \<open>dict\<close> an association list in insertion order, an exception a value
  of a sum or an option (\<open>Prelude\<close>). \<open>PyBytes\<close> is UTF-8 as CPython reads and writes it,
  \<open>PyJson\<close> the values, serialiser and parser of \<open>json\<close>, \<open>PyJson_Roundtrip\<close> their round
  trip, \<open>PyFloat\<close> doubles as rationals with rounding to the nearest double after every
  operation, \<open>PyRepr\<close> their shortest decimal text, \<open>PyText\<close> the conversions \<open>repr\<close>,
  \<open>str\<close>, \<open>int\<close>, \<open>float\<close> and \<open>len\<close> of a JSON value, \<open>Unicode\<close> the character
  database as a parameter with the facts on ASCII the code relies on, and \<open>Http\<close> requests,
  responses, the reading of a bounded body and of environment variables. None of these are
  properties of the program; they are what its models compute with.

  \<^bold>\<open>The MCP gateway\<close> (\<open>mcp-gateway/src/mcp_gateway\<close>). \<open>Gw_Jsonrpc\<close> is \<open>jsonrpc.py\<close>: messages,
  the refusal of objects with a repeated key, \<open>parse_payload\<close>, error objects. \<open>Gw_Auth\<close> is
  \<open>auth.py\<close>: the token table and \<open>resolve_principal\<close>. \<open>Gw_Policy\<close> is \<open>policy.py\<close>: the
  folding of names and \<open>evaluate\<close>; what the rest of the gateway relies on is the locale
  \<open>policy_gate\<close>. \<open>Gw_App\<close> is \<open>app.py\<close>, \<open>proxy.py\<close> and \<open>config.py\<close>: the handlers
  \<open>handle_mcp_post\<close> and \<open>handle_mcp_passthrough\<close>, whose outcome is the audit log, the
  requests sent downstream and the response. \<open>Gw_Safety\<close> shows what reaches the downstream
  server, that refusals are answered, and that the audit log is complete and cannot be forged;
  \<open>Gw_Edges\<close> shows where the parser refuses, the headers that cross, and the cases that
  differ from the documentation. \<open>Md_Downstream\<close> is \<open>mock_downstream/app.py\<close>, the server
  behind it with its log, and the two together: the log is exactly what the policy allows.

  \<^bold>\<open>The model router\<close> (\<open>llm-gateway-router/src/llm_router\<close>). \<open>Rt_Tokens\<close> is \<open>tokens.py\<close>,
  estimates and reported spend. \<open>Rt_Limiter\<close> is \<open>ratelimit.py\<close> and \<open>store.py\<close>: the usage
  table with its transactions, and the step relation \<open>lim_step\<close> of every history of it.
  \<open>Rt_Providers\<close> is \<open>providers.py\<close> and \<open>errors.py\<close>: classification and one attempt.
  \<open>Rt_Router\<close> is \<open>router.py\<close>: admission, failover and settlement, over the locale
  \<open>reservation_store\<close>. \<open>Rt_App\<close> is \<open>auth.py\<close>, \<open>config.py\<close> and \<open>app.py\<close>.
  \<open>Rt_Safety\<close> shows the sliding window at every instant of every history, exact retry delays,
  the isolation of tenants, the closing and charging of every reservation, and that an error
  response depends on nothing an upstream wrote. \<open>Rt_Workers\<close> is the limiter in several
  processes over one file, \<open>Rt_Start\<close> the start of the router from its configuration.
  \<open>Mm_Provider\<close> is \<open>mock_model_provider/app.py\<close> and the router over it.

  \<^bold>\<open>One file, several processes.\<close> \<open>Sqlite\<close> is the concurrency of \<open>store.py\<close> and of the ledger:
  tasks queue for the lock of their process, run a call on a thread, and the call is an immediate
  transaction. Its moves interleave freely, a task may be cancelled and a process may crash at
  any point. The theory shows, for any code of the calls (the locale \<open>sqlite_code\<close>), that every
  execution is a serial one, that a process serves its tasks in order, that no state is stuck and
  that every call ends; \<open>Rt_Workers\<close> and \<open>Srv_Workers\<close> interpret it on the limiter and on the
  ledger.

  \<^bold>\<open>The customer server\<close> (\<open>mcp-server/src/customer_mcp\<close>). \<open>Srv_Schemas\<close> is \<open>schemas.py\<close>,
  the two input models. \<open>Srv_Ledger\<close> is \<open>idempotency.py\<close>: operation keys and the replay
  ledger, over the locale \<open>replay_store\<close>. \<open>Srv_Store\<close> is \<open>store.py\<close>: customers, balances
  and refunds, an abstract ledger in cents which the doubles implement. \<open>Srv_Dispatch\<close> is
  \<open>server.py\<close> and \<open>errors.py\<close>: the tools and the channel of every outcome. \<open>Srv_Workers\<close>
  is the ledger shared by several processes, over which an operation is still refunded once.
  \<open>Srv_Transport\<close> is the decision of \<open>transport.py\<close> on a line, refining a specification of
  what a line holds; \<open>Srv_Stdio\<close> is its two tasks and the queue between them, as the step
  relation \<open>stdio_step\<close>.

  \<^bold>\<open>The guardrail\<close> (\<open>llm-gateway-guardrail/src/llm_guardrail\<close>). \<open>Gd_Patterns\<close> is
  \<open>patterns.py\<close>, \<open>Gd_Redactor\<close> is \<open>redactor.py\<close>: the incremental redactor with its
  holdback and the suppression of over-long runs. \<open>Gd_Exact\<close> shows, in the locale
  \<open>fixed_pattern\<close>, that a stream redacts as the whole text does, and interprets it for social
  security numbers. \<open>Gd_Sse\<close> is \<open>sse.py\<close>, \<open>Gd_Stream\<close> is \<open>stream.py\<close>, \<open>Gd_App\<close> is
  \<open>app.py\<close> and \<open>config.py\<close>; \<open>Gd_Live\<close> shows the guarantees of a live stream and two frames
  that leak. \<open>Mp_Provider\<close> is \<open>mock_provider/app.py\<close> and the guardrail over it.

  \<^bold>\<open>The console\<close> (\<open>demo-console/src/demo_console/app.py\<close>) is \<open>Dc_Console\<close>, over an HTTP client
  that changes a world; with the gateway and the mock server as that world its panel is shown to
  tell the truth.

  \<^bold>\<open>Around them.\<close> \<open>Dv_Entry\<close> is the address each \<open>__main__.py\<close> listens on, \<open>Dv_Routes\<close> the route
  tables of all services: what they ask of each other is served. The last theorem of this theory
  is that their default configurations fit together.
  \<open>Dv_RunTests\<close> is \<open>run_tests.py\<close>, with what decides its exit status.
\<close>

text \<open>
  \<^bold>\<open>Parameters.\<close> Code that is not in the repository is an argument: the regular-expression engine
  (\<open>engine\<close>; \<open>matcher_ok\<close> and \<open>ssn_engine\<close> say what is relied on, \<open>demo_engine\<close> meets
  it), the Unicode database (\<open>unicode_ascii\<close>; \<open>small_db\<close>), SHA-256, pydantic's conversions
  (\<open>pydantic_ok\<close>), \<open>httpx\<close> and the servers behind it (functions from a request to what
  comes of it), the clock and the fresh identifiers, SQLite's failures, and \<open>float\<close> of a text.
  Each hypothesis is named, and every property with one has a witness on a concrete instance.

  \<^bold>\<open>Bounds and fuel.\<close> The JSON parser recurses on fuel above the length of its text and every call
  consumes a character, so it never runs out (\<open>parse_fuel\<close>). The decimal places of a double are
  searched on \<open>scale_fuel\<close>, which reaches its finite expansion (\<open>find_scale_reads\<close>). The
  back-off of a match runs on the length it can shrink by (\<open>back_off_fuel\<close>). Integers are
  Python's, except where SQLite stores them: there a value outside 64 bits is the error
  (\<open>Rt_Limiter\<close>). A double has 53 bits and no largest exponent, which no amount or time of
  the program reaches.

  \<^bold>\<open>Ordering.\<close> The histories of the limiter (\<open>Rt_Limiter\<close>) and of the ledger (\<open>Srv_Store\<close>) are
  sequences of operations, which \<open>Sqlite\<close> justifies for every interleaving of their threads; the
  tasks of the stdio transport interleave freely; a request of a service is handled on its own,
  with the state passed through. The statements inside one transaction are one move: no other
  connection sees between them.

  \<^bold>\<open>Not modelled.\<close> Logging set-up and the start of the servers (\<open>logging_setup.py\<close>, the rest
  of \<open>__main__.py\<close>), the demonstration and probe scripts, which print and call the services; Starlette's matching of a path against the route
  tables and its rendering of a JSON body (which raises for a value that is not finite and for a
  lone surrogate), the ASGI server and the SDK of the protocol;
  log lines other than the gateway's audit log; the interpreter's recursion limit; pauses between
  the frames of the mock providers; SQLite's files, the loss of commits in
  a power cut (\<open>synchronous=NORMAL\<close>) and a full disk other than as a failing commit of the ledger.
\<close>

section \<open>The default configuration\<close>

text \<open>
  The services find each other: with an empty environment every address a service calls is the
  one another service listens on, all of them on the loopback interface, each on a port of its
  own. The second instance of the mock model provider is the one started under the name
  \<open>fallback\<close>.
\<close>

theorem default_wiring:
  assumes "rt_environ rt = (\<lambda>_. None)" "rt_environ rt2 = [str ''MOCK_NAME'' \<mapsto> str ''fallback'']"
    and "gw_config_from_env rt = Some gw" "gd_config_from_env rt = Some gd" "rt_config_from_env rt = Some rc"
  shows "gc_downstream_url gw = url_of (the (downstream_address rt)) @ str ''/mcp'' \<and>
    gd_upstream_url gd = url_of (the (mock_provider_address rt)) @ str ''/v1/messages'' \<and>
    pv_url (rc_primary rc) = url_of (the (mock_model_address rt)) @ str ''/v1/messages'' \<and>
    map pv_url (rc_fallbacks rc) = [url_of (the (mock_model_address rt2)) @ str ''/v1/messages''] \<and>
    targets_from_env rt =
      \<lparr>tg_mcp_gateway = url_of (the (gateway_address rt)), tg_mcp_downstream = url_of (the (downstream_address rt)),
       tg_guardrail = url_of (the (guardrail_address rt)), tg_provider = url_of (the (mock_provider_address rt)),
       tg_router = url_of (the (router_address rt))\<rparr> \<and>
    (let addresses = map the [gateway_address rt, router_address rt, guardrail_address rt, console_address rt,
           downstream_address rt, mock_provider_address rt, mock_model_address rt, mock_model_address rt2]
     in distinct (map ad_port addresses) \<and> (\<forall>a \<in> set addresses. ad_host a = str ''127.0.0.1''))"
proof -
  have urls: "url_of (loopback 8080) = str ''http://127.0.0.1:8080''" "url_of (loopback 8081) = str ''http://127.0.0.1:8081''"
    "url_of (loopback 8090) = str ''http://127.0.0.1:8090''" "url_of (loopback 8091) = str ''http://127.0.0.1:8091''"
    "url_of (loopback 8100) = str ''http://127.0.0.1:8100''" "url_of (loopback 8101) = str ''http://127.0.0.1:8101''"
    "url_of (loopback 8102) = str ''http://127.0.0.1:8102''"
    by code_simp+
  have "gc_downstream_url gw = str ''http://127.0.0.1:8081/mcp''"
    using assms(1,3) by (auto simp: gw_config_from_env_def getenv_def split: option.splits)
  moreover have "gd_upstream_url gd = str ''http://127.0.0.1:8091/v1/messages''"
    using assms(1,4) by (auto simp: gd_config_from_env_def getenv_def Let_def split: option.splits)
  moreover have "pv_url (rc_primary rc) = str ''http://127.0.0.1:8101/v1/messages''"
    "map pv_url (rc_fallbacks rc) = [str ''http://127.0.0.1:8102/v1/messages'']"
    using assms(1,5) by (auto simp: rt_config_from_env_def env_provider_def getenv_def Let_def split: option.splits)
  moreover have "targets_from_env rt =
      \<lparr>tg_mcp_gateway = str ''http://127.0.0.1:8080'', tg_mcp_downstream = str ''http://127.0.0.1:8081'',
       tg_guardrail = str ''http://127.0.0.1:8090'', tg_provider = str ''http://127.0.0.1:8091'',
       tg_router = str ''http://127.0.0.1:8100''\<rparr>"
    using assms(1) by (simp add: targets_from_env_def getenv_def)
  ultimately show ?thesis
    unfolding default_addresses [OF assms(1)] default_fallback [OF assms(2)] option.sel urls
    by (simp add: loopback_def flip: str_append)
qed

end
